(* ===== verification/Emb_Prelude.thy ===== *)
theory Emb_Prelude
  imports Main "HOL-Library.Word" "HOL-Library.Monad_Syntax"
begin

text \<open>
  Shared vocabulary of the development: the fixed-width integer types of the
  C sources, the collections of simplification rules the components fill, and
  the generic facts on words and on the restoring division loop that several
  components use.
\<close>

unbundle bit_operations_syntax

type_synonym u8 = "8 word"
type_synonym u16 = "16 word"
type_synonym u32 = "32 word"
type_synonym u64 = "64 word"
type_synonym u128 = "128 word"

named_theorems field_simps_emb \<open>bit-field facts on instruction words\<close>
named_theorems machine_defs \<open>definitions unfolded when a machine step is evaluated\<close>

section \<open>Checks that abort\<close>

definition require :: "bool \<Rightarrow> unit option" where
  "require b = (if b then Some () else None)"

lemma require_bind [simp]: "Option.bind (require b) f = (if b then f () else None)"
  by (simp add: require_def)

lemma require_eq_Some [simp]: "require b = Some u \<longleftrightarrow> b"
  by (simp add: require_def)

section \<open>Words\<close>

lemma unat_push_bit_lt:
  fixes x :: "'a::len word"
  assumes "unat x * 2 ^ n < 2 ^ LENGTH('a)"
  shows "unat (push_bit n x) = unat x * 2 ^ n"
  using assms by (simp only: unsigned_push_bit_eq) (simp add: push_bit_eq_mult take_bit_nat_eq_self)

lemma unat_drop_bit:
  fixes x :: "'a::len word"
  shows "unat (drop_bit n x) = unat x div 2 ^ n"
  by (simp add: unat_drop_bit_eq flip: drop_bit_eq_div)

lemma unat_and_1:
  fixes x :: "'a::len word"
  shows "unat (x AND 1) = unat x mod 2"
proof -
  have "unat (x AND 1) = unat x AND unat (1 :: 'a word)"
    by (rule unsigned_and_eq)
  then show ?thesis
    by (simp only: unsigned_1 and_one_eq)
qed

lemma or_eq_add_disjoint:
  fixes x y :: "'a::len word"
  assumes "x AND y = 0"
  shows "x OR y = x + y"
  using assms by (simp add: disjunctive_add_eq_or)

lemma xor_exp_int: "(k :: int) XOR 2 ^ n = (if bit k n then k - 2 ^ n else k + 2 ^ n)"
proof -
  have "k XOR 2 ^ n = flip_bit n k"
    by (simp add: flip_bit_eq_xor push_bit_of_1)
  then show ?thesis
    by (simp add: flip_bit_eq_if set_bit_eq unset_bit_eq)
qed

section \<open>The low half of a 64-bit word\<close>

lemma take_bit_ring_low:
  fixes a b :: int
  assumes "m \<le> n"
  shows "take_bit m (take_bit n a + take_bit n b) = take_bit m (a + b)"
    "take_bit m (take_bit n a - take_bit n b) = take_bit m (a - b)"
    "take_bit m (take_bit n a * take_bit n b) = take_bit m (a * b)"
  using assms take_bit_add [of m "take_bit n a" "take_bit n b"] take_bit_add [of m a b]
    take_bit_diff [of m "take_bit n a" "take_bit n b"] take_bit_diff [of m a b]
    take_bit_mult [of m "take_bit n a" "take_bit n b"] take_bit_mult [of m a b]
  by (simp_all add: min_absorb1)

lemma low32_hom:
  fixes a b :: u64
  shows "(ucast (a + b) :: u32) = ucast a + ucast b"
    "(ucast (a - b) :: u32) = ucast a - ucast b"
    "(ucast (a * b) :: u32) = ucast a * ucast b"
    "(ucast (a AND b) :: u32) = ucast a AND ucast b"
    "(ucast (a OR b) :: u32) = ucast a OR ucast b"
    "(ucast (a XOR b) :: u32) = ucast a XOR ucast b"
  by (transfer; simp add: take_bit_ring_low)+

lemma low32_push: "(ucast (push_bit k a :: u64) :: u32) = push_bit k (ucast a)"
  by (transfer; simp add: take_bit_push_bit)

lemma low32_ext:
  "(ucast (ucast (x :: u32) :: u64) :: u32) = x" "(ucast (scast (x :: u32) :: u64) :: u32) = x"
  by (auto intro!: bit_word_eqI simp: bit_simps)

end
