(* ===== verification/Limbs.thy ===== *)
theory Limbs
  imports Emb_Prelude "HOL-Library.Signed_Division"
begin

text \<open>
  Arithmetic on a number held in two machine words, and the two algorithms the
  sources use on such numbers again and again: the product from four partial
  products, and restoring division, one bit at a time.
\<close>

section \<open>Two halves of a double word\<close>

definition join :: "'a::len word \<Rightarrow> 'a word \<Rightarrow> 'b::len word" where
  "join hi lo = push_bit LENGTH('a) (ucast hi) OR ucast lo"

abbreviation join64 :: "u64 \<Rightarrow> u64 \<Rightarrow> u128" where
  "join64 \<equiv> join"

abbreviation join32 :: "u32 \<Rightarrow> u32 \<Rightarrow> u64" where
  "join32 \<equiv> join"

lemma bit_join [bit_simps]:
  fixes hi lo :: "'a::len word"
  shows "bit (join hi lo :: 'b::len word) n \<longleftrightarrow>
    n < LENGTH('b) \<and> (if n < LENGTH('a) then bit lo n else bit hi (n - LENGTH('a)))"
  by (auto simp: join_def bit_simps dest: bit_imp_le_length)

lemma unat_join:
  fixes hi lo :: "'a::len word"
  assumes len: "LENGTH('b::len) = 2 * LENGTH('a)"
  shows "unat (join hi lo :: 'b word) = unat hi * 2 ^ LENGTH('a) + unat lo"
proof -
  have up: "unat (ucast x :: 'b word) = unat x" for x :: "'a word"
    using len unsigned_less [of x, where 'a = nat]
    by (simp add: unsigned_ucast_eq take_bit_nat_eq_self order_less_le_trans [OF unsigned_less])
  have "unat hi * 2 ^ LENGTH('a) < 2 ^ LENGTH('a) * 2 ^ LENGTH('a)"
    by simp
  then have "unat (push_bit LENGTH('a) (ucast hi :: 'b word)) = unat hi * 2 ^ LENGTH('a)"
    using len by (subst unat_push_bit_lt) (simp_all add: up mult_2 power_add)
  moreover have "unat hi * 2 ^ LENGTH('a) AND unat lo = 0"
    using unsigned_less [of lo, where 'a = nat]
    by (intro bit_eqI) (auto simp: bit_simps push_bit_eq_mult [symmetric] dest: bit_imp_le_length)
  ultimately show ?thesis
    by (simp add: join_def unsigned_or_eq up disjunctive_add_eq_or)
qed

lemma join_eq_iff:
  fixes h l h' l' :: "'a::len word"
  assumes len: "LENGTH('b::len) = 2 * LENGTH('a)"
  shows "(join h l :: 'b word) = join h' l' \<longleftrightarrow> h = h' \<and> l = l'"
proof
  assume eq: "(join h l :: 'b word) = join h' l'"
  have "bit h n = bit h' n" if "n < LENGTH('a)" for n
    using arg_cong [OF eq, of "\<lambda>w. bit w (n + LENGTH('a))"] that len by (simp add: bit_simps)
  moreover have "bit l n = bit l' n" if "n < LENGTH('a)" for n
    using arg_cong [OF eq, of "\<lambda>w. bit w n"] that len by (simp add: bit_simps)
  ultimately show "h = h' \<and> l = l'"
    by (auto intro!: bit_word_eqI)
qed simp

lemma join_split:
  fixes x :: "'b::len word"
  assumes len: "LENGTH('b) = 2 * LENGTH('a::len)"
  shows "join (ucast (drop_bit LENGTH('a) x) :: 'a word) (ucast x) = x"
  using len by (intro bit_word_eqI) (auto simp: bit_simps)

lemma carry_word:
  fixes x y :: "'a::len word"
  shows "of_nat ((unat x + unat y) div 2 ^ LENGTH('a)) = (if x + y < x then 1 else 0 :: 'a word)"
proof -
  define B :: nat where "B = 2 ^ LENGTH('a)"
  have s: "unat x < B" "unat y < B"
    unfolding B_def by (rule unsigned_less)+
  have u: "unat (x + y) = (unat x + unat y) mod B"
    by (simp add: unat_word_ariths B_def)
  show ?thesis
  proof (cases "unat x + unat y < B")
    case True
    then show ?thesis using u by (simp add: word_less_nat_alt flip: B_def)
  next
    case False
    then have "unat (x + y) = unat x + unat y - B" "(unat x + unat y) div B = 1"
      using s unfolding u by (simp_all add: mod_if div_if)
    with False s show ?thesis by (simp add: word_less_nat_alt flip: B_def)
  qed
qed

lemma mod_square:
  fixes B :: nat
  assumes "0 < B"
  shows "(H * B + L) mod (B * B) = (H + L div B) mod B * B + L mod B"
  using assms by (simp add: mod_mult2_eq add.commute [of "H * B"])

lemma of_nat_join:
  assumes len: "LENGTH('b::len) = 2 * LENGTH('a::len)"
  shows "(of_nat (H * 2 ^ LENGTH('a) + L) :: 'b word) =
    join (of_nat (H + L div 2 ^ LENGTH('a)) :: 'a word) (of_nat L)"
  using mod_square [of "2 ^ LENGTH('a)" H L] len
  by (simp only: word_unat_eq_iff unat_join [OF len] unat_of_nat len mult_2 power_add) simp

lemma join_of_nat:
  fixes a b :: "'a::len word"
  assumes len: "LENGTH('b::len) = 2 * LENGTH('a)"
  shows "(join a b :: 'b word) = of_nat (unat a * 2 ^ LENGTH('a) + unat b)"
  by (metis of_nat_unat ucast_id unat_join [OF len])

lemma join_add:
  fixes a b c d :: "'a::len word"
  assumes len: "LENGTH('b::len) = 2 * LENGTH('a)"
  shows "join a b + join c d = (join (a + c + (if b + d < b then 1 else 0)) (b + d) :: 'b word)"
proof -
  have "join a b + join c d =
      (of_nat ((unat a + unat c) * 2 ^ LENGTH('a) + (unat b + unat d)) :: 'b word)"
    unfolding join_of_nat [OF len, of a b] join_of_nat [OF len, of c d] by (simp add: algebra_simps)
  also have "\<dots> = join (of_nat (unat a + unat c + (unat b + unat d) div 2 ^ LENGTH('a)) :: 'a word)
      (of_nat (unat b + unat d))"
    by (rule of_nat_join [OF len])
  finally show ?thesis
    unfolding carry_word [symmetric] by simp
qed

lemma borrow_word:
  fixes b d :: "'a::len word"
  shows "b - d + d < b - d \<longleftrightarrow> b < d"
proof (cases "d \<le> b")
  case True
  then show ?thesis
    by (simp add: word_less_nat_alt word_le_nat_alt unat_sub)
next
  case False
  then have "unat b < unat d"
    by (simp add: word_le_nat_alt)
  moreover have "unat (b - d) = unat b + (2 ^ LENGTH('a) - unat d)"
  proof -
    have "\<not> unat d \<le> unat b" using \<open>unat b < unat d\<close> by simp
    then have "unat (b - d) = unat b + 2 ^ LENGTH('a) - unat d"
      by (simp only: unat_sub_if' if_False)
    then show ?thesis
      using unsigned_less [of d, where 'a = nat] by linarith
  qed
  moreover have "unat d < 2 ^ LENGTH('a)"
    by (rule unsigned_less)
  ultimately show ?thesis
    unfolding diff_add_cancel word_less_nat_alt by linarith
qed

lemma join_sub:
  fixes a b c d :: "'a::len word"
  assumes len: "LENGTH('b::len) = 2 * LENGTH('a)"
  shows "join a b - join c d = (join (a - (c + (if b < d then 1 else 0))) (b - d) :: 'b word)"
proof -
  define e :: "'a word" where "e = (if b < d then 1 else 0)"
  have "join (a - (c + e)) (b - d) + join c d = (join a b :: 'b word)"
    using join_add [OF len, of "a - (c + e)" "b - d" c d] unfolding borrow_word e_def [symmetric] by simp
  then show ?thesis
    unfolding e_def [symmetric] by (simp add: eq_diff_eq [symmetric])
qed

lemma join_not:
  fixes a b :: "'a::len word"
  assumes len: "LENGTH('b::len) = 2 * LENGTH('a)"
  shows "NOT (join a b :: 'b word) = join (NOT a) (NOT b)"
  using len by (intro bit_word_eqI) (auto simp: bit_simps)

lemma join_zero [simp]: "join 0 0 = 0" and join_one: "join 0 1 = 1"
  by (simp_all add: join_def)

lemma two_pow_len: "(2 :: 'a::len word) ^ LENGTH('a) = 0"
  by (rule word_exp_length_eq_0)

lemma join_mult:
  fixes a b c d :: "'a::len word"
  assumes len: "LENGTH('b::len) = 2 * LENGTH('a)"
  shows "join a b * join c d =
    (join (a * d + b * c + of_nat (unat b * unat d div 2 ^ LENGTH('a))) (b * d) :: 'b word)"
proof -
  have "join a b * join c d =
      (of_nat ((unat a * unat d + unat b * unat c + unat a * unat c * 2 ^ LENGTH('a)) * 2 ^ LENGTH('a)
        + unat b * unat d) :: 'b word)"
    unfolding join_of_nat [OF len, of a b] join_of_nat [OF len, of c d] by (simp add: algebra_simps)
  also have "\<dots> = join (of_nat (unat a * unat d + unat b * unat c + unat a * unat c * 2 ^ LENGTH('a)
      + unat b * unat d div 2 ^ LENGTH('a)) :: 'a word) (of_nat (unat b * unat d))"
    by (rule of_nat_join [OF len])
  finally show ?thesis
    unfolding of_nat_add of_nat_mult of_nat_power of_nat_numeral of_nat_unat two_pow_len by simp
qed

lemma join_less:
  fixes a b c d :: "'a::len word"
  assumes len: "LENGTH('b::len) = 2 * LENGTH('a)"
  shows "(join a b :: 'b word) < join c d \<longleftrightarrow> (if a \<noteq> c then a < c else b < d)"
proof -
  define B :: nat where "B = 2 ^ LENGTH('a)"
  have s: "unat b < B" "unat d < B"
    unfolding B_def by (rule unsigned_less)+
  have step: "x * B + unat y < z * B + unat w" if "x < z" "unat y < B" for x z and y w :: "'a word"
  proof -
    have "x * B + unat y < Suc x * B" using that(2) by simp
    also have "\<dots> \<le> z * B" using that(1) by (intro mult_le_mono1) simp
    finally show ?thesis by simp
  qed
  have "unat a * B + unat b < unat c * B + unat d \<longleftrightarrow>
      (if unat a \<noteq> unat c then unat a < unat c else unat b < unat d)"
    using step [of "unat a" "unat c" b d] step [of "unat c" "unat a" d b] s
    by (auto simp: neq_iff)
  then show ?thesis
    unfolding word_less_nat_alt unat_join [OF len] B_def [symmetric] word_unat_eq_iff by simp
qed

section \<open>Products from four partial products\<close>

lemma schoolbook_product:
  fixes a b h :: nat
  assumes "0 < h"
  defines "a0 \<equiv> a mod h" and "a1 \<equiv> a div h" and "b0 \<equiv> b mod h" and "b1 \<equiv> b div h"
  defines "mid \<equiv> a0 * b0 div h + a0 * b1 mod h + a1 * b0 mod h"
  shows "a * b = (a1 * b1 + a0 * b1 div h + a1 * b0 div h + mid div h) * h\<^sup>2 + mid mod h * h + a0 * b0 mod h"
proof -
  have split: "\<exists>q r. x = q * h + r \<and> x div h = q \<and> x mod h = r" for x
    by (metis div_mult_mod_eq)
  obtain q00 r00 where p00: "a0 * b0 = q00 * h + r00" "a0 * b0 div h = q00" "a0 * b0 mod h = r00"
    using split [of "a0 * b0"] by blast
  obtain q01 r01 where p01: "a0 * b1 = q01 * h + r01" "a0 * b1 div h = q01" "a0 * b1 mod h = r01"
    using split [of "a0 * b1"] by blast
  obtain q10 r10 where p10: "a1 * b0 = q10 * h + r10" "a1 * b0 div h = q10" "a1 * b0 mod h = r10"
    using split [of "a1 * b0"] by blast
  obtain qm rm where pm: "mid = qm * h + rm" "mid div h = qm" "mid mod h = rm"
    using split [of mid] by blast
  have m: "q00 + r01 + r10 = qm * h + rm"
    using pm(1) unfolding mid_def p00(2) p01(3) p10(3) .
  have "a = a1 * h + a0" "b = b1 * h + b0"
    unfolding a0_def a1_def b0_def b1_def by simp_all
  then have "a * b = a1 * b1 * h\<^sup>2 + (a0 * b1 + a1 * b0) * h + a0 * b0"
    by (simp add: algebra_simps power2_eq_square)
  also have "\<dots> = (a1 * b1 + q01 + q10) * h\<^sup>2 + (q00 + r01 + r10) * h + r00"
    unfolding p00(1) p01(1) p10(1) by (simp add: algebra_simps power2_eq_square)
  also have "\<dots> = (a1 * b1 + q01 + q10 + qm) * h\<^sup>2 + rm * h + r00"
    unfolding m by (simp add: algebra_simps power2_eq_square)
  finally show ?thesis
    by (simp only: p00(3) p01(2) p10(2) pm(2,3))
qed

lemma unat_take_bit:
  fixes x :: "'a::len word"
  shows "unat (take_bit k x) = unat x mod 2 ^ k"
  by (simp only: unsigned_take_bit_eq take_bit_nat_def)

lemma schoolbook_div_mod:
  fixes a b h :: nat
  assumes "0 < h"
  defines "a0 \<equiv> a mod h" and "a1 \<equiv> a div h" and "b0 \<equiv> b mod h" and "b1 \<equiv> b div h"
  defines "mid \<equiv> a0 * b0 div h + a0 * b1 mod h + a1 * b0 mod h"
  shows "a1 * b1 + a0 * b1 div h + a1 * b0 div h + mid div h = a * b div (h * h)"
    and "mid mod h * h + a0 * b0 mod h = a * b mod (h * h)"
proof -
  define H L where "H = a1 * b1 + a0 * b1 div h + a1 * b0 div h + mid div h"
    and "L = mid mod h * h + a0 * b0 mod h"
  have prod: "a * b = H * (h * h) + L"
    using schoolbook_product [OF assms(1), of a b] unfolding H_def L_def assms power2_eq_square
    by (simp only: add.assoc)
  have "mid mod h \<le> h - 1" "a0 * b0 mod h < h"
    using assms(1) mod_less_divisor [of h] by (simp_all add: less_Suc_eq_le [symmetric])
  then have "L < (h - 1) * h + h"
    unfolding L_def by (intro add_le_less_mono mult_right_mono) auto
  also have "\<dots> = h * h"
    using assms(1) by (cases h) simp_all
  finally show "H = a * b div (h * h)" "L = a * b mod (h * h)"
    using prod assms(1) by simp_all
qed

lemma mul_halves:
  fixes x y :: "'a::len word"
  assumes len: "LENGTH('a) = 2 * k" and "2 \<le> k"
  defines "x0 \<equiv> take_bit k x" and "x1 \<equiv> drop_bit k x"
    and "y0 \<equiv> take_bit k y" and "y1 \<equiv> drop_bit k y"
  defines "mid \<equiv> drop_bit k (x0 * y0) + take_bit k (x0 * y1) + take_bit k (x1 * y0)"
  shows "x1 * y1 + drop_bit k (x0 * y1) + drop_bit k (x1 * y0) + drop_bit k mid =
      of_nat (unat x * unat y div 2 ^ LENGTH('a))" (is "?hi = _")
    and "take_bit k (x0 * y0) OR push_bit k mid = x * y" (is "?lo = _")
proof -
  define h :: nat where "h = 2 ^ k"
  have hh: "2 ^ LENGTH('a) = h * h" and h4: "4 \<le> h"
    using len power_increasing [OF \<open>2 \<le> k\<close>, of "2 :: nat"]
    by (simp_all add: h_def power_add mult_2)
  have u: "unat x0 = unat x mod h" "unat x1 = unat x div h" "unat y0 = unat y mod h" "unat y1 = unat y div h"
    unfolding x0_def x1_def y0_def y1_def h_def by (simp_all only: unat_take_bit unat_drop_bit)
  have "unat x < h * h" "unat y < h * h"
    using unsigned_less [of x, where 'a = nat] unsigned_less [of y, where 'a = nat] by (simp_all add: hh)
  then have b: "unat x0 < h" "unat x1 < h" "unat y0 < h" "unat y1 < h"
    unfolding u using h4 by (simp_all add: less_mult_imp_div_less)
  have bp: "p * q < h * h" if "p < h" "q < h" for p q
    using that by (intro mult_strict_mono) auto
  have p: "unat (x0 * y0) = unat x0 * unat y0" "unat (x0 * y1) = unat x0 * unat y1"
    "unat (x1 * y0) = unat x1 * unat y0" "unat (x1 * y1) = unat x1 * unat y1"
    using b by (simp_all add: unat_word_ariths hh bp)
  let ?m = "unat x0 * unat y0 div h + unat x0 * unat y1 mod h + unat x1 * unat y0 mod h"
  have "unat x0 * unat y0 div h < h" "unat x0 * unat y1 mod h < h" "unat x1 * unat y0 mod h < h"
    using bp [OF b(1) b(3)] h4 by (simp_all add: less_mult_imp_div_less)
  then have "?m < 4 * h" by linarith
  also have "\<dots> \<le> h * h" using h4 by simp
  finally have m: "unat mid = ?m"
    unfolding mid_def by (simp add: unat_word_ariths(1) hh unat_take_bit unat_drop_bit p flip: h_def)
  have "0 < h" using h4 by simp
  note sb = schoolbook_div_mod [OF this, of "unat x" "unat y", folded u]
  have w: "x1 * y1 = of_nat (unat x1 * unat y1)"
    "drop_bit k (x0 * y1) = of_nat (unat x0 * unat y1 div h)"
    "drop_bit k (x1 * y0) = of_nat (unat x1 * unat y0 div h)" "drop_bit k mid = of_nat (?m div h)"
    unfolding m [symmetric] unfolding p [symmetric] h_def unat_drop_bit [symmetric] of_nat_unat by simp_all
  show "?hi = of_nat (unat x * unat y div 2 ^ LENGTH('a))"
    unfolding w hh sb(1) [symmetric] of_nat_add ..
  have "push_bit k mid = of_nat (?m mod h * h)"
    unfolding m [symmetric] h_def [symmetric]
    by (simp only: word_unat_eq_iff unsigned_push_bit_eq take_bit_nat_def unat_of_nat hh)
      (simp add: push_bit_eq_mult flip: h_def)
  moreover have "take_bit k (x0 * y0) = of_nat (unat x0 * unat y0 mod h)"
    unfolding p [symmetric] h_def unat_take_bit [symmetric] by simp
  moreover have "take_bit k (x0 * y0) AND push_bit k mid = 0"
    by (rule bit_word_eqI) (auto simp: bit_simps)
  ultimately have "?lo = of_nat (unat x * unat y mod (h * h))"
    by (simp add: or_eq_add_disjoint add.commute flip: sb(2))
  also have "\<dots> = x * y"
    by (simp add: word_unat_eq_iff unat_of_nat unat_word_ariths hh)
  finally show "?lo = x * y" .
qed

lemma and_ffff:
  fixes x :: u32
  shows "x AND 0xffff = take_bit 16 x"
  by (simp add: take_bit_eq_mask mask_eq_exp_minus_1)

lemma and_ffffffff:
  fixes x :: u64
  shows "x AND 0xffffffff = take_bit 32 x"
  by (simp add: take_bit_eq_mask mask_eq_exp_minus_1)

lemmas mul64_halves = mul_halves [where 'a = 64 and k = 32, simplified, folded and_ffffffff]
lemmas mul32_halves = mul_halves [where 'a = 32 and k = 16, simplified, folded and_ffff]

section \<open>Shifts and signed order on two halves\<close>

lemma push_bit_join:
  fixes a b :: "'a::len word"
  assumes "LENGTH('b::len) = 2 * LENGTH('a)" "0 < n" "n < LENGTH('a)"
  shows "push_bit n (join a b :: 'b word) = join (push_bit n a OR drop_bit (LENGTH('a) - n) b) (push_bit n b)"
  using assms by (intro bit_word_eqI) (auto simp: bit_simps ac_simps dest: bit_imp_le_length)

lemma push_bit_join_ge:
  fixes a b :: "'a::len word"
  assumes "LENGTH('b::len) = 2 * LENGTH('a)" "LENGTH('a) \<le> n" "n < LENGTH('b)"
  shows "push_bit n (join a b :: 'b word) = join (push_bit (n - LENGTH('a)) b) 0"
  using assms by (intro bit_word_eqI) (auto simp: bit_simps ac_simps dest: bit_imp_le_length)

lemma drop_bit_join:
  fixes a b :: "'a::len word"
  assumes "LENGTH('b::len) = 2 * LENGTH('a)" "0 < n" "n < LENGTH('a)"
  shows "drop_bit n (join a b :: 'b word) = join (drop_bit n a) (drop_bit n b OR push_bit (LENGTH('a) - n) a)"
  using assms by (intro bit_word_eqI) (auto simp: bit_simps ac_simps dest: bit_imp_le_length)

lemma drop_bit_join_ge:
  fixes a b :: "'a::len word"
  assumes "LENGTH('b::len) = 2 * LENGTH('a)" "LENGTH('a) \<le> n" "n < LENGTH('b)"
  shows "drop_bit n (join a b :: 'b word) = join 0 (drop_bit (n - LENGTH('a)) a)"
  using assms by (intro bit_word_eqI) (auto simp: bit_simps ac_simps dest: bit_imp_le_length)

lemma sless_iff_msb:
  fixes x :: "'a::len word"
  shows "x <s 0 \<longleftrightarrow> bit x (LENGTH('a) - 1)"
  by (simp add: word_sless_alt bit_last_iff)

lemma join_neg:
  fixes a b :: "'a::len word"
  assumes "LENGTH('b::len) = 2 * LENGTH('a)"
  shows "(join a b :: 'b word) <s 0 \<longleftrightarrow> a <s 0"
proof -
  have "\<not> 2 * LENGTH('a) - 1 < LENGTH('a)" "2 * LENGTH('a) - 1 - LENGTH('a) = LENGTH('a) - 1"
    using len_gt_0 [where 'a = 'a] by linarith+
  then show ?thesis
    using assms by (simp add: sless_iff_msb bit_simps)
qed

lemma signed_drop_bit_fill:
  fixes x :: "'a::len word"
  assumes "n < LENGTH('a)"
  shows "signed_drop_bit n x = drop_bit n x OR push_bit (LENGTH('a) - n) (if x <s 0 then NOT 0 else 0)"
  using assms by (intro bit_word_eqI) (auto simp: bit_simps sless_iff_msb dest: bit_imp_le_length)

lemma join_or:
  fixes a b c d :: "'a::len word"
  shows "join a b OR join c d = (join (a OR c) (b OR d) :: 'b::len word)"
  by (rule bit_word_eqI) (auto simp: bit_simps)

lemma push_bit_fill:
  assumes "LENGTH('b::len) = 2 * LENGTH('a::len)" "0 < n" "n < LENGTH('a)"
  shows "(push_bit (LENGTH('b) - n) (if s then NOT 0 else 0) :: 'b word) =
    join (push_bit (LENGTH('a) - n) (if s then NOT 0 else 0) :: 'a word) 0"
  using assms by (intro bit_word_eqI) (auto simp: bit_simps)

lemma signed_drop_bit_join:
  fixes a b :: "'a::len word"
  assumes "LENGTH('b::len) = 2 * LENGTH('a)" "0 < n" "n < LENGTH('a)"
  shows "signed_drop_bit n (join a b :: 'b word) =
    join (signed_drop_bit n a) (drop_bit n b OR push_bit (LENGTH('a) - n) a)"
  using assms signed_drop_bit_fill [of n "join a b :: 'b word"] signed_drop_bit_fill [of n a]
    push_bit_fill [of n "a <s 0", where 'a = 'a and 'b = 'b] drop_bit_join [of n a b, where 'b = 'b]
  by (simp add: join_neg join_or)

lemma signed_drop_bit_join_ge:
  fixes a b :: "'a::len word"
  assumes "LENGTH('b::len) = 2 * LENGTH('a)" "LENGTH('a) \<le> n" "n < LENGTH('b)"
  shows "signed_drop_bit n (join a b :: 'b word) =
    join (if a <s 0 then - 1 else 0) (signed_drop_bit (n - LENGTH('a)) a)"
  using assms by (intro bit_word_eqI) (auto simp: bit_simps sless_iff_msb min_def dest: bit_imp_le_length)

lemma sint_conv:
  fixes x :: "'a::len word"
  shows "sint x = (if x <s 0 then uint x - 2 ^ LENGTH('a) else uint x)"
  by (simp add: sint_uint signed_take_bit_eq_take_bit_minus sless_iff_msb bit_uint_iff
      take_bit_int_eq_self)

lemma sless_via_unat:
  fixes x y :: "'a::len word"
  shows "x <s y \<longleftrightarrow> (if (x <s 0) = (y <s 0) then x < y else x <s 0)"
proof -
  define u v :: int where "u = uint x" and "v = uint y"
  have "0 \<le> u" "u < 2 ^ LENGTH('a)" "0 \<le> v" "v < 2 ^ LENGTH('a)"
    unfolding u_def v_def by simp_all
  then show ?thesis
    unfolding word_sless_alt [of x y] sint_conv [of x] sint_conv [of y] word_less_def
    by (auto simp flip: u_def v_def)
qed

lemma join_sless:
  fixes a b c d :: "'a::len word"
  assumes len: "LENGTH('b::len) = 2 * LENGTH('a)"
  shows "(join a b :: 'b word) <s join c d \<longleftrightarrow> (if a \<noteq> c then a <s c else b < d)"
  unfolding sless_via_unat [of "join a b :: 'b word" "join c d"] sless_via_unat [of a c]
    join_neg [OF len] join_less [OF len]
  by auto

text \<open>The two instances the sources use.\<close>

lemmas join64_facts =
  unat_join [where 'a = 64 and 'b = 128, simplified] join_eq_iff [where 'a = 64 and 'b = 128, simplified]
  join_neg [where 'a = 64 and 'b = 128, simplified]
lemmas join64_split = join_split [where 'a = 64 and 'b = 128, simplified]
lemmas join64_add = join_add [where 'a = 64 and 'b = 128, simplified]
lemmas join64_sub = join_sub [where 'a = 64 and 'b = 128, simplified]
lemmas join64_mult = join_mult [where 'a = 64 and 'b = 128, simplified]
lemmas join64_not = join_not [where 'a = 64 and 'b = 128, simplified]
lemmas join64_order = join_less [where 'a = 64 and 'b = 128, simplified] join_sless [where 'a = 64 and 'b = 128, simplified]
lemmas join64_shifts =
  push_bit_join [where 'a = 64 and 'b = 128, simplified] push_bit_join_ge [where 'a = 64 and 'b = 128, simplified]
  drop_bit_join [where 'a = 64 and 'b = 128, simplified] drop_bit_join_ge [where 'a = 64 and 'b = 128, simplified]
  signed_drop_bit_join [where 'a = 64 and 'b = 128, simplified]
  signed_drop_bit_join_ge [where 'a = 64 and 'b = 128, simplified]
lemmas join32_split = join_split [where 'a = 32 and 'b = 64, simplified]
lemmas join32_mult = join_mult [where 'a = 32 and 'b = 64, simplified]
lemmas join32_add = join_add [where 'a = 32 and 'b = 64, simplified]
lemmas join32_shifts =
  push_bit_join [where 'a = 32 and 'b = 64, simplified] push_bit_join_ge [where 'a = 32 and 'b = 64, simplified]
  drop_bit_join [where 'a = 32 and 'b = 64, simplified] drop_bit_join_ge [where 'a = 32 and 'b = 64, simplified]
  signed_drop_bit_join [where 'a = 32 and 'b = 64, simplified]
  signed_drop_bit_join_ge [where 'a = 32 and 'b = 64, simplified]

section \<open>Signed division by magnitude\<close>

definition magnitude :: "'a::len word \<Rightarrow> 'a word" where
  "magnitude x = (if x <s 0 then - x else x)"

lemma uint_magnitude:
  fixes x :: "'a::len word"
  shows "uint (magnitude x) = \<bar>sint x\<bar>"
proof (cases "x <s 0")
  case True
  then have "uint x \<noteq> 0" by (auto simp: uint_0_iff)
  then have "uint (- x) = 2 ^ LENGTH('a) - uint x"
    using uint_lt2p [of x] uint_ge_0 [of x]
    by (simp add: uint_word_ariths zmod_zminus1_eq_if)
  moreover have "uint x - 2 ^ LENGTH('a) < 0"
    using uint_lt2p [of x] by linarith
  ultimately show ?thesis
    using True by (simp only: magnitude_def sint_conv if_True abs_of_neg)
qed (simp add: magnitude_def sint_conv)

lemma sgn_sint:
  fixes x :: "'a::len word"
  shows "sgn (sint x) = (if x <s 0 then - 1 else if x = 0 then 0 else 1)"
proof -
  define u :: int where "u = uint x"
  have u: "0 \<le> u" "u < 2 ^ LENGTH('a)" "u = 0 \<longleftrightarrow> x = 0"
    unfolding u_def by (simp_all add: uint_0_iff)
  then show ?thesis
    unfolding sint_conv u_def [symmetric] by (auto simp: sgn_if)
qed

lemma sdiv_magnitude:
  fixes a b :: "'a::len word"
  shows "word_of_int (sint a sdiv sint b) =
    (if (a <s 0) \<noteq> (b <s 0) then - (magnitude a div magnitude b) else magnitude a div magnitude b)"
proof -
  have m: "word_of_int (\<bar>sint a\<bar> div \<bar>sint b\<bar>) = magnitude a div magnitude b"
    by (simp add: word_div_def uint_magnitude)
  show ?thesis
    unfolding m [symmetric] by (auto simp: signed_divide_int_def sgn_sint)
qed

lemma smod_magnitude:
  fixes a b :: "'a::len word"
  shows "word_of_int (sint a smod sint b) =
    (if a <s 0 then - (magnitude a mod magnitude b) else magnitude a mod magnitude b)"
proof -
  have m: "word_of_int (\<bar>sint a\<bar> mod \<bar>sint b\<bar>) = magnitude a mod magnitude b"
    by (simp add: word_mod_def uint_magnitude)
  show ?thesis
    unfolding m [symmetric] by (auto simp: signed_modulo_int_def sgn_sint)
qed

section \<open>Restoring division\<close>

lemma unat_less_prefix:
  fixes a r :: "'a::len word"
  assumes "unat r \<le> unat a div 2 ^ Suc i"
  shows "unat r * 2 < 2 ^ LENGTH('a)"
proof -
  have "unat r * 2 \<le> unat a div 2 ^ Suc i * 2"
    using assms by simp
  also have "\<dots> \<le> unat a"
  proof -
    have "unat a div 2 ^ Suc i * 2 = unat a div 2 ^ i div 2 * 2"
      by (simp only: power_Suc2 div_mult2_eq)
    also have "\<dots> \<le> unat a div 2 ^ i"
      by (rule div_times_less_eq_dividend)
    also have "\<dots> \<le> unat a"
      by (rule div_le_dividend)
    finally show ?thesis .
  qed
  also have "\<dots> < 2 ^ LENGTH('a)"
    by (rule unsigned_less)
  finally show ?thesis .
qed

lemma unat_shift_in_bit:
  fixes a r :: "'a::len word"
  assumes "unat r \<le> unat a div 2 ^ Suc i"
  shows "unat (push_bit 1 r OR (drop_bit i a AND 1)) = 2 * unat r + unat a div 2 ^ i mod 2"
proof -
  have "unat (push_bit 1 r) = unat r * 2"
    using unat_less_prefix [OF assms] by (subst unat_push_bit_lt) simp_all
  moreover have "(unat r * 2) AND (unat a div 2 ^ i mod 2) = 0"
    by (cases "even (unat a div 2 ^ i)") (simp_all add: even_iff_mod_2_eq_zero odd_iff_mod_2_eq_one and_one_eq)
  then have "(unat r * 2) OR (unat a div 2 ^ i mod 2) = unat r * 2 + unat a div 2 ^ i mod 2"
    by (simp add: disjunctive_add_eq_or)
  ultimately show ?thesis
    by (simp only: unsigned_or_eq unat_and_1 unat_drop_bit mult.commute)
qed

lemma unat_set_bit:
  fixes q :: "'a::len word"
  assumes "2 ^ Suc i dvd unat q" "i < LENGTH('a)"
  shows "unat (q OR 2 ^ i) = unat q + 2 ^ i"
proof -
  have "\<not> bit (unat q) i"
    using assms(1) by (auto simp: bit_iff_odd elim!: dvdE)
  then have "unat q AND 2 ^ i = 0"
    by (simp add: and_exp_eq_0_iff_not_bit)
  moreover have "unat (push_bit i 1 :: 'a word) = 2 ^ i"
    using assms(2) by (subst unat_push_bit_lt) simp_all
  ultimately show ?thesis
    by (simp only: unsigned_or_eq disjunctive_add_eq_or push_bit_of_1)
qed

lemma unat_le_diff:
  fixes t b :: "'a::len word"
  shows "unat (if b \<le> t then t - b else t) = (if unat b \<le> unat t then unat t - unat b else unat t)"
  by (simp add: word_le_nat_alt unat_sub)

text \<open>The loops \<open>for (i = n - 1; i >= 0; i--)\<close> of the sources.\<close>

fun count_down :: "(nat \<Rightarrow> 's \<Rightarrow> 's) \<Rightarrow> nat \<Rightarrow> 's \<Rightarrow> 's" where
  "count_down f 0 s = s"
| "count_down f (Suc i) s = count_down f i (f i s)"

text \<open>
  The contract of one iteration: the running remainder takes in the next bit
  of the dividend, and the divisor is subtracted when it fits, which sets the
  quotient's bit.  The state is whatever the implementation keeps; the law may
  rely on the remainder never exceeding the dividend's leading bits, which is
  why no implementation needs an extra bit of room.
\<close>

locale restoring_step =
  fixes bits :: nat
    and dom :: "'n \<Rightarrow> bool"
    and num :: "'n \<Rightarrow> nat"
    and stp :: "'n \<Rightarrow> 'n \<Rightarrow> nat \<Rightarrow> 's \<Rightarrow> 's"
    and ok :: "'s \<Rightarrow> bool"
    and quo :: "'s \<Rightarrow> nat"
    and rem :: "'s \<Rightarrow> nat"
  assumes num_less: "dom a \<Longrightarrow> num a < 2 ^ bits"
    and stp_ok: "dom a \<Longrightarrow> dom b \<Longrightarrow> ok s \<Longrightarrow> i < bits \<Longrightarrow> ok (stp a b i s)"
    and stp_rem: "dom a \<Longrightarrow> dom b \<Longrightarrow> ok s \<Longrightarrow> i < bits \<Longrightarrow> rem s \<le> num a div 2 ^ Suc i \<Longrightarrow>
      rem (stp a b i s) =
        (let t = 2 * rem s + num a div 2 ^ i mod 2 in if num b \<le> t then t - num b else t)"
    and stp_quo: "dom a \<Longrightarrow> dom b \<Longrightarrow> ok s \<Longrightarrow> i < bits \<Longrightarrow> rem s \<le> num a div 2 ^ Suc i \<Longrightarrow>
      2 ^ Suc i dvd quo s \<Longrightarrow>
      quo (stp a b i s) =
        quo s + (if num b \<le> 2 * rem s + num a div 2 ^ i mod 2 then 2 ^ i else 0)"
begin

lemma prefix_step: "num a div 2 ^ i = 2 * (num a div 2 ^ Suc i) + num a div 2 ^ i mod 2"
proof -
  have "num a div 2 ^ Suc i = num a div 2 ^ i div 2"
    by (simp only: power_Suc2 div_mult2_eq)
  then show ?thesis
    by simp
qed

lemma divide_step:
  fixes X B c :: nat
  assumes "0 < B" "c < 2"
  defines "t \<equiv> 2 * (X mod B) + c"
  shows "(2 * X + c) mod B = (if B \<le> t then t - B else t)"
    and "(2 * X + c) div B = 2 * (X div B) + (if B \<le> t then 1 else 0)"
proof -
  have t: "t < 2 * B"
    using assms mod_less_divisor [of B X] unfolding t_def by linarith
  have "2 * X + c = B * (2 * (X div B)) + t"
    using arg_cong [OF mult_div_mod_eq [of B X, symmetric], of "\<lambda>x. 2 * x + c"]
    unfolding t_def by (simp only: distrib_left add.assoc mult.left_commute [of B 2])
  then have "(2 * X + c) mod B = t mod B" "(2 * X + c) div B = 2 * (X div B) + t div B"
    using assms(1) by simp_all
  with t show "(2 * X + c) mod B = (if B \<le> t then t - B else t)"
    and "(2 * X + c) div B = 2 * (X div B) + (if B \<le> t then 1 else 0)"
    by (auto simp: mod_if div_if)
qed

lemma loop_correct:
  assumes "dom a" "dom b" "0 < num b"
  shows "n \<le> bits \<Longrightarrow> ok s \<Longrightarrow> rem s = num a div 2 ^ n mod num b \<Longrightarrow>
    quo s = num a div 2 ^ n div num b * 2 ^ n \<Longrightarrow>
    ok (count_down (stp a b) n s) \<and> rem (count_down (stp a b) n s) = num a mod num b \<and>
    quo (count_down (stp a b) n s) = num a div num b"
proof (induction n arbitrary: s)
  case (Suc i)
  let ?X = "num a div 2 ^ Suc i" and ?c = "num a div 2 ^ i mod 2"
  note ds = divide_step [of "num b" ?c ?X]
  have small: "rem s \<le> ?X" and dvd: "2 ^ Suc i dvd quo s"
    using Suc.prems by simp_all
  have "rem (stp a b i s) = num a div 2 ^ i mod num b"
    using stp_rem [of a b s i] ds(1) Suc.prems small assms
    by (subst prefix_step) (simp add: Let_def)
  moreover have "quo (stp a b i s) = num a div 2 ^ i div num b * 2 ^ i"
    using stp_quo [of a b s i] ds(2) Suc.prems small dvd assms
    by (subst prefix_step) (simp add: algebra_simps)
  ultimately show ?case
    using Suc.IH Suc.prems stp_ok assms by simp
qed simp

lemma loop_by_zero:
  assumes "dom a" "dom b" "num b = 0"
  shows "n \<le> bits \<Longrightarrow> ok s \<Longrightarrow> rem s = num a div 2 ^ n \<Longrightarrow> 2 ^ n dvd quo s \<Longrightarrow>
    ok (count_down (stp a b) n s) \<and> rem (count_down (stp a b) n s) = num a \<and>
    quo (count_down (stp a b) n s) = quo s + 2 ^ n - 1"
proof (induction n arbitrary: s)
  case (Suc i)
  have "rem (stp a b i s) = num a div 2 ^ i" "quo (stp a b i s) = quo s + 2 ^ i"
    using stp_rem [of a b s i] stp_quo [of a b s i] Suc.prems assms prefix_step [of a i]
    by (simp_all add: Let_def)
  moreover have "2 ^ i dvd quo s + 2 ^ i"
    using Suc.prems(4) by (metis dvd_add dvd_refl dvd_trans le_imp_power_dvd lessI less_imp_le)
  ultimately show ?case
    using Suc.IH [of "stp a b i s"] Suc.prems stp_ok assms by simp
qed simp

lemma divides:
  assumes "dom a" "dom b" "0 < num b" "ok s" "rem s = 0" "quo s = 0"
  shows "rem (count_down (stp a b) bits s) = num a mod num b"
    and "quo (count_down (stp a b) bits s) = num a div num b"
  using loop_correct [of a b bits s] assms num_less [of a] by simp_all

lemma divides_by_zero:
  assumes "dom a" "dom b" "num b = 0" "ok s" "rem s = 0" "quo s = 0"
  shows "rem (count_down (stp a b) bits s) = num a"
    and "quo (count_down (stp a b) bits s) = 2 ^ bits - 1"
  using loop_by_zero [of a b bits s] assms num_less [of a] by simp_all

end

end
