(* ===== verification/W128.thy ===== *)
theory W128
  imports Limbs
begin

text \<open>
  The 128-bit integers the front end folds constants with
  (\<^verbatim>\<open>src/sema/w128.c\<close>): two eightbytes and plain 64-bit arithmetic on them.
  The abstraction of a pair is the 128-bit word it denotes; every operation is
  shown to be the operation of that name on 128-bit words, the two division
  routines included.
\<close>

section \<open>Operations\<close>

record w128 =
  w_lo :: u64
  w_hi :: u64

definition w_make :: "u64 \<Rightarrow> u64 \<Rightarrow> w128" where
  "w_make lo hi = \<lparr>w_lo = lo, w_hi = hi\<rparr>"

definition w_from :: "u64 \<Rightarrow> bool \<Rightarrow> w128" where
  "w_from v sign = w_make v (if sign \<and> v <s 0 then NOT 0 else 0)"

definition w_add :: "w128 \<Rightarrow> w128 \<Rightarrow> w128" where
  "w_add a b =
    (let lo = w_lo a + w_lo b
     in w_make lo (w_hi a + w_hi b + (if lo < w_lo a then 1 else 0)))"

definition w_neg :: "w128 \<Rightarrow> w128" where
  "w_neg a = w_add (w_make (NOT (w_lo a)) (NOT (w_hi a))) (w_make 1 0)"

definition w_mul :: "w128 \<Rightarrow> w128 \<Rightarrow> w128" where
  "w_mul a b =
    (let a0 = w_lo a AND 0xffffffff; a1 = drop_bit 32 (w_lo a);
         b0 = w_lo b AND 0xffffffff; b1 = drop_bit 32 (w_lo b);
         p00 = a0 * b0; p01 = a0 * b1; p10 = a1 * b0; p11 = a1 * b1;
         mid = drop_bit 32 p00 + (p01 AND 0xffffffff) + (p10 AND 0xffffffff)
     in \<lparr>w_lo = (p00 AND 0xffffffff) OR push_bit 32 mid,
         w_hi = p11 + drop_bit 32 p01 + drop_bit 32 p10 + drop_bit 32 mid +
                w_lo a * w_hi b + w_hi a * w_lo b\<rparr>)"

definition w_shl :: "w128 \<Rightarrow> int \<Rightarrow> w128" where
  "w_shl a c =
    (let n = nat (c AND 127)
     in if n = 0 then a
        else if n \<ge> 64 then w_make 0 (push_bit (n - 64) (w_lo a))
        else w_make (push_bit n (w_lo a)) (push_bit n (w_hi a) OR drop_bit (64 - n) (w_lo a)))"

definition w_shr :: "w128 \<Rightarrow> int \<Rightarrow> bool \<Rightarrow> w128" where
  "w_shr a c arith =
    (let n = nat (c AND 127);
         fill = (if arith \<and> w_hi a <s 0 then NOT 0 else 0)
     in if n = 0 then a
        else if n \<ge> 64 then
          w_make (if n = 64 then w_hi a else drop_bit (n - 64) (w_hi a) OR push_bit (128 - n) fill) fill
        else w_make (drop_bit n (w_lo a) OR push_bit (64 - n) (w_hi a))
               (drop_bit n (w_hi a) OR push_bit (64 - n) fill))"

definition w_ult :: "w128 \<Rightarrow> w128 \<Rightarrow> bool" where
  "w_ult a b = (if w_hi a \<noteq> w_hi b then w_hi a < w_hi b else w_lo a < w_lo b)"

definition w_slt :: "w128 \<Rightarrow> w128 \<Rightarrow> bool" where
  "w_slt a b = (if w_hi a \<noteq> w_hi b then w_hi a <s w_hi b else w_lo a < w_lo b)"

definition w_udivmod_step :: "w128 \<Rightarrow> w128 \<Rightarrow> nat \<Rightarrow> w128 \<times> w128 \<Rightarrow> w128 \<times> w128" where
  "w_udivmod_step a b i = (\<lambda>(quo, rem0).
    (let rem1 = w_shl rem0 1;
         rem = rem1\<lparr>w_lo := w_lo rem1 OR
           ((if i \<ge> 64 then drop_bit (i - 64) (w_hi a) else drop_bit i (w_lo a)) AND 1)\<rparr>
     in if \<not> w_ult rem b then
          (if i \<ge> 64 then quo\<lparr>w_hi := w_hi quo OR push_bit (i - 64) 1\<rparr>
           else quo\<lparr>w_lo := w_lo quo OR push_bit i 1\<rparr>,
           w_add rem (w_neg b))
        else (quo, rem)))"

definition w_udivmod :: "w128 \<Rightarrow> w128 \<Rightarrow> w128 \<times> w128" where
  "w_udivmod a b = count_down (w_udivmod_step a b) 128 (w_make 0 0, w_make 0 0)"

definition w_div :: "w128 \<Rightarrow> w128 \<Rightarrow> bool \<Rightarrow> bool \<Rightarrow> w128 option" where
  "w_div a b sign is_mod =
    (if w_lo b = 0 \<and> w_hi b = 0 then None
     else
       (let na = (sign \<and> w_hi a <s 0); nb = (sign \<and> w_hi b <s 0);
            (q, r) = w_udivmod (if na then w_neg a else a) (if nb then w_neg b else b)
        in if \<not> is_mod then Some (if na \<noteq> nb then w_neg q else q)
           else Some (if na then w_neg r else r)))"

section \<open>The value a pair denotes\<close>

definition w_val :: "w128 \<Rightarrow> u128" where
  "w_val a = join64 (w_hi a) (w_lo a)"

lemma w_val_make [simp]: "w_val (w_make lo hi) = join64 hi lo"
  by (simp add: w_val_def w_make_def)

lemma w_val_inject: "w_val a = w_val b \<longleftrightarrow> a = b"
  by (cases a, cases b) (auto simp: w_val_def join64_facts)

lemma w_val_add: "w_val (w_add a b) = w_val a + w_val b"
  by (simp add: w_add_def w_val_def w_make_def Let_def join64_add)

lemma w_val_neg: "w_val (w_neg a) = - w_val a"
  by (simp add: w_neg_def w_val_add minus_eq_not_plus_1 join64_not w_val_def [of a] join_one)

lemma w_val_shl: "w_val (w_shl a n) = push_bit (nat (n mod 128)) (w_val a)"
proof -
  have "n AND 127 = n mod 128"
    using and_exp_eq_0_iff_not_bit take_bit_eq_mask [of 7 n] by (simp add: take_bit_eq_mod mask_eq_exp_minus_1)
  moreover have "n mod 128 < 128" by simp
  ultimately show ?thesis
    by (auto simp: w_shl_def Let_def w_val_def w_make_def join64_shifts)
qed

lemma w_val_ult: "w_ult a b \<longleftrightarrow> w_val a < w_val b"
  by (simp add: w_ult_def w_val_def join64_order)

lemma w_val_slt: "w_slt a b \<longleftrightarrow> w_val a <s w_val b"
  by (simp add: w_slt_def w_val_def join64_order)

lemma w_val_mul: "w_val (w_mul a b) = w_val a * w_val b"
  unfolding w_mul_def Let_def w_val_def w128.simps mul64_halves join64_mult
  by (simp add: ac_simps)

lemma w_val_shr:
  "w_val (w_shr a n arith) =
    (if arith then signed_drop_bit (nat (n mod 128)) (w_val a) else drop_bit (nat (n mod 128)) (w_val a))"
proof -
  have n: "n AND 127 = n mod 128"
    using take_bit_eq_mask [of 7 n] by (simp add: take_bit_eq_mod mask_eq_exp_minus_1)
  have "n mod 128 < 128" by simp
  then show ?thesis
    unfolding w_shr_def n Let_def
    by (auto simp: w_val_def w_make_def join64_shifts signed_drop_bit_fill [where 'a = 64] not_less)
qed

lemma w_val_or_lo: "w_val (a\<lparr>w_lo := w_lo a OR x\<rparr>) = w_val a OR join64 0 x"
  by (rule bit_word_eqI) (auto simp: w_val_def bit_simps)

lemma w_val_or_hi: "w_val (a\<lparr>w_hi := w_hi a OR x\<rparr>) = w_val a OR join64 x 0"
  by (rule bit_word_eqI) (auto simp: w_val_def bit_simps)

lemma dividend_bit:
  assumes "i < 128"
  shows "join64 0 ((if i \<ge> 64 then drop_bit (i - 64) (w_hi a) else drop_bit i (w_lo a)) AND 1) =
    drop_bit i (w_val a) AND 1"
  using assms by (intro bit_word_eqI) (auto simp: w_val_def bit_simps bit_1_iff)

lemma quotient_bit:
  assumes "i < 128"
  shows "(if i \<ge> 64 then join64 (push_bit (i - 64) 1) 0 else join64 0 (push_bit i 1)) = 2 ^ i"
  using assms by (intro bit_word_eqI) (auto simp: bit_simps bit_1_iff)

lemma w_udivmod_step_val:
  fixes a b q r :: w128
  assumes "i < 128"
  defines "t \<equiv> push_bit 1 (w_val r) OR (drop_bit i (w_val a) AND 1)"
  shows "w_val (snd (w_udivmod_step a b i (q, r))) = (if w_val b \<le> t then t - w_val b else t)"
    and "w_val (fst (w_udivmod_step a b i (q, r))) = (if w_val b \<le> t then w_val q OR 2 ^ i else w_val q)"
proof -
  have t: "w_val ((w_shl r 1)\<lparr>w_lo := w_lo (w_shl r 1) OR
      ((if i \<ge> 64 then drop_bit (i - 64) (w_hi a) else drop_bit i (w_lo a)) AND 1)\<rparr>) = t"
    unfolding w_val_or_lo dividend_bit [OF assms(1)] t_def by (simp add: w_val_shl)
  show "w_val (snd (w_udivmod_step a b i (q, r))) = (if w_val b \<le> t then t - w_val b else t)"
    using t by (simp add: w_udivmod_step_def Let_def w_val_ult w_val_add w_val_neg not_less)
  show "w_val (fst (w_udivmod_step a b i (q, r))) = (if w_val b \<le> t then w_val q OR 2 ^ i else w_val q)"
    using t quotient_bit [OF assms(1)]
    by (auto simp: w_udivmod_step_def Let_def w_val_ult w_val_or_lo w_val_or_hi not_less split: if_splits)
qed

interpretation w_division: restoring_step 128 "\<lambda>_. True" "\<lambda>a. unat (w_val a)" w_udivmod_step "\<lambda>_. True"
  "\<lambda>s. unat (w_val (fst s))" "\<lambda>s. unat (w_val (snd s))"
proof
  fix a b :: w128 and s :: "w128 \<times> w128" and i :: nat
  assume i: "i < 128" and small: "unat (w_val (snd s)) \<le> unat (w_val a) div 2 ^ Suc i"
  obtain q r where s: "s = (q, r)" by fastforce
  note t = unat_shift_in_bit [OF small [unfolded s snd_conv]]
  show "unat (w_val (snd (w_udivmod_step a b i s))) =
      (let t = 2 * unat (w_val (snd s)) + unat (w_val a) div 2 ^ i mod 2
       in if unat (w_val b) \<le> t then t - unat (w_val b) else t)"
    unfolding s w_udivmod_step_val [OF i] unat_le_diff t Let_def by simp
  assume "2 ^ Suc i dvd unat (w_val (fst s))"
  then show "unat (w_val (fst (w_udivmod_step a b i s))) = unat (w_val (fst s)) +
      (if unat (w_val b) \<le> 2 * unat (w_val (snd s)) + unat (w_val a) div 2 ^ i mod 2 then 2 ^ i else 0)"
    unfolding s w_udivmod_step_val [OF i] word_le_nat_alt t using i by (simp add: unat_set_bit)
next
  fix a :: w128
  show "unat (w_val a) < 2 ^ 128"
    using unsigned_less [of "w_val a", where 'a = nat] by simp
qed simp

lemma w_udivmod_val:
  assumes "w_val b \<noteq> 0"
  shows "w_val (fst (w_udivmod a b)) = w_val a div w_val b"
    and "w_val (snd (w_udivmod a b)) = w_val a mod w_val b"
proof -
  have "0 < unat (w_val b)"
    using assms by (simp add: unat_gt_0)
  then show "w_val (fst (w_udivmod a b)) = w_val a div w_val b"
    and "w_val (snd (w_udivmod a b)) = w_val a mod w_val b"
    using w_division.divides [of b "(w_make 0 0, w_make 0 0)" a]
    unfolding w_udivmod_def word_unat_eq_iff unat_div unat_mod by simp_all
qed

lemma w_val_0_iff: "w_val b = 0 \<longleftrightarrow> w_lo b = 0 \<and> w_hi b = 0"
  using join64_facts(2) [of "w_hi b" "w_lo b" 0 0] by (auto simp: w_val_def)

lemma w_neg_iff: "w_hi a <s 0 \<longleftrightarrow> w_val a <s 0"
  by (simp add: w_val_def join64_facts(3))

lemma w_val_magnitude: "w_val (if w_hi a <s 0 then w_neg a else a) = magnitude (w_val a)"
  by (simp add: magnitude_def w_neg_iff w_val_neg)

section \<open>Properties\<close>

text \<open>C7: on the 128-bit words that pairs denote, \<open>w_add\<close>, \<open>w_neg\<close> and \<open>w_mul\<close> are
  addition, negation and multiplication, \<open>w_shl\<close> and \<open>w_shr\<close> are the shifts by the
  count modulo 128 (arithmetic or logical), and \<open>w_ult\<close> and \<open>w_slt\<close> are the unsigned and
  the signed order.\<close>

theorem w_ops_refine:
  "w_val (w_add a b) = w_val a + w_val b \<and>
   w_val (w_neg a) = - w_val a \<and>
   w_val (w_mul a b) = w_val a * w_val b \<and>
   w_val (w_shl a n) = push_bit (nat (n mod 128)) (w_val a) \<and>
   w_val (w_shr a n False) = drop_bit (nat (n mod 128)) (w_val a) \<and>
   w_val (w_shr a n True) = signed_drop_bit (nat (n mod 128)) (w_val a) \<and>
   w_ult a b = (w_val a < w_val b) \<and>
   w_slt a b = (w_val a <s w_val b)"
  by (simp add: w_val_add w_val_neg w_val_mul w_val_shl w_val_shr w_val_ult w_val_slt)

text \<open>C6: \<open>w_div\<close> fails exactly for a zero divisor; otherwise it returns C's quotient or
  remainder of the operands read as unsigned or as signed 128-bit integers, truncated
  toward zero, the one overflowing quotient wrapped to 128 bits.\<close>

theorem w_div_refines:
  "map_option w_val (w_div a b sign is_mod) =
    (if w_val b = 0 then None
     else Some (if sign
       then (if is_mod then word_of_int (sint (w_val a) smod sint (w_val b))
             else word_of_int (sint (w_val a) sdiv sint (w_val b)))
       else (if is_mod then w_val a mod w_val b else w_val a div w_val b)))"
proof (cases "w_val b = 0")
  case False
  let ?ma = "if w_hi a <s 0 then w_neg a else a" and ?mb = "if w_hi b <s 0 then w_neg b else b"
  have nz: "w_val ?mb \<noteq> 0"
    using False by (simp add: w_val_neg)
  show ?thesis
  proof (cases sign)
    case True
    show ?thesis
      using False True w_udivmod_val [OF nz, of ?ma] unfolding w_val_magnitude sdiv_magnitude smod_magnitude
      by (auto simp: w_div_def w_val_0_iff w_neg_iff w_val_neg Let_def case_prod_beta)
  next
    case False
    with \<open>w_val b \<noteq> 0\<close> show ?thesis
      using w_udivmod_val [of b a] by (simp add: w_div_def w_val_0_iff Let_def case_prod_beta)
  qed
qed (simp add: w_div_def w_val_0_iff)

end
