(* ===== verification/Rt_Int.thy ===== *)
theory Rt_Int
  imports Limbs
begin

text \<open>
  The integer helpers of the compiler's runtime library: 64-bit arithmetic for
  32-bit machines (\<^verbatim>\<open>lib/rt/int64.c\<close>) and 128-bit arithmetic for 64-bit ones
  (\<^verbatim>\<open>lib/rt/int128.c\<close>, with the union and \<open>rt_mul64\<close> of \<^verbatim>\<open>lib/rt/rt.h\<close>).  The
  leading underscores of the names are dropped.  Signed values are words read by
  \<open>sint\<close>; negation wraps, as the compiler that builds the library makes it.
\<close>

section \<open>64-bit division on 32-bit machines\<close>

definition udivmod64_step :: "u64 \<Rightarrow> u64 \<Rightarrow> nat \<Rightarrow> u64 \<times> u64 \<Rightarrow> u64 \<times> u64" where
  "udivmod64_step a b i = (\<lambda>(q, r0).
    (let r = push_bit 1 r0 OR (drop_bit i a AND 1)
     in if r \<ge> b then (q OR push_bit i 1, r - b) else (q, r)))"

definition udivmod64 :: "u64 \<Rightarrow> u64 \<Rightarrow> u64 \<times> u64" where
  "udivmod64 a b = (if b = 0 then (0, 0) else count_down (udivmod64_step a b) 64 (0, 0))"

definition udivdi3 :: "u64 \<Rightarrow> u64 \<Rightarrow> u64" where
  "udivdi3 a b = fst (udivmod64 a b)"

definition umoddi3 :: "u64 \<Rightarrow> u64 \<Rightarrow> u64" where
  "umoddi3 a b = snd (udivmod64 a b)"

definition divdi3 :: "u64 \<Rightarrow> u64 \<Rightarrow> u64" where
  "divdi3 a0 b0 =
    (let (a, neg1) = (if a0 <s 0 then (- a0, True) else (a0, False));
         (b, neg) = (if b0 <s 0 then (- b0, \<not> neg1) else (b0, neg1));
         q = fst (udivmod64 a b)
     in if neg then - q else q)"

definition moddi3 :: "u64 \<Rightarrow> u64 \<Rightarrow> u64" where
  "moddi3 a0 b0 =
    (let (a, neg) = (if a0 <s 0 then (- a0, True) else (a0, False));
         b = (if b0 <s 0 then - b0 else b0);
         r = snd (udivmod64 a b)
     in if neg then - r else r)"

section \<open>64-bit products and shifts from 32-bit operations\<close>

definition umulsidi3 :: "u32 \<Rightarrow> u32 \<Rightarrow> u64" where
  "umulsidi3 a b =
    (let a0 = a AND 0xffff; a1 = drop_bit 16 a; b0 = b AND 0xffff; b1 = drop_bit 16 b;
         p00 = a0 * b0; p01 = a0 * b1; p10 = a1 * b0; p11 = a1 * b1;
         mid = drop_bit 16 p00 + (p01 AND 0xffff) + (p10 AND 0xffff);
         lo = (p00 AND 0xffff) OR push_bit 16 mid;
         hi = p11 + drop_bit 16 p01 + drop_bit 16 p10 + drop_bit 16 mid
     in join32 hi lo)"

definition muldi3_xtensa :: "u64 \<Rightarrow> u64 \<Rightarrow> u64" where
  "muldi3_xtensa a b =
    (let al = ucast a; ah = ucast (drop_bit 32 a); bl = ucast b; bh = ucast (drop_bit 32 b);
         p = umulsidi3 al bl
     in p + push_bit 32 (ucast (al * bh + ah * bl :: u32)))"

definition ashldi3 :: "u64 \<Rightarrow> int \<Rightarrow> u64" where
  "ashldi3 a b0 =
    (let hi = ucast (drop_bit 32 a) :: u32; lo = ucast a :: u32; b = nat (b0 AND 63)
     in if b = 0 then a
        else
          (let (hi', lo') =
             (if b \<ge> 32 then (push_bit (b - 32) lo, 0)
              else (push_bit b hi OR drop_bit (32 - b) lo, push_bit b lo))
           in join32 hi' lo'))"

definition lshrdi3 :: "u64 \<Rightarrow> int \<Rightarrow> u64" where
  "lshrdi3 a b0 =
    (let hi = ucast (drop_bit 32 a) :: u32; lo = ucast a :: u32; b = nat (b0 AND 63)
     in if b = 0 then a
        else
          (let (hi', lo') =
             (if b \<ge> 32 then (0, drop_bit (b - 32) hi)
              else (drop_bit b hi, drop_bit b lo OR push_bit (32 - b) hi))
           in join32 hi' lo'))"

definition ashrdi3 :: "u64 \<Rightarrow> int \<Rightarrow> u64" where
  "ashrdi3 a b0 =
    (let hi = ucast (drop_bit 32 a) :: u32; lo = ucast a :: u32; b = nat (b0 AND 63)
     in if b = 0 then a
        else
          (let (hi', lo') =
             (if b \<ge> 32 then (if hi <s 0 then - 1 else 0, signed_drop_bit (b - 32) hi)
              else (signed_drop_bit b hi, drop_bit b lo OR push_bit (32 - b) hi))
           in join32 hi' lo'))"

definition muldi3_coldfire :: "u64 \<Rightarrow> u64 \<Rightarrow> u64" where
  "muldi3_coldfire a b =
    (let al = ucast a :: u32; ah = ucast (drop_bit 32 a) :: u32;
         bl = ucast b :: u32; bh = ucast (drop_bit 32 b) :: u32;
         a0 = al AND 0xffff; a1 = drop_bit 16 al; b0 = bl AND 0xffff; b1 = drop_bit 16 bl;
         p00 = a0 * b0; p01 = a0 * b1; p10 = a1 * b0; p11 = a1 * b1;
         mid = drop_bit 16 p00 + (p01 AND 0xffff) + (p10 AND 0xffff);
         hi1 = p11 + drop_bit 16 p01 + drop_bit 16 p10 + drop_bit 16 mid;
         lo = push_bit 16 mid OR (p00 AND 0xffff);
         hi = hi1 + (al * bh + ah * bl)
     in join32 hi lo)"

section \<open>128-bit arithmetic on 64-bit halves\<close>

definition mk :: "u64 \<Rightarrow> u64 \<Rightarrow> u128" where
  "mk hi lo = join64 hi lo"

definition hi64 :: "u128 \<Rightarrow> u64" where
  "hi64 x = ucast (drop_bit 64 x)"

definition lo64 :: "u128 \<Rightarrow> u64" where
  "lo64 x = ucast x"

text \<open>\<open>rt_mul64\<close> returns the high half and stores the low one: the pair is (high, low).\<close>

definition rt_mul64 :: "u64 \<Rightarrow> u64 \<Rightarrow> u64 \<times> u64" where
  "rt_mul64 a b =
    (let al = a AND 0xFFFFFFFF; ah = drop_bit 32 a; bl = b AND 0xFFFFFFFF; bh = drop_bit 32 b;
         ll = al * bl; lh = al * bh; hl = ah * bl; hh = ah * bh;
         mid = drop_bit 32 ll + (lh AND 0xFFFFFFFF) + (hl AND 0xFFFFFFFF)
     in (hh + drop_bit 32 lh + drop_bit 32 hl + drop_bit 32 mid,
         (ll AND 0xFFFFFFFF) OR push_bit 32 mid))"

definition multi3 :: "u128 \<Rightarrow> u128 \<Rightarrow> u128" where
  "multi3 a b =
    (let al = lo64 a; ah = hi64 a; bl = lo64 b; bh = hi64 b;
         (hi, lo) = rt_mul64 al bl
     in mk (hi + (ah * bl + al * bh)) lo)"

text \<open>The shift counts are an \<open>int\<close> from 0 to 127; outside that range the sources'
  shifts are undefined in C.\<close>

definition ashlti3 :: "u128 \<Rightarrow> nat \<Rightarrow> u128" where
  "ashlti3 a n =
    (let lo = lo64 a; hi = hi64 a
     in if n = 0 then a
        else if n \<ge> 64 then mk (push_bit (n - 64) lo) 0
        else mk (push_bit n hi OR drop_bit (64 - n) lo) (push_bit n lo))"

definition lshrti3 :: "u128 \<Rightarrow> nat \<Rightarrow> u128" where
  "lshrti3 a n =
    (let lo = lo64 a; hi = hi64 a
     in if n = 0 then a
        else if n \<ge> 64 then mk 0 (drop_bit (n - 64) hi)
        else mk (drop_bit n hi) (drop_bit n lo OR push_bit (64 - n) hi))"

definition ashrti3 :: "u128 \<Rightarrow> nat \<Rightarrow> u128" where
  "ashrti3 a n =
    (let lo = lo64 a; hi = hi64 a
     in if n = 0 then a
        else if n \<ge> 64 then mk (signed_drop_bit 63 hi) (signed_drop_bit (n - 64) hi)
        else mk (signed_drop_bit n hi) (drop_bit n lo OR push_bit (64 - n) hi))"

record div_state =
  rlo :: u64
  rhi :: u64
  qlo :: u64
  qhi :: u64

definition udivmod_step :: "u128 \<Rightarrow> u128 \<Rightarrow> nat \<Rightarrow> div_state \<Rightarrow> div_state" where
  "udivmod_step a b i s =
    (let alo = lo64 a; ahi = hi64 a; blo = lo64 b; bhi = hi64 b;
         rh = push_bit 1 (rhi s) OR drop_bit 63 (rlo s);
         rl0 = push_bit 1 (rlo s);
         rl = rl0 OR ((if i \<ge> 64 then drop_bit (i - 64) ahi else drop_bit i alo) AND 1)
     in if rh > bhi \<or> (rh = bhi \<and> rl \<ge> blo) then
          (let borrow = (if rl < blo then 1 else 0);
               s' = s\<lparr>rlo := rl - blo, rhi := rh - (bhi + borrow)\<rparr>
           in if i \<ge> 64 then s'\<lparr>qhi := qhi s OR push_bit (i - 64) 1\<rparr>
              else s'\<lparr>qlo := qlo s OR push_bit i 1\<rparr>)
        else s\<lparr>rlo := rl, rhi := rh\<rparr>)"

definition udivmod :: "u128 \<Rightarrow> u128 \<Rightarrow> u128 \<times> u128" where
  "udivmod a b =
    (let s = count_down (udivmod_step a b) 128 \<lparr>rlo = 0, rhi = 0, qlo = 0, qhi = 0\<rparr>
     in (mk (qhi s) (qlo s), mk (rhi s) (rlo s)))"

definition udivti3 :: "u128 \<Rightarrow> u128 \<Rightarrow> u128" where
  "udivti3 a b = fst (udivmod a b)"

definition umodti3 :: "u128 \<Rightarrow> u128 \<Rightarrow> u128" where
  "umodti3 a b = snd (udivmod a b)"

definition neg128 :: "u128 \<Rightarrow> u128" where
  "neg128 x =
    (let lo = lo64 x; hi = hi64 x; nlo = NOT lo + 1; nhi = NOT hi + (if nlo = 0 then 1 else 0)
     in mk nhi nlo)"

definition is_neg :: "u128 \<Rightarrow> bool" where
  "is_neg x \<longleftrightarrow> drop_bit 63 (hi64 x) \<noteq> 0"

definition divti3 :: "u128 \<Rightarrow> u128 \<Rightarrow> u128" where
  "divti3 a b =
    (let neg = (is_neg a \<noteq> is_neg b);
         wa = (if is_neg a then neg128 a else a);
         wb = (if is_neg b then neg128 b else b);
         q = fst (udivmod wa wb)
     in if neg then neg128 q else q)"

definition modti3 :: "u128 \<Rightarrow> u128 \<Rightarrow> u128" where
  "modti3 a b =
    (let neg = is_neg a;
         wa = (if is_neg a then neg128 a else a);
         wb = (if is_neg b then neg128 b else b);
         r = snd (udivmod wa wb)
     in if neg then neg128 r else r)"

definition negti2 :: "u128 \<Rightarrow> u128" where
  "negti2 a = neg128 a"

section \<open>Correctness of the 64-bit routines\<close>

interpretation division64: restoring_step 64 "\<lambda>_. True" unat udivmod64_step "\<lambda>_. True"
  "\<lambda>s. unat (fst s)" "\<lambda>s. unat (snd s)"
proof
  fix a b :: u64 and s :: "u64 \<times> u64" and i :: nat
  assume i: "i < 64" and small: "unat (snd s) \<le> unat a div 2 ^ Suc i"
  obtain q r where s: "s = (q, r)" by fastforce
  note t = unat_shift_in_bit [OF small [unfolded s snd_conv]]
  define t' where "t' = push_bit 1 r OR (drop_bit i a AND 1)"
  have step: "udivmod64_step a b i (q, r) =
      (if b \<le> t' then q OR 2 ^ i else q, if b \<le> t' then t' - b else t')"
    by (simp add: udivmod64_step_def Let_def t'_def)
  have u: "unat t' = 2 * unat r + unat a div 2 ^ i mod 2"
    unfolding t'_def by (rule t)
  show "unat (snd (udivmod64_step a b i s)) =
      (let t = 2 * unat (snd s) + unat a div 2 ^ i mod 2 in if unat b \<le> t then t - unat b else t)"
    unfolding s step snd_conv unat_le_diff u Let_def by simp
  assume "2 ^ Suc i dvd unat (fst s)"
  then show "unat (fst (udivmod64_step a b i s)) = unat (fst s) +
      (if unat b \<le> 2 * unat (snd s) + unat a div 2 ^ i mod 2 then 2 ^ i else 0)"
    unfolding s step word_le_nat_alt u using i by (simp add: unat_set_bit)
next
  fix a :: u64
  show "unat a < 2 ^ 64"
    using unsigned_less [of a, where 'a = nat] by simp
qed simp

lemma udivmod64_eq: "udivmod64 a b = (if b = 0 then (0, 0) else (a div b, a mod b))"
proof (cases "b = 0")
  case False
  then have "0 < unat b" by (simp add: unat_gt_0)
  with False show ?thesis
    using division64.divides [of b "(0, 0)" a]
    unfolding udivmod64_def by (simp add: prod_eq_iff word_unat_eq_iff unat_div unat_mod)
qed (simp add: udivmod64_def)

lemma divdi3_eq: "divdi3 a b = word_of_int (sint a sdiv sint b)"
  unfolding sdiv_magnitude
  by (auto simp: divdi3_def Let_def udivmod64_eq magnitude_def)

lemma moddi3_eq: "b \<noteq> 0 \<Longrightarrow> moddi3 a b = word_of_int (sint a smod sint b)"
  unfolding smod_magnitude
  by (auto simp: moddi3_def Let_def udivmod64_eq magnitude_def)

lemma moddi3_zero: "moddi3 a 0 = 0"
  by (simp add: moddi3_def udivmod64_eq)

text \<open>Products and shifts.\<close>

lemma umulsidi3_join: "umulsidi3 a b = join32 (of_nat (unat a * unat b div 2 ^ 32)) (a * b)"
  unfolding umulsidi3_def Let_def mul32_halves by simp

lemma join32_add_high: "join32 h l + push_bit 32 (ucast c) = join32 (h + c) l"
  using join32_add [of h l c 0] by (simp add: join_def)

lemma muldi3_xtensa_eq: "muldi3_xtensa a b = a * b"
proof -
  have "muldi3_xtensa a b =
      join32 (ucast (drop_bit 32 a)) (ucast a) * join32 (ucast (drop_bit 32 b)) (ucast b)"
    unfolding muldi3_xtensa_def Let_def umulsidi3_join join32_add_high join32_mult by (simp add: ac_simps)
  then show ?thesis
    by (simp add: join32_split)
qed

lemma muldi3_coldfire_eq: "muldi3_coldfire a b = muldi3_xtensa a b"
  unfolding muldi3_coldfire_def muldi3_xtensa_def umulsidi3_def Let_def join32_add_high
  by (simp add: or.commute [of "push_bit 16 _"])

lemma shift_count_63: "n AND 63 = n mod (64 :: int)" "n mod 64 < (64 :: int)"
  using take_bit_eq_mask [of 6 n] by (simp_all add: take_bit_eq_mod mask_eq_exp_minus_1)

lemma shifts64_eq:
  shows "ashldi3 a n = push_bit (nat (n mod 64)) a"
    and "lshrdi3 a n = drop_bit (nat (n mod 64)) a"
    and "ashrdi3 a n = signed_drop_bit (nat (n mod 64)) a"
proof -
  have "nat (n mod 64) < 64" using shift_count_63(2) [of n] by simp
  then show "ashldi3 a n = push_bit (nat (n mod 64)) a"
    "lshrdi3 a n = drop_bit (nat (n mod 64)) a" "ashrdi3 a n = signed_drop_bit (nat (n mod 64)) a"
    unfolding ashldi3_def lshrdi3_def ashrdi3_def shift_count_63 Let_def
    using join32_shifts [of "nat (n mod 64)" "ucast (drop_bit 32 a)" "ucast a", unfolded join32_split]
    by auto
qed

section \<open>Correctness of the 128-bit routines\<close>

lemma mk_split [simp]: "mk (hi64 x) (lo64 x) = x"
  by (simp add: mk_def hi64_def lo64_def join64_split)

lemma hi_lo_mk [simp]: "hi64 (mk h l) = h" "lo64 (mk h l) = l"
  using mk_split [of "mk h l"] by (auto simp: mk_def join64_facts)

lemma u128_mk_cases: obtains h l where "x = mk h l" "h = hi64 x" "l = lo64 x"
  using mk_split [of x] by metis

lemma multi3_eq: "multi3 a b = a * b"
proof -
  have "multi3 a b = mk (hi64 a) (lo64 a) * mk (hi64 b) (lo64 b)"
    unfolding mk_def join64_mult unfolding multi3_def rt_mul64_def Let_def mul64_halves mk_def
    by (simp add: ac_simps)
  then show ?thesis by simp
qed

lemma shifts128_eq:
  assumes "n < 128"
  shows "ashlti3 a n = push_bit n a" "lshrti3 a n = drop_bit n a" "ashrti3 a n = signed_drop_bit n a"
proof -
  have s: "signed_drop_bit 63 h = (if h <s 0 then - 1 else 0)" for h :: u64
    by (rule bit_word_eqI) (auto simp: bit_simps sless_iff_msb min_def not_less_eq_eq)
  show "ashlti3 a n = push_bit n a" "lshrti3 a n = drop_bit n a" "ashrti3 a n = signed_drop_bit n a"
    using assms join64_shifts [of n "hi64 a" "lo64 a", folded mk_def, unfolded mk_split]
    unfolding ashlti3_def lshrti3_def ashrti3_def Let_def s by auto
qed

lemma neg128_eq: "neg128 x = - x"
proof -
  have "y + 1 < y \<longleftrightarrow> y + 1 = 0" for y :: u64
  proof (cases "y + 1 = 0")
    case True
    then have "y \<noteq> 0" by auto
    with True show ?thesis by (simp add: word_gt_0)
  next
    case False
    then have "unat (1 + y) = Suc (unat y)" by (intro unatSuc) (simp add: add.commute)
    with False show ?thesis by (simp add: word_less_nat_alt add.commute)
  qed
  then have "neg128 x = NOT (mk (hi64 x) (lo64 x)) + 1"
    using join64_add [of "NOT (hi64 x)" "NOT (lo64 x)" 0 1]
    by (simp add: neg128_def mk_def Let_def join64_not join_one)
  then show ?thesis
    by (simp add: minus_eq_not_plus_1)
qed

lemma is_neg_eq: "is_neg x \<longleftrightarrow> x <s 0"
proof -
  have "is_neg x \<longleftrightarrow> hi64 x <s 0"
    using drop_bit_eq_zero_iff_not_bit_last [of "hi64 x"] unfolding is_neg_def sless_iff_msb by simp
  then show ?thesis
    using join64_facts(3) [of "hi64 x" "lo64 x", folded mk_def] by simp
qed

lemma udivmod_step_halves:
  fixes a b :: u128 and s :: div_state
  assumes "i < 128"
  defines "t \<equiv> push_bit 1 (mk (rhi s) (rlo s)) OR (drop_bit i a AND 1)"
  shows "mk (rhi (udivmod_step a b i s)) (rlo (udivmod_step a b i s)) = (if b \<le> t then t - b else t)"
    and "mk (qhi (udivmod_step a b i s)) (qlo (udivmod_step a b i s)) =
      (if b \<le> t then mk (qhi s) (qlo s) OR 2 ^ i else mk (qhi s) (qlo s))"
proof -
  let ?rh = "push_bit 1 (rhi s) OR drop_bit 63 (rlo s)"
  let ?rl = "push_bit 1 (rlo s) OR ((if i \<ge> 64 then drop_bit (i - 64) (hi64 a) else drop_bit i (lo64 a)) AND 1)"
  have t: "t = mk ?rh ?rl"
  proof -
    have "drop_bit i a AND 1 =
        join64 0 ((if i \<ge> 64 then drop_bit (i - 64) (hi64 a) else drop_bit i (lo64 a)) AND 1)"
      using assms(1) by (intro bit_word_eqI) (auto simp: hi64_def lo64_def bit_simps bit_1_iff)
    then show ?thesis
      using join64_shifts(1) [of 1 "rhi s" "rlo s"] unfolding t_def mk_def by (simp only: join_or) simp
  qed
  have le: "b \<le> t \<longleftrightarrow> ?rh > hi64 b \<or> (?rh = hi64 b \<and> ?rl \<ge> lo64 b)"
    using join64_order(1) [of ?rh ?rl "hi64 b" "lo64 b", folded mk_def] unfolding t by (auto simp: not_less [symmetric])
  have sub: "t - b = mk (?rh - (hi64 b + (if ?rl < lo64 b then 1 else 0))) (?rl - lo64 b)"
    using join64_sub [of ?rh ?rl "hi64 b" "lo64 b", folded mk_def] unfolding t mk_split .
  have q: "(if i \<ge> 64 then join64 (push_bit (i - 64) 1) 0 else join64 0 (push_bit i 1)) = 2 ^ i"
    using assms(1) by (intro bit_word_eqI) (auto simp: bit_simps bit_1_iff)
  show "mk (rhi (udivmod_step a b i s)) (rlo (udivmod_step a b i s)) = (if b \<le> t then t - b else t)"
    unfolding le sub unfolding t by (auto simp: udivmod_step_def Let_def)
  show "mk (qhi (udivmod_step a b i s)) (qlo (udivmod_step a b i s)) =
      (if b \<le> t then mk (qhi s) (qlo s) OR 2 ^ i else mk (qhi s) (qlo s))"
    unfolding le unfolding q [symmetric] by (auto simp: udivmod_step_def Let_def mk_def join_or)
qed

interpretation division128: restoring_step 128 "\<lambda>_. True" unat udivmod_step "\<lambda>_. True"
  "\<lambda>s. unat (mk (qhi s) (qlo s))" "\<lambda>s. unat (mk (rhi s) (rlo s))"
proof
  fix a b :: u128 and s :: div_state and i :: nat
  assume i: "i < 128" and small: "unat (mk (rhi s) (rlo s)) \<le> unat a div 2 ^ Suc i"
  note t = unat_shift_in_bit [OF small]
  show "unat (mk (rhi (udivmod_step a b i s)) (rlo (udivmod_step a b i s))) =
      (let t = 2 * unat (mk (rhi s) (rlo s)) + unat a div 2 ^ i mod 2
       in if unat b \<le> t then t - unat b else t)"
    unfolding udivmod_step_halves [OF i] unat_le_diff t Let_def by simp
  assume "2 ^ Suc i dvd unat (mk (qhi s) (qlo s))"
  then show "unat (mk (qhi (udivmod_step a b i s)) (qlo (udivmod_step a b i s))) =
      unat (mk (qhi s) (qlo s)) +
      (if unat b \<le> 2 * unat (mk (rhi s) (rlo s)) + unat a div 2 ^ i mod 2 then 2 ^ i else 0)"
    unfolding udivmod_step_halves [OF i] word_le_nat_alt t using i by (simp add: unat_set_bit)
next
  fix a :: u128
  show "unat a < 2 ^ 128"
    using unsigned_less [of a, where 'a = nat] by simp
qed simp

lemma mk_zero [simp]: "mk 0 0 = 0"
  by (simp add: mk_def)

lemma udivmod_eq:
  "udivmod a b = (if b = 0 then (- 1, a) else (a div b, a mod b))"
proof (cases "b = 0")
  case True
  let ?s = "\<lparr>rlo = 0, rhi = 0, qlo = 0, qhi = 0\<rparr> :: div_state"
  have "unat (- 1 :: u128) = 2 ^ 128 - 1"
    by (simp add: unsigned_minus_1_eq_mask mask_eq_exp_minus_1)
  then have "unat (snd (udivmod a b)) = unat a" "unat (fst (udivmod a b)) = unat (- 1 :: u128)"
    using division128.divides_by_zero [of b ?s a] True unfolding udivmod_def Let_def by simp_all
  with True show ?thesis
    by (simp add: prod_eq_iff word_unat_eq_iff [symmetric])
next
  case False
  let ?s = "\<lparr>rlo = 0, rhi = 0, qlo = 0, qhi = 0\<rparr> :: div_state"
  have "0 < unat b"
    using False by (simp add: unat_gt_0)
  then have "unat (snd (udivmod a b)) = unat (a mod b)" "unat (fst (udivmod a b)) = unat (a div b)"
    using division128.divides [of b ?s a] unfolding udivmod_def Let_def unat_div unat_mod by simp_all
  with False show ?thesis
    by (simp add: prod_eq_iff word_unat_eq_iff [symmetric])
qed

section \<open>Properties\<close>

text \<open>C8: the 64-bit division helpers compute C's unsigned and signed quotient and
  remainder for every nonzero divisor (the signed pair truncates toward zero and the remainder
  takes the dividend's sign) and return zero quotients for a zero divisor rather than loop.\<close>

theorem division64_correct:
  "udivdi3 a b = a div b \<and>
   umoddi3 a b = (if b = 0 then 0 else a mod b) \<and>
   divdi3 a b = word_of_int (sint a sdiv sint b) \<and>
   moddi3 a b = (if b = 0 then 0 else word_of_int (sint a smod sint b))"
  by (simp add: udivdi3_def umoddi3_def udivmod64_eq divdi3_eq moddi3_eq moddi3_zero)

text \<open>C10: the Xtensa and ColdFire 64-bit products, built from 16-bit partial products, are
  the low 64 bits of the product and agree with each other, and the ColdFire shifts are the
  64-bit shifts by the count modulo 64.\<close>

theorem arith64_correct:
  "muldi3_xtensa a b = a * b \<and> muldi3_coldfire a b = a * b \<and>
   ashldi3 a n = push_bit (nat (n mod 64)) a \<and>
   lshrdi3 a n = drop_bit (nat (n mod 64)) a \<and>
   ashrdi3 a n = signed_drop_bit (nat (n mod 64)) a"
  by (simp add: muldi3_xtensa_eq muldi3_coldfire_eq shifts64_eq)

text \<open>C9: the 128-bit helpers are multiplication, negation, the three shifts for the counts
  below 128 and, for a nonzero divisor, C's unsigned and signed division on 128-bit words.\<close>

theorem arith128_correct:
  assumes "b \<noteq> 0" and "n < 128"
  shows "multi3 a b = a * b \<and> negti2 a = - a \<and>
    ashlti3 a n = push_bit n a \<and> lshrti3 a n = drop_bit n a \<and> ashrti3 a n = signed_drop_bit n a \<and>
    udivti3 a b = a div b \<and> umodti3 a b = a mod b \<and>
    divti3 a b = word_of_int (sint a sdiv sint b) \<and>
    modti3 a b = word_of_int (sint a smod sint b)"
proof -
  have "magnitude b \<noteq> 0"
    using assms by (simp add: magnitude_def)
  then show ?thesis
    using assms unfolding sdiv_magnitude smod_magnitude
    by (auto simp: multi3_eq negti2_def neg128_eq udivti3_def umodti3_def divti3_def modti3_def Let_def
        is_neg_eq udivmod_eq magnitude_def shifts128_eq)
qed

theorem arith128_correct_witness:
  "(- 7 :: u128) \<noteq> 0 \<and> (65 :: nat) < 128 \<and> ashlti3 100 65 = push_bit 65 100 \<and> divti3 100 (- 7) = word_of_int (sint (100 :: u128) sdiv sint (- 7 :: u128))"
  using arith128_correct [of "- 7" 65 100] by simp


end
