(* ===== verification/Rv_Emit.thy ===== *)
theory Rv_Emit
  imports Emb_Prelude
begin

text \<open>
  The RISC-V instruction encoder of the compiler (\<^verbatim>\<open>src/arch/riscv/emit.c\<close> and
  \<^verbatim>\<open>emit.h\<close>) over the code buffer of \<^verbatim>\<open>src/arch/code.c\<close>: the six instruction
  formats, the compressor to 16-bit forms, the instruction wrappers, constants,
  placeholders and patches.

  The state is the buffer's bytes with the file's globals.  An operation that may
  end in \<open>internal_error\<close>, or that would touch bytes outside the buffer, returns
  an option; \<open>None\<close> is that abort.  C's \<open>int\<close> and \<open>long long\<close> arguments are integers,
  \<open>unsigned long\<close> and \<open>unsigned\<close> are 64-bit and 32-bit words.
\<close>

section \<open>The code buffer\<close>

record emitter =
  code_p :: "u8 list"
  g_rvc :: bool
  g_rvc_xlen :: int
  g_rv_ext :: u32

definition code_len :: "emitter \<Rightarrow> int" where
  "code_len c = int (length (code_p c))"

definition code_byte :: "u8 \<Rightarrow> emitter \<Rightarrow> emitter" where
  "code_byte b c = c\<lparr>code_p := code_p c @ [b]\<rparr>"

definition code_u32 :: "u64 \<Rightarrow> emitter \<Rightarrow> emitter" where
  "code_u32 v c =
    code_byte (ucast (drop_bit 24 v AND 0xff))
      (code_byte (ucast (drop_bit 16 v AND 0xff))
        (code_byte (ucast (drop_bit 8 v AND 0xff))
          (code_byte (ucast (v AND 0xff)) c)))"

definition code_u16 :: "u32 \<Rightarrow> emitter \<Rightarrow> emitter" where
  "code_u16 v c = code_byte (ucast (drop_bit 8 v AND 0xff)) (code_byte (ucast (v AND 0xff)) c)"

definition code_patch32 :: "int \<Rightarrow> u64 \<Rightarrow> emitter \<Rightarrow> emitter option" where
  "code_patch32 off v c =
    (if off < 0 \<or> off + 4 > code_len c then None
     else
       (let o0 = nat off
        in Some (c\<lparr>code_p := (code_p c)
             [o0 := ucast (v AND 0xff), o0 + 1 := ucast (drop_bit 8 v AND 0xff),
              o0 + 2 := ucast (drop_bit 16 v AND 0xff), o0 + 3 := ucast (drop_bit 24 v AND 0xff)]\<rparr>)))"

text \<open>The word the patching routines read back from the buffer.\<close>

definition code_word_at :: "emitter \<Rightarrow> int \<Rightarrow> u64 option" where
  "code_word_at c at =
    (if at < 0 \<or> at + 4 > code_len c then None
     else
       (let p = code_p c; i = nat at
        in Some (ucast (p ! i) OR push_bit 8 (ucast (p ! (i + 1))) OR
                 push_bit 16 (ucast (p ! (i + 2))) OR push_bit 24 (ucast (p ! (i + 3))))))"

fun code_fill :: "nat \<Rightarrow> u8 \<Rightarrow> emitter \<Rightarrow> emitter" where
  "code_fill 0 b c = c"
| "code_fill (Suc n) b c = code_fill n b (code_byte b c)"

text \<open>\<open>while (c->len % align) code_byte(c, fill)\<close> runs for the bytes missing to the next
  multiple; a zero alignment divides by zero in C.\<close>

definition code_align :: "int \<Rightarrow> u8 \<Rightarrow> emitter \<Rightarrow> emitter option" where
  "code_align align fill c =
    (if align \<le> 0 then None else Some (code_fill (nat (- code_len c mod align)) fill c))"

section \<open>Registers and operation numbers\<close>

abbreviation (input) RV_ZERO :: int where "RV_ZERO \<equiv> 0"
abbreviation (input) RV_RA :: int where "RV_RA \<equiv> 1"
abbreviation (input) RV_SP :: int where "RV_SP \<equiv> 2"
abbreviation (input) RV_T1 :: int where "RV_T1 \<equiv> 6"

abbreviation (input) OP_LOAD :: int where "OP_LOAD \<equiv> 0x03"
abbreviation (input) OP_IMM :: int where "OP_IMM \<equiv> 0x13"
abbreviation (input) OP_AUIPC :: int where "OP_AUIPC \<equiv> 0x17"
abbreviation (input) OP_IMM32 :: int where "OP_IMM32 \<equiv> 0x1b"
abbreviation (input) OP_STORE :: int where "OP_STORE \<equiv> 0x23"
abbreviation (input) OP_OP :: int where "OP_OP \<equiv> 0x33"
abbreviation (input) OP_LUI :: int where "OP_LUI \<equiv> 0x37"
abbreviation (input) OP_OP32 :: int where "OP_OP32 \<equiv> 0x3b"
abbreviation (input) OP_BRANCH :: int where "OP_BRANCH \<equiv> 0x63"
abbreviation (input) OP_JALR :: int where "OP_JALR \<equiv> 0x67"
abbreviation (input) OP_JAL :: int where "OP_JAL \<equiv> 0x6f"
abbreviation (input) OP_SYSTEM :: int where "OP_SYSTEM \<equiv> 0x73"
abbreviation (input) OP_LOAD_FP :: int where "OP_LOAD_FP \<equiv> 0x07"
abbreviation (input) OP_STORE_FP :: int where "OP_STORE_FP \<equiv> 0x27"
abbreviation (input) OP_FP :: int where "OP_FP \<equiv> 0x53"

abbreviation (input) RV_ADD :: int where "RV_ADD \<equiv> 0"
abbreviation (input) RV_SUB :: int where "RV_SUB \<equiv> 1"
abbreviation (input) RV_SLL :: int where "RV_SLL \<equiv> 2"
abbreviation (input) RV_SRL :: int where "RV_SRL \<equiv> 6"
abbreviation (input) RV_SRA :: int where "RV_SRA \<equiv> 7"
abbreviation (input) RV_AND :: int where "RV_AND \<equiv> 9"
abbreviation (input) RV_MULH :: int where "RV_MULH \<equiv> 1"
abbreviation (input) RV_MULHSU :: int where "RV_MULHSU \<equiv> 2"
abbreviation (input) RV_MULHU :: int where "RV_MULHU \<equiv> 3"
abbreviation (input) RV_REMU :: int where "RV_REMU \<equiv> 7"

abbreviation (input) RV_EXT_ZBA :: u32 where "RV_EXT_ZBA \<equiv> 1"
abbreviation (input) RV_EXT_ZBB :: u32 where "RV_EXT_ZBB \<equiv> 2"
abbreviation (input) RV_EXT_ZCB :: u32 where "RV_EXT_ZCB \<equiv> 4096"

abbreviation (input) RM_RNE :: int where "RM_RNE \<equiv> 0"
abbreviation (input) RM_RTZ :: int where "RM_RTZ \<equiv> 1"
abbreviation (input) RM_DYN :: int where "RM_DYN \<equiv> 7"

section \<open>The six formats\<close>

definition rv_fits :: "int \<Rightarrow> nat \<Rightarrow> bool" where
  "rv_fits v bits = (let lo = - (2 ^ (bits - 1)); hi = 2 ^ (bits - 1) - 1 in v \<ge> lo \<and> v \<le> hi)"

definition need :: "int \<Rightarrow> nat \<Rightarrow> unit option" where
  "need v bits = require (rv_fits v bits)"

definition need_reg :: "int \<Rightarrow> unit option" where
  "need_reg r = require (\<not> (r < 0 \<or> r > 31))"

definition ul :: "int \<Rightarrow> u64" where
  "ul i = word_of_int i"

definition rv_enc_r :: "int \<Rightarrow> int \<Rightarrow> int \<Rightarrow> int \<Rightarrow> int \<Rightarrow> int \<Rightarrow> u64 option" where
  "rv_enc_r op rd f3 rs1 rs2 f7 = do {
     need_reg rd; need_reg rs1; need_reg rs2;
     Some (ul op OR push_bit 7 (ul rd) OR push_bit 12 (ul f3) OR push_bit 15 (ul rs1) OR
           push_bit 20 (ul rs2) OR push_bit 25 (ul f7)) }"

definition rv_enc_i :: "int \<Rightarrow> int \<Rightarrow> int \<Rightarrow> int \<Rightarrow> int \<Rightarrow> u64 option" where
  "rv_enc_i op rd f3 rs1 imm = do {
     need_reg rd; need_reg rs1;
     need imm 12;
     Some (ul op OR push_bit 7 (ul rd) OR push_bit 12 (ul f3) OR push_bit 15 (ul rs1) OR
           push_bit 20 (ul imm AND 0xfff)) }"

definition rv_enc_s :: "int \<Rightarrow> int \<Rightarrow> int \<Rightarrow> int \<Rightarrow> int \<Rightarrow> u64 option" where
  "rv_enc_s op f3 rs1 rs2 imm = do {
     need_reg rs1; need_reg rs2;
     need imm 12;
     let u = ul imm AND 0xfff;
     Some (ul op OR push_bit 7 (u AND 0x1f) OR push_bit 12 (ul f3) OR push_bit 15 (ul rs1) OR
           push_bit 20 (ul rs2) OR push_bit 25 (drop_bit 5 u)) }"

definition rv_enc_b :: "int \<Rightarrow> int \<Rightarrow> int \<Rightarrow> int \<Rightarrow> int \<Rightarrow> u64 option" where
  "rv_enc_b op f3 rs1 rs2 imm = do {
     need_reg rs1; need_reg rs2;
     require (imm AND 1 = 0);
     need imm 13;
     let u = ul imm;
     Some (ul op OR push_bit 12 (ul f3) OR push_bit 15 (ul rs1) OR push_bit 20 (ul rs2) OR
           push_bit 7 (drop_bit 11 u AND 1) OR push_bit 8 (drop_bit 1 u AND 0xf) OR
           push_bit 25 (drop_bit 5 u AND 0x3f) OR push_bit 31 (drop_bit 12 u AND 1)) }"

definition rv_enc_u :: "int \<Rightarrow> int \<Rightarrow> int \<Rightarrow> u64 option" where
  "rv_enc_u op rd hi20 = do {
     need_reg rd;
     Some (ul op OR push_bit 7 (ul rd) OR push_bit 12 (ul hi20 AND 0xfffff)) }"

definition rv_enc_j :: "int \<Rightarrow> int \<Rightarrow> int \<Rightarrow> u64 option" where
  "rv_enc_j op rd imm = do {
     need_reg rd;
     require (imm AND 1 = 0);
     need imm 21;
     let u = ul imm;
     Some (ul op OR push_bit 7 (ul rd) OR push_bit 12 (drop_bit 12 u AND 0xff) OR
           push_bit 20 (drop_bit 11 u AND 1) OR push_bit 21 (drop_bit 1 u AND 0x3ff) OR
           push_bit 31 (drop_bit 20 u AND 1)) }"

section \<open>The compressor\<close>

text \<open>A field of an instruction word as the C locals hold it, and a cast to \<open>unsigned\<close>.\<close>

definition fld :: "u64 \<Rightarrow> nat \<Rightarrow> u64 \<Rightarrow> int" where
  "fld w n m = uint (drop_bit n w AND m)"

definition cu :: "int \<Rightarrow> u32" where
  "cu i = word_of_int i"

definition immi_of :: "u64 \<Rightarrow> int" where
  "immi_of w = (let i = fld w 20 0xfff in if i AND 0x800 \<noteq> 0 then i - 0x1000 else i)"

definition imms_of :: "u64 \<Rightarrow> int" where
  "imms_of w =
    (let i = uint (push_bit 5 (drop_bit 25 w AND 0x7f) OR (drop_bit 7 w AND 0x1f))
     in if i AND 0x800 \<noteq> 0 then i - 0x1000 else i)"

definition creg :: "int \<Rightarrow> int" where
  "creg r = (if r \<ge> 8 \<and> r \<le> 15 then r - 8 else - 1)"

definition cr_ca :: "u32 \<Rightarrow> u32 \<Rightarrow> int \<Rightarrow> u32 \<Rightarrow> int \<Rightarrow> u32" where
  "cr_ca op f6 rd' f2 rs2' =
    op OR push_bit 2 (cu rs2') OR push_bit 5 f2 OR push_bit 7 (cu rd') OR push_bit 10 f6"

text \<open>The layout of the CI forms: \<open>imm[4:0]\<close> at 2, \<open>rd\<close> at 7, the sign at 12.\<close>

definition ci_form :: "u32 \<Rightarrow> int \<Rightarrow> int \<Rightarrow> u32" where
  "ci_form op imm rd = op OR push_bit 2 (cu (imm AND 0x1f)) OR push_bit 7 (cu rd) OR
    push_bit 12 (cu (of_bool (imm < 0)))"

definition shift_form :: "u32 \<Rightarrow> int \<Rightarrow> int \<Rightarrow> u32" where
  "shift_form op sh rd = op OR push_bit 2 (cu (sh AND 0x1f)) OR push_bit 7 (cu rd) OR
    push_bit 12 (cu (drop_bit 5 sh AND 1))"

definition zcb_compress :: "u64 \<Rightarrow> int \<Rightarrow> u32 \<Rightarrow> u32" where
  "zcb_compress w xlen ext =
    (let op = fld w 0 0x7f; f3 = fld w 12 7; f7 = fld w 25 0x7f;
         rd = fld w 7 0x1f; rs1 = fld w 15 0x1f; rs2 = fld w 20 0x1f;
         immi = fld w 20 0xfff;
         imms = uint (push_bit 5 (drop_bit 25 w AND 0x7f) OR (drop_bit 7 w AND 0x1f));
         rdc = creg rd; r1c = creg rs1; r2c = creg rs2;
         u = 0x9c61 OR push_bit 7 (cu rdc)
     in if op = 0x03 \<and> rdc \<ge> 0 \<and> r1c \<ge> 0 \<and> f3 = 4 \<and> immi \<ge> 0 \<and> immi \<le> 3 then
          0x8000 OR push_bit 7 (cu r1c) OR push_bit 6 (cu (immi AND 1)) OR
          push_bit 5 (cu (drop_bit 1 immi AND 1)) OR push_bit 2 (cu rdc)
        else if op = 0x03 \<and> rdc \<ge> 0 \<and> r1c \<ge> 0 \<and> (f3 = 5 \<or> f3 = 1) \<and> (immi = 0 \<or> immi = 2) then
          0x8400 OR push_bit 7 (cu r1c) OR (if f3 = 1 then push_bit 6 1 else 0) OR
          push_bit 5 (cu (drop_bit 1 immi)) OR push_bit 2 (cu rdc)
        else if op = 0x23 \<and> r1c \<ge> 0 \<and> r2c \<ge> 0 \<and> f3 = 0 \<and> imms \<ge> 0 \<and> imms \<le> 3 then
          0x8800 OR push_bit 7 (cu r1c) OR push_bit 6 (cu (imms AND 1)) OR
          push_bit 5 (cu (drop_bit 1 imms AND 1)) OR push_bit 2 (cu r2c)
        else if op = 0x23 \<and> r1c \<ge> 0 \<and> r2c \<ge> 0 \<and> f3 = 1 \<and> (imms = 0 \<or> imms = 2) then
          0x8c00 OR push_bit 7 (cu r1c) OR push_bit 5 (cu (drop_bit 1 imms)) OR push_bit 2 (cu r2c)
        else if rdc < 0 \<or> rs1 \<noteq> rd then 0
        else if op = 0x13 \<and> f3 = 7 \<and> immi = 0xff then u
        else if op = 0x13 \<and> f3 = 4 \<and> immi = 0xfff then u OR push_bit 2 5
        else if ext AND RV_EXT_ZBB \<noteq> 0 \<and> op = 0x13 \<and> f3 = 1 \<and> (immi = 0x604 \<or> immi = 0x605) then
          u OR push_bit 2 (if immi = 0x604 then 1 else 3)
        else if ext AND RV_EXT_ZBB \<noteq> 0 \<and> f7 = 0x04 \<and> f3 = 4 \<and> rs2 = 0 \<and>
                op = (if xlen = 64 then 0x3b else 0x33) then
          u OR push_bit 2 2
        else if xlen = 64 \<and> ext AND RV_EXT_ZBA \<noteq> 0 \<and> op = 0x3b \<and> f3 = 0 \<and> f7 = 0x04 \<and> rs2 = 0 then
          u OR push_bit 2 4
        else if op = 0x33 \<and> f3 = 0 \<and> f7 = 0x01 \<and> r2c \<ge> 0 then
          0x9c41 OR push_bit 7 (cu rdc) OR push_bit 2 (cu r2c)
        else 0)"

text \<open>The cases of \<open>rv_compress\<close>'s switch, one definition per major opcode.\<close>

definition compress_op_imm :: "u64 \<Rightarrow> int \<Rightarrow> u32" where
  "compress_op_imm w xlen =
    (let rd = fld w 7 0x1f; f3 = fld w 12 7; rs1 = fld w 15 0x1f; f7 = fld w 25 0x7f;
         immi = immi_of w; rdc = creg rd; i = cu immi;
         sh = fld w 20 (if xlen = 64 then 0x3f else 0x1f)
     in if f3 = 0 \<and> rd = 0 \<and> rs1 = 0 \<and> immi = 0 then 0x0001
        else if f3 = 0 \<and> rd \<noteq> 0 \<and> rs1 = rd \<and> immi \<noteq> 0 \<and> immi \<ge> - 32 \<and> immi < 32 then
          ci_form 0x0001 immi rd
        else if f3 = 0 \<and> rd \<noteq> 0 \<and> rs1 = 0 \<and> immi \<ge> - 32 \<and> immi < 32 then
          ci_form 0x4001 immi rd
        else if f3 = 0 \<and> rd \<noteq> 0 \<and> rs1 \<noteq> 0 \<and> immi = 0 then
          0x8002 OR push_bit 2 (cu rs1) OR push_bit 7 (cu rd)
        else if f3 = 0 \<and> rd = 2 \<and> rs1 = 2 \<and> immi \<noteq> 0 \<and> immi AND 15 = 0 \<and> immi \<ge> - 512 \<and> immi < 512 then
          0x6101 OR push_bit 2 (drop_bit 5 i AND 1) OR push_bit 3 (drop_bit 7 i AND 3) OR
          push_bit 5 (drop_bit 6 i AND 1) OR push_bit 6 (drop_bit 4 i AND 1) OR
          push_bit 12 (drop_bit 9 i AND 1)
        else if f3 = 0 \<and> rdc \<ge> 0 \<and> rs1 = 2 \<and> immi > 0 \<and> immi < 1024 \<and> immi AND 3 = 0 then
          0x0000 OR push_bit 2 (cu rdc) OR push_bit 5 (drop_bit 3 i AND 1) OR
          push_bit 6 (drop_bit 2 i AND 1) OR push_bit 7 (drop_bit 6 i AND 0xf) OR
          push_bit 11 (drop_bit 4 i AND 3)
        else if f3 = 7 \<and> rdc \<ge> 0 \<and> rs1 = rd \<and> immi \<ge> - 32 \<and> immi < 32 then
          ci_form 0x8801 immi rdc
        else if f3 = 1 \<and> rd \<noteq> 0 \<and> rs1 = rd \<and> f7 \<le> 1 \<and> sh \<noteq> 0 \<and> (xlen = 64 \<or> sh < 32) then
          shift_form 0x0002 sh rd
        else if f3 = 5 \<and> rdc \<ge> 0 \<and> rs1 = rd \<and> (f7 AND NOT 1 = 0 \<or> f7 AND NOT 1 = 0x20) \<and>
                sh \<noteq> 0 \<and> (xlen = 64 \<or> sh < 32) then
          shift_form 0x8001 sh rdc OR push_bit 10 (if f7 AND 0x20 \<noteq> 0 then 1 else 0)
        else 0)"

definition compress_op_imm32 :: "u64 \<Rightarrow> int \<Rightarrow> u32" where
  "compress_op_imm32 w xlen =
    (let rd = fld w 7 0x1f; f3 = fld w 12 7; rs1 = fld w 15 0x1f; immi = immi_of w
     in if xlen = 64 \<and> f3 = 0 \<and> rd \<noteq> 0 \<and> rs1 = rd \<and> immi \<ge> - 32 \<and> immi < 32 then
          ci_form 0x2001 immi rd
        else if xlen = 64 \<and> f3 = 0 \<and> rd \<noteq> 0 \<and> rs1 = 0 \<and> immi \<ge> - 32 \<and> immi < 32 then
          ci_form 0x4001 immi rd
        else 0)"

definition compress_lui :: "u64 \<Rightarrow> u32" where
  "compress_lui w =
    (let rd = fld w 7 0x1f; hi = fld w 12 0xfffff;
         s = (if hi AND 0x80000 \<noteq> 0 then hi - 0x100000 else hi)
     in if rd \<noteq> 0 \<and> rd \<noteq> 2 \<and> s \<noteq> 0 \<and> s \<ge> - 32 \<and> s < 32 then ci_form 0x6001 s rd else 0)"

definition compress_op :: "u64 \<Rightarrow> u32" where
  "compress_op w =
    (let rd = fld w 7 0x1f; f3 = fld w 12 7; rs1 = fld w 15 0x1f; rs2 = fld w 20 0x1f;
         f7 = fld w 25 0x7f; rdc = creg rd; rs2c = creg rs2
     in if f3 = 0 \<and> f7 = 0 \<and> rd \<noteq> 0 \<and> rs1 = 0 \<and> rs2 \<noteq> 0 then
          0x8002 OR push_bit 2 (cu rs2) OR push_bit 7 (cu rd)
        else if f3 = 0 \<and> f7 = 0 \<and> rd \<noteq> 0 \<and> rs2 = 0 \<and> rs1 \<noteq> 0 then
          0x8002 OR push_bit 2 (cu rs1) OR push_bit 7 (cu rd)
        else if f3 = 0 \<and> f7 = 0 \<and> rd \<noteq> 0 \<and> rs1 = rd \<and> rs2 \<noteq> 0 then
          0x9002 OR push_bit 2 (cu rs2) OR push_bit 7 (cu rd)
        else if rdc \<ge> 0 \<and> rs2c \<ge> 0 \<and> rs1 = rd \<and> f3 = 0 \<and> f7 = 0x20 then cr_ca 0x8001 0x23 rdc 0 rs2c
        else if rdc \<ge> 0 \<and> rs2c \<ge> 0 \<and> rs1 = rd \<and> f3 = 4 \<and> f7 = 0 then cr_ca 0x8001 0x23 rdc 1 rs2c
        else if rdc \<ge> 0 \<and> rs2c \<ge> 0 \<and> rs1 = rd \<and> f3 = 6 \<and> f7 = 0 then cr_ca 0x8001 0x23 rdc 2 rs2c
        else if rdc \<ge> 0 \<and> rs2c \<ge> 0 \<and> rs1 = rd \<and> f3 = 7 \<and> f7 = 0 then cr_ca 0x8001 0x23 rdc 3 rs2c
        else 0)"

definition compress_op32 :: "u64 \<Rightarrow> int \<Rightarrow> u32" where
  "compress_op32 w xlen =
    (let rd = fld w 7 0x1f; f3 = fld w 12 7; rs1 = fld w 15 0x1f; rs2 = fld w 20 0x1f;
         f7 = fld w 25 0x7f; rdc = creg rd; rs2c = creg rs2
     in if xlen = 64 \<and> rdc \<ge> 0 \<and> rs2c \<ge> 0 \<and> rs1 = rd \<and> f3 = 0 \<and> f7 = 0x20 then cr_ca 0x9001 0x27 rdc 0 rs2c
        else if xlen = 64 \<and> rdc \<ge> 0 \<and> rs2c \<ge> 0 \<and> rs1 = rd \<and> f3 = 0 \<and> f7 = 0 then cr_ca 0x9001 0x27 rdc 1 rs2c
        else 0)"

text \<open>The layouts of the loads and stores: from the stack pointer, and between the eight
  registers of the short forms, for words and for doublewords.\<close>

definition lwsp_form :: "u32 \<Rightarrow> u32 \<Rightarrow> int \<Rightarrow> u32" where
  "lwsp_form op i rd = op OR push_bit 2 (drop_bit 6 i AND 3) OR push_bit 4 (drop_bit 2 i AND 7) OR
    push_bit 12 (drop_bit 5 i AND 1) OR push_bit 7 (cu rd)"

definition lw_form :: "u32 \<Rightarrow> u32 \<Rightarrow> int \<Rightarrow> int \<Rightarrow> u32" where
  "lw_form op i r rs1c = op OR push_bit 2 (cu r) OR push_bit 5 (drop_bit 6 i AND 1) OR
    push_bit 6 (drop_bit 2 i AND 1) OR push_bit 7 (cu rs1c) OR push_bit 10 (drop_bit 3 i AND 7)"

definition ldsp_form :: "u32 \<Rightarrow> u32 \<Rightarrow> int \<Rightarrow> u32" where
  "ldsp_form op i rd = op OR push_bit 2 (drop_bit 6 i AND 7) OR push_bit 5 (drop_bit 3 i AND 3) OR
    push_bit 12 (drop_bit 5 i AND 1) OR push_bit 7 (cu rd)"

definition ld_form :: "u32 \<Rightarrow> u32 \<Rightarrow> int \<Rightarrow> int \<Rightarrow> u32" where
  "ld_form op i r rs1c = op OR push_bit 2 (cu r) OR push_bit 5 (drop_bit 6 i AND 3) OR
    push_bit 7 (cu rs1c) OR push_bit 10 (drop_bit 3 i AND 7)"

definition swsp_form :: "u32 \<Rightarrow> u32 \<Rightarrow> int \<Rightarrow> u32" where
  "swsp_form op i rs2 = op OR push_bit 2 (cu rs2) OR push_bit 7 (drop_bit 6 i AND 3) OR
    push_bit 9 (drop_bit 2 i AND 0xf)"

definition sdsp_form :: "u32 \<Rightarrow> u32 \<Rightarrow> int \<Rightarrow> u32" where
  "sdsp_form op i rs2 = op OR push_bit 2 (cu rs2) OR push_bit 7 (drop_bit 6 i AND 7) OR
    push_bit 10 (drop_bit 3 i AND 7)"

definition compress_load :: "u64 \<Rightarrow> int \<Rightarrow> u32" where
  "compress_load w xlen =
    (let rd = fld w 7 0x1f; f3 = fld w 12 7; rs1 = fld w 15 0x1f; immi = immi_of w;
         rdc = creg rd; rs1c = creg rs1; i = cu immi
     in if f3 = 2 \<and> rd \<noteq> 0 \<and> rs1 = 2 \<and> immi \<ge> 0 \<and> immi < 256 \<and> immi AND 3 = 0 then
          lwsp_form 0x4002 i rd
        else if f3 = 2 \<and> rdc \<ge> 0 \<and> rs1c \<ge> 0 \<and> immi \<ge> 0 \<and> immi < 128 \<and> immi AND 3 = 0 then
          lw_form 0x4000 i rdc rs1c
        else if f3 = 3 \<and> xlen = 64 \<and> rd \<noteq> 0 \<and> rs1 = 2 \<and> immi \<ge> 0 \<and> immi < 512 \<and> immi AND 7 = 0 then
          ldsp_form 0x6002 i rd
        else if f3 = 3 \<and> xlen = 64 \<and> rdc \<ge> 0 \<and> rs1c \<ge> 0 \<and> immi \<ge> 0 \<and> immi < 256 \<and> immi AND 7 = 0 then
          ld_form 0x6000 i rdc rs1c
        else 0)"

definition compress_store :: "u64 \<Rightarrow> int \<Rightarrow> u32" where
  "compress_store w xlen =
    (let f3 = fld w 12 7; rs1 = fld w 15 0x1f; rs2 = fld w 20 0x1f; imms = imms_of w;
         rs1c = creg rs1; rs2c = creg rs2; i = cu imms
     in if f3 = 2 \<and> rs1 = 2 \<and> imms \<ge> 0 \<and> imms < 256 \<and> imms AND 3 = 0 then
          swsp_form 0xc002 i rs2
        else if f3 = 2 \<and> rs1c \<ge> 0 \<and> rs2c \<ge> 0 \<and> imms \<ge> 0 \<and> imms < 128 \<and> imms AND 3 = 0 then
          lw_form 0xc000 i rs2c rs1c
        else if f3 = 3 \<and> xlen = 64 \<and> rs1 = 2 \<and> imms \<ge> 0 \<and> imms < 512 \<and> imms AND 7 = 0 then
          sdsp_form 0xe002 i rs2
        else if f3 = 3 \<and> xlen = 64 \<and> rs1c \<ge> 0 \<and> rs2c \<ge> 0 \<and> imms \<ge> 0 \<and> imms < 256 \<and> imms AND 7 = 0 then
          ld_form 0xe000 i rs2c rs1c
        else 0)"

definition compress_load_fp :: "u64 \<Rightarrow> int \<Rightarrow> u32" where
  "compress_load_fp w xlen =
    (let rd = fld w 7 0x1f; f3 = fld w 12 7; rs1 = fld w 15 0x1f; immi = immi_of w;
         rdc = creg rd; rs1c = creg rs1; i = cu immi
     in if f3 = 3 \<and> rs1 = 2 \<and> immi \<ge> 0 \<and> immi < 512 \<and> immi AND 7 = 0 then
          ldsp_form 0x2002 i rd
        else if f3 = 3 \<and> rdc \<ge> 0 \<and> rs1c \<ge> 0 \<and> immi \<ge> 0 \<and> immi < 256 \<and> immi AND 7 = 0 then
          ld_form 0x2000 i rdc rs1c
        else if f3 = 2 \<and> xlen = 32 \<and> rs1 = 2 \<and> immi \<ge> 0 \<and> immi < 256 \<and> immi AND 3 = 0 then
          lwsp_form 0x6002 i rd
        else if f3 = 2 \<and> xlen = 32 \<and> rdc \<ge> 0 \<and> rs1c \<ge> 0 \<and> immi \<ge> 0 \<and> immi < 128 \<and> immi AND 3 = 0 then
          lw_form 0x6000 i rdc rs1c
        else 0)"

definition compress_store_fp :: "u64 \<Rightarrow> int \<Rightarrow> u32" where
  "compress_store_fp w xlen =
    (let f3 = fld w 12 7; rs1 = fld w 15 0x1f; rs2 = fld w 20 0x1f; imms = imms_of w;
         rs1c = creg rs1; rs2c = creg rs2; i = cu imms
     in if f3 = 3 \<and> rs1 = 2 \<and> imms \<ge> 0 \<and> imms < 512 \<and> imms AND 7 = 0 then
          sdsp_form 0xa002 i rs2
        else if f3 = 3 \<and> rs1c \<ge> 0 \<and> rs2c \<ge> 0 \<and> imms \<ge> 0 \<and> imms < 256 \<and> imms AND 7 = 0 then
          ld_form 0xa000 i rs2c rs1c
        else if f3 = 2 \<and> xlen = 32 \<and> rs1 = 2 \<and> imms \<ge> 0 \<and> imms < 256 \<and> imms AND 3 = 0 then
          swsp_form 0xe002 i rs2
        else if f3 = 2 \<and> xlen = 32 \<and> rs1c \<ge> 0 \<and> rs2c \<ge> 0 \<and> imms \<ge> 0 \<and> imms < 128 \<and> imms AND 3 = 0 then
          lw_form 0xe000 i rs2c rs1c
        else 0)"

definition compress_jalr :: "u64 \<Rightarrow> u32" where
  "compress_jalr w =
    (let rd = fld w 7 0x1f; f3 = fld w 12 7; rs1 = fld w 15 0x1f; immi = immi_of w
     in if f3 = 0 \<and> immi = 0 \<and> rs1 \<noteq> 0 \<and> rd = 0 then 0x8002 OR push_bit 7 (cu rs1)
        else if f3 = 0 \<and> immi = 0 \<and> rs1 \<noteq> 0 \<and> rd = 1 then 0x9002 OR push_bit 7 (cu rs1)
        else 0)"

definition compress_system :: "u64 \<Rightarrow> u32" where
  "compress_system w = (if w = 0x00100073 then 0x9002 else 0)"

definition compress_base :: "u64 \<Rightarrow> int \<Rightarrow> u32" where
  "compress_base w xlen =
    (let op = fld w 0 0x7f
     in if op = 0x13 then compress_op_imm w xlen
        else if op = 0x1b then compress_op_imm32 w xlen
        else if op = 0x37 then compress_lui w
        else if op = 0x33 then compress_op w
        else if op = 0x3b then compress_op32 w xlen
        else if op = 0x03 then compress_load w xlen
        else if op = 0x23 then compress_store w xlen
        else if op = 0x07 then compress_load_fp w xlen
        else if op = 0x27 then compress_store_fp w xlen
        else if op = 0x67 then compress_jalr w
        else if op = 0x73 then compress_system w
        else 0)"

definition rv_compress :: "u32 \<Rightarrow> u64 \<Rightarrow> int \<Rightarrow> u32" where
  "rv_compress ext w xlen =
    (if ext AND RV_EXT_ZCB \<noteq> 0 \<and> zcb_compress w xlen ext \<noteq> 0 then zcb_compress w xlen ext
     else compress_base w xlen)"

section \<open>Writing instructions\<close>

definition rv_set_compress :: "bool \<Rightarrow> int \<Rightarrow> emitter \<Rightarrow> emitter" where
  "rv_set_compress on xlen c = c\<lparr>g_rvc := on, g_rvc_xlen := xlen\<rparr>"

definition rv_set_ext_source :: "u32 \<Rightarrow> emitter \<Rightarrow> emitter" where
  "rv_set_ext_source ext c = c\<lparr>g_rv_ext := ext\<rparr>"

definition rv_compress_enabled :: "emitter \<Rightarrow> bool" where
  "rv_compress_enabled c = g_rvc c"

definition rv_cunimp :: "emitter \<Rightarrow> emitter" where
  "rv_cunimp c = code_u16 0x0000 c"

definition rv_w :: "u64 \<Rightarrow> emitter \<Rightarrow> emitter" where
  "rv_w w c =
    (if g_rvc c \<and> rv_compress (g_rv_ext c) w (g_rvc_xlen c) \<noteq> 0
     then code_u16 (rv_compress (g_rv_ext c) w (g_rvc_xlen c)) c
     else code_u32 w c)"

text \<open>\<open>rv_w(c, enc(...))\<close>: the encoder's abort is the whole call's.\<close>

definition emit_w :: "u64 option \<Rightarrow> emitter \<Rightarrow> emitter option" where
  "emit_w ow c = do { w \<leftarrow> ow; Some (rv_w w c) }"

definition rv_czero :: "bool \<Rightarrow> int \<Rightarrow> int \<Rightarrow> int \<Rightarrow> emitter \<Rightarrow> emitter option" where
  "rv_czero nez rd rs1 rs2 = emit_w (rv_enc_r 0x33 rd (if nez then 7 else 5) rs1 rs2 0x07)"

definition rv_mv :: "int \<Rightarrow> int \<Rightarrow> emitter \<Rightarrow> emitter option" where
  "rv_mv rd rs = emit_w (rv_enc_i OP_IMM rd 0 rs 0)"

definition rv_lui :: "int \<Rightarrow> int \<Rightarrow> emitter \<Rightarrow> emitter option" where
  "rv_lui rd hi20 = emit_w (rv_enc_u OP_LUI rd hi20)"

definition rv_auipc :: "int \<Rightarrow> int \<Rightarrow> emitter \<Rightarrow> emitter option" where
  "rv_auipc rd hi20 = emit_w (rv_enc_u OP_AUIPC rd hi20)"

section \<open>Constants\<close>

definition hi20_of :: "int \<Rightarrow> int" where
  "hi20_of v = drop_bit 12 (v + 0x800) AND 0xfffff"

definition lo12_of :: "int \<Rightarrow> int" where
  "lo12_of v = ((v AND 0xfff) XOR 0x800) - 0x800"

text \<open>\<open>long long\<close> arithmetic, wrapped to 64 bits where the source may leave its range.\<close>

definition ll :: "int \<Rightarrow> int" where
  "ll i = signed_take_bit 63 i"

definition narrow32 :: "int \<Rightarrow> int" where
  "narrow32 v = (let u = uint (word_of_int v :: u32) in if u AND 0x80000000 \<noteq> 0 then u - 0x100000000 else u)"

definition li_hi :: "int \<Rightarrow> int" where
  "li_hi v = drop_bit 12 (ll (v - lo12_of v))"

function li_emit :: "int \<Rightarrow> int \<Rightarrow> int \<Rightarrow> bool \<Rightarrow> emitter \<Rightarrow> (int \<times> emitter) option" where
  "li_emit rd v xlen emit c =
    (if rv_fits v 12 then do {
       c1 \<leftarrow> (if emit then emit_w (rv_enc_i OP_IMM rd 0 RV_ZERO v) c else Some c);
       Some (4, c1) }
     else if rv_fits v 32 then do {
       c1 \<leftarrow> (if emit then emit_w (rv_enc_u OP_LUI rd (hi20_of v)) c else Some c);
       if lo12_of v \<noteq> 0 then do {
         c2 \<leftarrow> (if emit then
             emit_w (rv_enc_i (if xlen = 64 \<and> hi20_of v AND 0x80000 \<noteq> 0 then OP_IMM32 else OP_IMM)
               rd 0 rd (lo12_of v)) c1
           else Some c1);
         Some (8, c2) }
       else Some (4, c1) }
     else do {
       (n, c1) \<leftarrow> li_emit rd (li_hi v) xlen emit c;
       c2 \<leftarrow> (if emit then emit_w (rv_enc_r OP_IMM rd 1 rd 12 0) c1 else Some c1);
       if lo12_of v \<noteq> 0 then do {
         c3 \<leftarrow> (if emit then emit_w (rv_enc_i OP_IMM rd 0 rd (lo12_of v)) c2 else Some c2);
         Some (n + 8, c3) }
       else Some (n + 4, c2) })"
  by pat_completeness auto

lemma lo12_of_alt: "lo12_of v = signed_take_bit 11 v"
proof -
  have "v AND 0xfff = take_bit 12 v"
    by (simp add: take_bit_eq_mask mask_eq_exp_minus_1)
  then show ?thesis
    using xor_exp_int [of "take_bit 12 v" 11]
    by (simp add: lo12_of_def signed_take_bit_eq_take_bit_minus bit_take_bit_iff)
qed

lemma lo12_of_range: "- 2048 \<le> lo12_of v" "lo12_of v < 2048"
  using signed_take_bit_int_greater_eq_minus_exp [of 11 v] signed_take_bit_int_less_exp [of 11 v]
  by (simp_all add: lo12_of_alt)

lemma li_hi_smaller:
  assumes "\<not> rv_fits v 32"
  shows "\<bar>li_hi v\<bar> < \<bar>v\<bar>"
proof -
  define x where "x = ll (v - lo12_of v)"
  have v: "2147483648 \<le> \<bar>v\<bar>"
    using assms by (auto simp: rv_fits_def)
  have b: "- (2 ^ 63) \<le> x" "x < 2 ^ 63"
    unfolding x_def ll_def by (rule signed_take_bit_int_greater_eq_minus_exp signed_take_bit_int_less_exp)+
  have "x = v - lo12_of v \<or> 2 ^ 63 - 2048 \<le> \<bar>v\<bar>"
    using lo12_of_range [of v] unfolding x_def ll_def
    by (cases "- (2 ^ 63) \<le> v - lo12_of v \<and> v - lo12_of v < 2 ^ 63") (auto simp: signed_take_bit_int_eq_self)
  then have "\<bar>x div 4096\<bar> < \<bar>v\<bar>"
    using v b lo12_of_range [of v] by auto
  then show ?thesis
    by (simp add: li_hi_def x_def drop_bit_eq_div)
qed
termination li_emit
  by (relation "measure (\<lambda>(rd, v, xlen, emit, c). nat \<bar>v\<bar>)") (auto dest: li_hi_smaller)

declare li_emit.simps [simp del]

definition rv_li :: "int \<Rightarrow> int \<Rightarrow> int \<Rightarrow> emitter \<Rightarrow> emitter option" where
  "rv_li rd v xlen c =
    (if xlen = 32 then do {
       require (\<not> (v < - 2147483648 \<or> v > 4294967295));
       (n, c1) \<leftarrow> li_emit rd (narrow32 v) xlen True c;
       Some c1 }
     else do { (n, c1) \<leftarrow> li_emit rd v xlen True c; Some c1 })"

text \<open>The length is asked with a null buffer, which \<open>li_emit\<close> then never touches: an
  empty one stands for it.\<close>

definition no_code :: emitter where
  "no_code = \<lparr>code_p = [], g_rvc = False, g_rvc_xlen = 64, g_rv_ext = 0\<rparr>"

definition rv_li_len :: "int \<Rightarrow> int \<Rightarrow> int option" where
  "rv_li_len v xlen = map_option fst (li_emit 0 (if xlen = 32 then narrow32 v else v) xlen False no_code)"

section \<open>Arithmetic, memory and the floating-point extensions\<close>

definition alu_enc :: "(int \<times> bool) list" where
  "alu_enc = [(0, False), (0, True), (1, False), (2, False), (3, False),
              (4, False), (5, False), (5, True), (6, False), (7, False)]"

definition has_word_form :: "int \<Rightarrow> bool" where
  "has_word_form op \<longleftrightarrow> op = RV_ADD \<or> op = RV_SUB \<or> op = RV_SLL \<or> op = RV_SRL \<or> op = RV_SRA"

definition rv_alu :: "int \<Rightarrow> int \<Rightarrow> int \<Rightarrow> int \<Rightarrow> bool \<Rightarrow> emitter \<Rightarrow> emitter option" where
  "rv_alu op rd rs1 rs2 w c = do {
     require (\<not> (op < 0 \<or> op > RV_AND));
     require (\<not> (w \<and> \<not> has_word_form op));
     emit_w (rv_enc_r (if w then OP_OP32 else OP_OP) rd (fst (alu_enc ! nat op)) rs1 rs2
       (if snd (alu_enc ! nat op) then 0x20 else 0)) c }"

definition rv_alu_imm :: "int \<Rightarrow> int \<Rightarrow> int \<Rightarrow> int \<Rightarrow> bool \<Rightarrow> emitter \<Rightarrow> emitter option" where
  "rv_alu_imm op rd rs1 imm w c = do {
     require (op \<noteq> RV_SUB);
     require (\<not> (op = RV_SLL \<or> op = RV_SRL \<or> op = RV_SRA));
     require (\<not> (op < 0 \<or> op > RV_AND));
     require (\<not> (w \<and> \<not> has_word_form op));
     emit_w (rv_enc_i (if w then OP_IMM32 else OP_IMM) rd (fst (alu_enc ! nat op)) rs1 imm) c }"

definition rv_shift_imm :: "int \<Rightarrow> int \<Rightarrow> int \<Rightarrow> int \<Rightarrow> bool \<Rightarrow> int \<Rightarrow> emitter \<Rightarrow> emitter option" where
  "rv_shift_imm op rd rs1 amt w xlen c = do {
     require (\<not> (op \<noteq> RV_SLL \<and> op \<noteq> RV_SRL \<and> op \<noteq> RV_SRA));
     require (\<not> (w \<and> xlen \<noteq> 64));
     let bits = (if xlen = 64 \<and> \<not> w then 6 else 5 :: nat);
     require (\<not> (amt < 0 \<or> amt \<ge> 2 ^ bits));
     emit_w (rv_enc_r (if w then OP_IMM32 else OP_IMM) rd (fst (alu_enc ! nat op)) rs1 (amt AND 0x1f)
       ((if snd (alu_enc ! nat op) then 0x20 else 0) OR (drop_bit 5 amt AND 1))) c }"

definition muldiv_f3 :: "int list" where
  "muldiv_f3 = [0, 1, 2, 3, 4, 5, 6, 7]"

definition rv_muldiv :: "int \<Rightarrow> int \<Rightarrow> int \<Rightarrow> int \<Rightarrow> bool \<Rightarrow> emitter \<Rightarrow> emitter option" where
  "rv_muldiv op rd rs1 rs2 w c = do {
     require (\<not> (op < 0 \<or> op > RV_REMU));
     require (\<not> (w \<and> (op = RV_MULH \<or> op = RV_MULHSU \<or> op = RV_MULHU)));
     emit_w (rv_enc_r (if w then OP_OP32 else OP_OP) rd (muldiv_f3 ! nat op) rs1 rs2 1) c }"

definition rv_fence :: "u32 \<Rightarrow> u32 \<Rightarrow> emitter \<Rightarrow> emitter option" where
  "rv_fence pred succ c = do {
     require (\<not> (pred > 15 \<or> succ > 15));
     Some (rv_w (0x0f OR push_bit 24 (ucast pred) OR push_bit 20 (ucast succ)) c) }"

datatype rv_amo_op = RV_AMOADD | RV_AMOSWAP | RV_LR | RV_SC | RV_AMOXOR | RV_AMOOR | RV_AMOAND
  | RV_AMOMIN | RV_AMOMAX | RV_AMOMINU | RV_AMOMAXU

fun amo_funct5 :: "rv_amo_op \<Rightarrow> int" where
  "amo_funct5 RV_AMOADD = 0x00"
| "amo_funct5 RV_AMOSWAP = 0x01"
| "amo_funct5 RV_LR = 0x02"
| "amo_funct5 RV_SC = 0x03"
| "amo_funct5 RV_AMOXOR = 0x04"
| "amo_funct5 RV_AMOOR = 0x08"
| "amo_funct5 RV_AMOAND = 0x0C"
| "amo_funct5 RV_AMOMIN = 0x10"
| "amo_funct5 RV_AMOMAX = 0x14"
| "amo_funct5 RV_AMOMINU = 0x18"
| "amo_funct5 RV_AMOMAXU = 0x1C"

definition rv_amo :: "rv_amo_op \<Rightarrow> int \<Rightarrow> int \<Rightarrow> int \<Rightarrow> int \<Rightarrow> bool \<Rightarrow> emitter \<Rightarrow> emitter option" where
  "rv_amo op rd rs1 rs2 ord w c = do {
     require (\<not> (ord < 0 \<or> ord > 3));
     require (\<not> (op = RV_LR \<and> rs2 \<noteq> RV_ZERO));
     emit_w (rv_enc_r 0x2f rd (if w then 3 else 2) rs1 rs2 (push_bit 2 (amo_funct5 op) OR ord)) c }"

definition load_f3 :: "int \<Rightarrow> bool \<Rightarrow> int \<Rightarrow> int option" where
  "load_f3 nbytes sign xlen =
    (if nbytes = 1 then Some (if sign then 0 else 4)
     else if nbytes = 2 then Some (if sign then 1 else 5)
     else if nbytes = 4 then Some (if sign \<or> xlen = 32 then 2 else 6)
     else if nbytes = 8 then (if xlen \<noteq> 64 then None else Some 3)
     else None)"

definition rv_load :: "int \<Rightarrow> int \<Rightarrow> int \<Rightarrow> int \<Rightarrow> bool \<Rightarrow> int \<Rightarrow> emitter \<Rightarrow> emitter option" where
  "rv_load rd rs1 off nbytes sign xlen c = do {
     f3 \<leftarrow> load_f3 nbytes sign xlen;
     emit_w (rv_enc_i OP_LOAD rd f3 rs1 off) c }"

definition store_f3 :: "int \<Rightarrow> int \<Rightarrow> int option" where
  "store_f3 nbytes xlen =
    (if nbytes = 1 then Some 0 else if nbytes = 2 then Some 1 else if nbytes = 4 then Some 2
     else if nbytes = 8 then (if xlen \<noteq> 64 then None else Some 3)
     else None)"

definition rv_store :: "int \<Rightarrow> int \<Rightarrow> int \<Rightarrow> int \<Rightarrow> int \<Rightarrow> emitter \<Rightarrow> emitter option" where
  "rv_store rs2 rs1 off nbytes xlen c = do {
     f3 \<leftarrow> store_f3 nbytes xlen;
     emit_w (rv_enc_s OP_STORE f3 rs1 rs2 off) c }"

text \<open>The format field: single, double, or half for exactly 2.\<close>

definition fp_fmt :: "int \<Rightarrow> int" where
  "fp_fmt dbl = (if dbl = 2 then 2 else if dbl \<noteq> 0 then 1 else 0)"

definition fp_r :: "int \<Rightarrow> int \<Rightarrow> int \<Rightarrow> int \<Rightarrow> int \<Rightarrow> int \<Rightarrow> emitter \<Rightarrow> emitter option" where
  "fp_r f5 dbl rm rd rs1 rs2 = emit_w (rv_enc_r OP_FP rd rm rs1 rs2 (push_bit 2 f5 OR fp_fmt dbl))"

definition rv_fp_r :: "int \<Rightarrow> int \<Rightarrow> int \<Rightarrow> int \<Rightarrow> int \<Rightarrow> int \<Rightarrow> emitter \<Rightarrow> emitter option" where
  "rv_fp_r f5 dbl rm rd rs1 rs2 = fp_r f5 dbl rm rd rs1 rs2"

definition rv_fp_r4 :: "int \<Rightarrow> int \<Rightarrow> int \<Rightarrow> int \<Rightarrow> int \<Rightarrow> int \<Rightarrow> int \<Rightarrow> emitter \<Rightarrow> emitter" where
  "rv_fp_r4 op dbl rm rd rs1 rs2 rs3 =
    rv_w (ul op OR push_bit 7 (ul rd) OR push_bit 12 (ul rm) OR push_bit 15 (ul rs1) OR
      push_bit 20 (ul rs2) OR push_bit 25 (ul (fp_fmt dbl)) OR push_bit 27 (ul rs3))"

definition rv_fload :: "int \<Rightarrow> int \<Rightarrow> int \<Rightarrow> bool \<Rightarrow> emitter \<Rightarrow> emitter option" where
  "rv_fload frd rs1 off dbl = emit_w (rv_enc_i OP_LOAD_FP frd (if dbl then 3 else 2) rs1 off)"

definition rv_fstore :: "int \<Rightarrow> int \<Rightarrow> int \<Rightarrow> bool \<Rightarrow> emitter \<Rightarrow> emitter option" where
  "rv_fstore frs2 rs1 off dbl = emit_w (rv_enc_s OP_STORE_FP (if dbl then 3 else 2) rs1 frs2 off)"

definition rv_farith :: "int \<Rightarrow> int \<Rightarrow> int \<Rightarrow> int \<Rightarrow> int \<Rightarrow> emitter \<Rightarrow> emitter option" where
  "rv_farith op frd frs1 frs2 dbl c = do {
     require (op = 0x00 \<or> op = 0x01 \<or> op = 0x02 \<or> op = 0x03);
     fp_r op dbl RM_DYN frd frs1 frs2 c }"

definition rv_fsqrt :: "int \<Rightarrow> int \<Rightarrow> int \<Rightarrow> emitter \<Rightarrow> emitter option" where
  "rv_fsqrt frd frs1 dbl = fp_r 0x0b dbl RM_DYN frd frs1 0"

definition rv_fsgnj :: "int \<Rightarrow> int \<Rightarrow> int \<Rightarrow> int \<Rightarrow> int \<Rightarrow> emitter \<Rightarrow> emitter option" where
  "rv_fsgnj kind frd frs1 frs2 dbl c = do {
     require (\<not> (kind < 0 \<or> kind > 2));
     fp_r 0x04 dbl kind frd frs1 frs2 c }"

definition rv_fmv :: "int \<Rightarrow> int \<Rightarrow> int \<Rightarrow> emitter \<Rightarrow> emitter option" where
  "rv_fmv frd frs dbl = rv_fsgnj 0 frd frs frs dbl"

definition rv_fcmp :: "int \<Rightarrow> int \<Rightarrow> int \<Rightarrow> int \<Rightarrow> int \<Rightarrow> emitter \<Rightarrow> emitter option" where
  "rv_fcmp kind rd frs1 frs2 dbl c = do {
     require (\<not> (kind < 0 \<or> kind > 2));
     fp_r 0x14 dbl kind rd frs1 frs2 c }"

definition rv_fcvt_to_int :: "int \<Rightarrow> int \<Rightarrow> int \<Rightarrow> int \<Rightarrow> emitter \<Rightarrow> emitter option" where
  "rv_fcvt_to_int rd frs1 ity dbl c = do {
     require (\<not> (ity < 0 \<or> ity > 3));
     fp_r 0x18 dbl RM_RTZ rd frs1 ity c }"

definition rv_fcvt_from_int :: "int \<Rightarrow> int \<Rightarrow> int \<Rightarrow> int \<Rightarrow> emitter \<Rightarrow> emitter option" where
  "rv_fcvt_from_int frd rs1 ity dbl c = do {
     require (\<not> (ity < 0 \<or> ity > 3));
     fp_r 0x1a dbl (if dbl \<noteq> 0 \<and> ity \<le> 1 then RM_RNE else RM_DYN) frd rs1 ity c }"

definition rv_fcvt_fp :: "int \<Rightarrow> int \<Rightarrow> bool \<Rightarrow> emitter \<Rightarrow> emitter option" where
  "rv_fcvt_fp frd frs1 to_dbl =
    (if to_dbl then fp_r 0x08 1 RM_RNE frd frs1 0 else fp_r 0x08 0 RM_DYN frd frs1 1)"

definition rv_fmv_to_x :: "int \<Rightarrow> int \<Rightarrow> int \<Rightarrow> emitter \<Rightarrow> emitter option" where
  "rv_fmv_to_x rd frs1 dbl = fp_r 0x1c dbl 0 rd frs1 0"

definition rv_fmv_from_x :: "int \<Rightarrow> int \<Rightarrow> int \<Rightarrow> emitter \<Rightarrow> emitter option" where
  "rv_fmv_from_x frd rs1 dbl = fp_r 0x1e dbl 0 frd rs1 0"

section \<open>Control flow\<close>

text \<open>A sequence emitted with compression off, the flag restored afterwards.  The result is
  the offset the sequence starts at.\<close>

definition uncompressed :: "(emitter \<Rightarrow> emitter option) \<Rightarrow> emitter \<Rightarrow> (int \<times> emitter) option" where
  "uncompressed emit c = do {
     c1 \<leftarrow> emit (c\<lparr>g_rvc := False\<rparr>);
     Some (code_len c, c1\<lparr>g_rvc := g_rvc c\<rparr>) }"

definition rv_b_placeholder :: "int \<Rightarrow> int \<Rightarrow> int \<Rightarrow> emitter \<Rightarrow> (int \<times> emitter) option" where
  "rv_b_placeholder cond rs1 rs2 = uncompressed (emit_w (rv_enc_b OP_BRANCH cond rs1 rs2 0))"

definition rv_patch_b :: "int \<Rightarrow> int \<Rightarrow> emitter \<Rightarrow> emitter option" where
  "rv_patch_b at target c = do {
     w \<leftarrow> code_word_at c at;
     e \<leftarrow> rv_enc_b 0 0 0 0 (target - at);
     code_patch32 at ((w AND NOT 0xfe000f80) OR e) c }"

definition rv_j_placeholder :: "int \<Rightarrow> emitter \<Rightarrow> (int \<times> emitter) option" where
  "rv_j_placeholder rd = uncompressed (emit_w (rv_enc_j OP_JAL rd 0))"

definition rv_patch_j :: "int \<Rightarrow> int \<Rightarrow> emitter \<Rightarrow> emitter option" where
  "rv_patch_j at target c = do {
     w \<leftarrow> code_word_at c at;
     e \<leftarrow> rv_enc_j 0 0 (target - at);
     code_patch32 at ((w AND NOT 0xfffff000) OR e) c }"

definition rv_c_placeholder :: "emitter \<Rightarrow> int \<times> emitter" where
  "rv_c_placeholder c = (code_len c, code_u16 0x0001 c)"

text \<open>The two bytes a compressed patch stores.\<close>

definition code_patch16 :: "int \<Rightarrow> u32 \<Rightarrow> emitter \<Rightarrow> emitter option" where
  "code_patch16 off h c =
    (if off < 0 \<or> off + 2 > code_len c then None
     else Some (c\<lparr>code_p := (code_p c)[nat off := ucast (h AND 0xff), nat off + 1 := ucast (drop_bit 8 h)]\<rparr>))"

definition cj_bits :: "u32 \<Rightarrow> u32" where
  "cj_bits o0 =
    push_bit 12 (drop_bit 11 o0 AND 1) OR push_bit 11 (drop_bit 4 o0 AND 1) OR
    push_bit 9 (drop_bit 8 o0 AND 3) OR push_bit 8 (drop_bit 10 o0 AND 1) OR
    push_bit 7 (drop_bit 6 o0 AND 1) OR push_bit 6 (drop_bit 7 o0 AND 1) OR
    push_bit 3 (drop_bit 1 o0 AND 7) OR push_bit 2 (drop_bit 5 o0 AND 1)"

text \<open>The result says whether the displacement fitted (and the bytes were written).\<close>

definition rv_patch_cj :: "int \<Rightarrow> int \<Rightarrow> emitter \<Rightarrow> (bool \<times> emitter) option" where
  "rv_patch_cj at target c =
    (let off = target - at; o0 = cu off AND 0xfff
     in if off < - 2048 \<or> off > 2046 \<or> off AND 1 \<noteq> 0 then Some (False, c)
        else do { c1 \<leftarrow> code_patch16 at (0xa001 OR cj_bits o0) c; Some (True, c1) })"

definition cb_bits :: "u32 \<Rightarrow> int \<Rightarrow> u32" where
  "cb_bits o0 rs1 =
    push_bit 12 (drop_bit 8 o0 AND 1) OR push_bit 10 (drop_bit 3 o0 AND 3) OR
    push_bit 7 (cu (rs1 - 8)) OR push_bit 5 (drop_bit 6 o0 AND 3) OR
    push_bit 3 (drop_bit 1 o0 AND 3) OR push_bit 2 (drop_bit 5 o0 AND 1)"

definition rv_patch_cb :: "int \<Rightarrow> bool \<Rightarrow> int \<Rightarrow> int \<Rightarrow> emitter \<Rightarrow> (bool \<times> emitter) option" where
  "rv_patch_cb at ne rs1 target c =
    (let off = target - at; o0 = cu off AND 0x1ff
     in if off < - 256 \<or> off > 254 \<or> off AND 1 \<noteq> 0 \<or> rs1 < 8 \<or> rs1 > 15 then Some (False, c)
        else do {
          c1 \<leftarrow> code_patch16 at (push_bit 13 (if ne then 7 else 6) OR 1 OR cb_bits o0 rs1) c;
          Some (True, c1) })"

definition rv_patch_b_checked :: "int \<Rightarrow> int \<Rightarrow> emitter \<Rightarrow> (bool \<times> emitter) option" where
  "rv_patch_b_checked at target c =
    (let off = target - at
     in if off < - 4096 \<or> off > 4094 \<or> off AND 1 \<noteq> 0 then Some (False, c)
        else do { c1 \<leftarrow> rv_patch_b at target c; Some (True, c1) })"

definition rv_jalr :: "int \<Rightarrow> int \<Rightarrow> int \<Rightarrow> emitter \<Rightarrow> emitter option" where
  "rv_jalr rd rs1 off = emit_w (rv_enc_i OP_JALR rd 0 rs1 off)"

definition rv_ret :: "emitter \<Rightarrow> emitter option" where
  "rv_ret = rv_jalr RV_ZERO RV_RA 0"

definition rv_xret :: "bool \<Rightarrow> emitter \<Rightarrow> emitter option" where
  "rv_xret supervisor = emit_w (rv_enc_i OP_SYSTEM RV_ZERO 0 RV_ZERO (if supervisor then 0x102 else 0x302))"

definition rv_got_pair :: "int \<Rightarrow> int \<Rightarrow> emitter \<Rightarrow> (int \<times> emitter) option" where
  "rv_got_pair rd xlen = uncompressed (\<lambda>c. do {
     c1 \<leftarrow> rv_auipc rd 0 c;
     rv_load rd rd 0 (xlen div 8) False xlen c1 })"

definition rv_pcrel_pair :: "int \<Rightarrow> emitter \<Rightarrow> (int \<times> emitter) option" where
  "rv_pcrel_pair rd = uncompressed (\<lambda>c. do {
     c1 \<leftarrow> rv_auipc rd 0 c;
     rv_alu_imm RV_ADD rd rd 0 False c1 })"

definition rv_patch_pcrel_pair :: "int \<Rightarrow> int \<Rightarrow> emitter \<Rightarrow> emitter option" where
  "rv_patch_pcrel_pair at target c = do {
     let d = target - at;
     w0 \<leftarrow> code_word_at c at;
     e0 \<leftarrow> rv_enc_u 0 0 (hi20_of d);
     c1 \<leftarrow> code_patch32 at ((w0 AND 0xfff) OR e0) c;
     w1 \<leftarrow> code_word_at c1 (at + 4);
     e1 \<leftarrow> rv_enc_i 0 0 0 0 (lo12_of d);
     code_patch32 (at + 4) ((w1 AND 0xfffff) OR e1) c1 }"

definition rv_call_placeholder :: "emitter \<Rightarrow> (int \<times> emitter) option" where
  "rv_call_placeholder = uncompressed (\<lambda>c. do {
     c1 \<leftarrow> emit_w (rv_enc_u OP_AUIPC RV_RA 0) c;
     emit_w (rv_enc_i OP_JALR RV_RA 0 RV_RA 0) c1 })"

definition rv_tail_placeholder :: "emitter \<Rightarrow> (int \<times> emitter) option" where
  "rv_tail_placeholder = uncompressed (\<lambda>c. do {
     c1 \<leftarrow> emit_w (rv_enc_u OP_AUIPC RV_T1 0) c;
     emit_w (rv_enc_i OP_JALR RV_ZERO 0 RV_T1 0) c1 })"

definition rv_far_placeholder :: "int \<Rightarrow> emitter \<Rightarrow> (int \<times> emitter) option" where
  "rv_far_placeholder rd = uncompressed (\<lambda>c. do {
     c1 \<leftarrow> emit_w (rv_enc_u OP_AUIPC rd 0) c;
     emit_w (rv_enc_i OP_JALR RV_ZERO 0 rd 0) c1 })"

section \<open>Traps and bit manipulation\<close>

definition enc_csr :: "int \<Rightarrow> int \<Rightarrow> int \<Rightarrow> u32 \<Rightarrow> u64 option" where
  "enc_csr f3 rd rs1 csr = do {
     require (\<not> (csr > 0xfff));
     Some (ul OP_SYSTEM OR push_bit 7 (ul rd) OR push_bit 12 (ul f3) OR push_bit 15 (ul rs1) OR
           push_bit 20 (ucast csr)) }"

definition rv_unimp :: "emitter \<Rightarrow> emitter option" where
  "rv_unimp = emit_w (enc_csr 1 RV_ZERO RV_ZERO 0xc00)"

definition rv_ebreak :: "emitter \<Rightarrow> emitter option" where
  "rv_ebreak = emit_w (enc_csr 0 RV_ZERO RV_ZERO 1)"

datatype rv_zb =
    RV_ZB_ANDN | RV_ZB_ORN | RV_ZB_XNOR | RV_ZB_MIN | RV_ZB_MINU | RV_ZB_MAX | RV_ZB_MAXU
  | RV_ZB_SH1ADD | RV_ZB_SH2ADD | RV_ZB_SH3ADD | RV_ZB_ADDUW | RV_ZB_SH1ADDUW | RV_ZB_SH2ADDUW
  | RV_ZB_SH3ADDUW | RV_ZB_BCLR | RV_ZB_BEXT | RV_ZB_BINV | RV_ZB_BSET | RV_ZB_ROL | RV_ZB_ROR
  | RV_ZB_ROLW | RV_ZB_RORW
  | RV_ZB_CLZ | RV_ZB_CTZ | RV_ZB_CPOP | RV_ZB_SEXTB | RV_ZB_SEXTH | RV_ZB_REV8 | RV_ZB_ORCB | RV_ZB_ZEXTH
  | RV_ZB_BCLRI | RV_ZB_BSETI | RV_ZB_BINVI | RV_ZB_BEXTI | RV_ZB_RORI | RV_ZB_SLLIUW

text \<open>The tables give opcode, funct3 and funct7; a number the C table has no row for is
  outside the array there, and \<open>None\<close> here.\<close>

fun zb_tab :: "rv_zb \<Rightarrow> (int \<times> int \<times> int) option" where
  "zb_tab RV_ZB_ANDN = Some (0x33, 7, 0x20)"
| "zb_tab RV_ZB_ORN = Some (0x33, 6, 0x20)"
| "zb_tab RV_ZB_XNOR = Some (0x33, 4, 0x20)"
| "zb_tab RV_ZB_MIN = Some (0x33, 4, 0x05)"
| "zb_tab RV_ZB_MINU = Some (0x33, 5, 0x05)"
| "zb_tab RV_ZB_MAX = Some (0x33, 6, 0x05)"
| "zb_tab RV_ZB_MAXU = Some (0x33, 7, 0x05)"
| "zb_tab RV_ZB_SH1ADD = Some (0x33, 2, 0x10)"
| "zb_tab RV_ZB_SH2ADD = Some (0x33, 4, 0x10)"
| "zb_tab RV_ZB_SH3ADD = Some (0x33, 6, 0x10)"
| "zb_tab RV_ZB_ADDUW = Some (0x3b, 0, 0x04)"
| "zb_tab RV_ZB_SH1ADDUW = Some (0x3b, 2, 0x10)"
| "zb_tab RV_ZB_SH2ADDUW = Some (0x3b, 4, 0x10)"
| "zb_tab RV_ZB_SH3ADDUW = Some (0x3b, 6, 0x10)"
| "zb_tab RV_ZB_BCLR = Some (0x33, 1, 0x24)"
| "zb_tab RV_ZB_BEXT = Some (0x33, 5, 0x24)"
| "zb_tab RV_ZB_BINV = Some (0x33, 1, 0x34)"
| "zb_tab RV_ZB_BSET = Some (0x33, 1, 0x14)"
| "zb_tab RV_ZB_ROL = Some (0x33, 1, 0x30)"
| "zb_tab RV_ZB_ROR = Some (0x33, 5, 0x30)"
| "zb_tab RV_ZB_ROLW = Some (0x3b, 1, 0x30)"
| "zb_tab RV_ZB_RORW = Some (0x3b, 5, 0x30)"
| "zb_tab _ = None"

definition rv_zb_r :: "rv_zb \<Rightarrow> int \<Rightarrow> int \<Rightarrow> int \<Rightarrow> emitter \<Rightarrow> emitter option" where
  "rv_zb_r which rd rs1 rs2 c = do {
     (op, f3, f7) \<leftarrow> zb_tab which;
     emit_w (rv_enc_r op rd f3 rs1 rs2 f7) c }"

fun zb_unary_imm :: "rv_zb \<Rightarrow> int option" where
  "zb_unary_imm RV_ZB_CLZ = Some 0x600"
| "zb_unary_imm RV_ZB_CTZ = Some 0x601"
| "zb_unary_imm RV_ZB_CPOP = Some 0x602"
| "zb_unary_imm RV_ZB_SEXTB = Some 0x604"
| "zb_unary_imm RV_ZB_SEXTH = Some 0x605"
| "zb_unary_imm _ = None"

definition rv_zb_unary :: "rv_zb \<Rightarrow> int \<Rightarrow> int \<Rightarrow> bool \<Rightarrow> int \<Rightarrow> emitter \<Rightarrow> emitter option" where
  "rv_zb_unary which rd rs w32 xlen c =
    (if which = RV_ZB_REV8 then emit_w (rv_enc_i 0x13 rd 5 rs (if xlen = 64 then 0x6b8 else 0x698)) c
     else if which = RV_ZB_ORCB then emit_w (rv_enc_i 0x13 rd 5 rs 0x287) c
     else if which = RV_ZB_ZEXTH then emit_w (rv_enc_r (if xlen = 64 then 0x3b else 0x33) rd 4 rs 0 0x04) c
     else do {
       imm \<leftarrow> zb_unary_imm which;
       emit_w (rv_enc_i (if w32 \<and> xlen = 64 then 0x1b else 0x13) rd 1 rs imm) c })"

fun zb_imm_tab :: "rv_zb \<Rightarrow> (int \<times> int \<times> int) option" where
  "zb_imm_tab RV_ZB_BCLRI = Some (0x13, 1, 0x12)"
| "zb_imm_tab RV_ZB_BSETI = Some (0x13, 1, 0x0a)"
| "zb_imm_tab RV_ZB_BINVI = Some (0x13, 1, 0x1a)"
| "zb_imm_tab RV_ZB_BEXTI = Some (0x13, 5, 0x12)"
| "zb_imm_tab RV_ZB_RORI = Some (0x13, 5, 0x18)"
| "zb_imm_tab RV_ZB_SLLIUW = Some (0x1b, 1, 0x02)"
| "zb_imm_tab _ = None"

definition rv_zb_imm :: "rv_zb \<Rightarrow> int \<Rightarrow> int \<Rightarrow> int \<Rightarrow> bool \<Rightarrow> emitter \<Rightarrow> emitter option" where
  "rv_zb_imm which rd rs amt w32 c = do {
     (op, f3, f6) \<leftarrow> zb_imm_tab which;
     emit_w (rv_enc_i (if which = RV_ZB_RORI \<and> w32 then 0x1b else op) rd f3 rs (push_bit 6 f6 OR (amt AND 63))) c }"

end
