(* ===== verification/Rvc_Expand.thy ===== *)
theory Rvc_Expand
  imports Emb_Prelude
begin

text \<open>
  The compressed RISC-V instructions of the simulator's core: \<open>rvc_expand\<close>
  (\<^verbatim>\<open>tools/embsim/riscv.c\<close>) gives the 32-bit instruction a halfword stands for, or 0.
  A \<open>s32\<close> of the source is its two's complement word.
\<close>

definition enc_i :: "u32 \<Rightarrow> u32 \<Rightarrow> u32 \<Rightarrow> u32 \<Rightarrow> u32 \<Rightarrow> u32" where
  "enc_i op rd f3 rs1 imm =
    push_bit 20 (imm AND 0xfff) OR push_bit 15 rs1 OR push_bit 12 f3 OR push_bit 7 rd OR op"

definition enc_s :: "u32 \<Rightarrow> u32 \<Rightarrow> u32 \<Rightarrow> u32 \<Rightarrow> u32 \<Rightarrow> u32" where
  "enc_s op f3 rs1 rs2 m =
    push_bit 25 (drop_bit 5 m AND 0x7f) OR push_bit 20 rs2 OR push_bit 15 rs1 OR push_bit 12 f3 OR
    push_bit 7 (m AND 31) OR op"

definition enc_r :: "u32 \<Rightarrow> u32 \<Rightarrow> u32 \<Rightarrow> u32 \<Rightarrow> u32 \<Rightarrow> u32 \<Rightarrow> u32" where
  "enc_r op rd f3 rs1 rs2 f7 =
    push_bit 25 f7 OR push_bit 20 rs2 OR push_bit 15 rs1 OR push_bit 12 f3 OR push_bit 7 rd OR op"

definition enc_b :: "u32 \<Rightarrow> u32 \<Rightarrow> u32 \<Rightarrow> u32 \<Rightarrow> u32" where
  "enc_b f3 rs1 rs2 m =
    push_bit 31 (drop_bit 12 m AND 1) OR push_bit 25 (drop_bit 5 m AND 0x3f) OR push_bit 20 rs2 OR
    push_bit 15 rs1 OR push_bit 12 f3 OR push_bit 8 (drop_bit 1 m AND 15) OR
    push_bit 7 (drop_bit 11 m AND 1) OR 0x63"

definition enc_j :: "u32 \<Rightarrow> u32 \<Rightarrow> u32" where
  "enc_j rd m =
    push_bit 31 (drop_bit 20 m AND 1) OR push_bit 21 (drop_bit 1 m AND 0x3ff) OR
    push_bit 20 (drop_bit 11 m AND 1) OR push_bit 12 (drop_bit 12 m AND 0xff) OR push_bit 7 rd OR 0x6f"

definition hbit :: "u32 \<Rightarrow> nat \<Rightarrow> u32" where
  "hbit h n = drop_bit n h AND 1"

text \<open>\<open>(s32)(v << k) >> k\<close>.\<close>

definition sign_from :: "nat \<Rightarrow> u32 \<Rightarrow> u32" where
  "sign_from k v = signed_drop_bit k (push_bit k v)"

text \<open>The immediates of the forms, by what the code calls them.\<close>

definition rvc_ci :: "u32 \<Rightarrow> u32" where
  "rvc_ci h = sign_from 26 (push_bit 5 (hbit h 12) OR (drop_bit 2 h AND 31))"

definition rvc_uld :: "u32 \<Rightarrow> u32" where
  "rvc_uld h = push_bit 3 (drop_bit 10 h AND 7) OR push_bit 6 (drop_bit 5 h AND 3)"

definition rvc_ulw :: "u32 \<Rightarrow> u32" where
  "rvc_ulw h = push_bit 3 (drop_bit 10 h AND 7) OR push_bit 2 (hbit h 6) OR push_bit 6 (hbit h 5)"

definition rvc_addi4spn :: "u32 \<Rightarrow> u32" where
  "rvc_addi4spn h =
    push_bit 4 (drop_bit 11 h AND 3) OR push_bit 6 (drop_bit 7 h AND 15) OR push_bit 2 (hbit h 6) OR
    push_bit 3 (hbit h 5)"

definition rvc_addi16sp :: "u32 \<Rightarrow> u32" where
  "rvc_addi16sp h = sign_from 22
    (push_bit 9 (hbit h 12) OR push_bit 4 (hbit h 6) OR push_bit 6 (hbit h 5) OR
     push_bit 7 (drop_bit 3 h AND 3) OR push_bit 5 (hbit h 2))"

definition rvc_sh :: "u32 \<Rightarrow> u32" where
  "rvc_sh h = push_bit 5 (hbit h 12) OR (drop_bit 2 h AND 31)"

definition rvc_cj :: "u32 \<Rightarrow> u32" where
  "rvc_cj h = sign_from 20
    (push_bit 11 (hbit h 12) OR push_bit 4 (hbit h 11) OR push_bit 8 (drop_bit 9 h AND 3) OR
     push_bit 10 (hbit h 8) OR push_bit 6 (hbit h 7) OR push_bit 7 (hbit h 6) OR
     push_bit 1 (drop_bit 3 h AND 7) OR push_bit 5 (hbit h 2))"

definition rvc_cb :: "u32 \<Rightarrow> u32" where
  "rvc_cb h = sign_from 23
    (push_bit 8 (hbit h 12) OR push_bit 3 (drop_bit 10 h AND 3) OR push_bit 6 (drop_bit 5 h AND 3) OR
     push_bit 1 (drop_bit 3 h AND 3) OR push_bit 5 (hbit h 2))"

definition rvc_sld :: "u32 \<Rightarrow> u32" where
  "rvc_sld h = push_bit 5 (hbit h 12) OR push_bit 3 (drop_bit 5 h AND 3) OR push_bit 6 (drop_bit 2 h AND 7)"

definition rvc_slw :: "u32 \<Rightarrow> u32" where
  "rvc_slw h = push_bit 5 (hbit h 12) OR push_bit 2 (drop_bit 4 h AND 7) OR push_bit 6 (drop_bit 2 h AND 3)"

definition rvc_ssd :: "u32 \<Rightarrow> u32" where
  "rvc_ssd h = push_bit 3 (drop_bit 10 h AND 7) OR push_bit 6 (drop_bit 7 h AND 7)"

definition rvc_ssw :: "u32 \<Rightarrow> u32" where
  "rvc_ssw h = push_bit 2 (drop_bit 9 h AND 15) OR push_bit 6 (drop_bit 7 h AND 3)"

text \<open>The three quadrants.\<close>

definition rvc_expand0 :: "u32 \<Rightarrow> nat \<Rightarrow> u32" where
  "rvc_expand0 h xlen =
    (let f3 = drop_bit 13 h; rdp = (drop_bit 2 h AND 7) + 8; rs1p = (drop_bit 7 h AND 7) + 8
     in if f3 = 0 then (let imm = rvc_addi4spn h in if imm = 0 then 0 else enc_i 0x13 rdp 0 2 imm)
        else if f3 = 1 then enc_i 0x07 rdp 3 rs1p (rvc_uld h)
        else if f3 = 2 then enc_i 0x03 rdp 2 rs1p (rvc_ulw h)
        else if f3 = 3 then
          (if xlen = 32 then enc_i 0x07 rdp 2 rs1p (rvc_ulw h) else enc_i 0x03 rdp 3 rs1p (rvc_uld h))
        else if f3 = 5 then enc_s 0x27 3 rs1p rdp (rvc_uld h)
        else if f3 = 6 then enc_s 0x23 2 rs1p rdp (rvc_ulw h)
        else if f3 = 7 then
          (if xlen = 32 then enc_s 0x27 2 rs1p rdp (rvc_ulw h) else enc_s 0x23 3 rs1p rdp (rvc_uld h))
        else 0)"

definition rvc_misc_alu :: "u32 \<Rightarrow> nat \<Rightarrow> u32" where
  "rvc_misc_alu h xlen =
    (let rdp = (drop_bit 2 h AND 7) + 8; rs1p = (drop_bit 7 h AND 7) + 8; sel = drop_bit 10 h AND 3;
         f2 = drop_bit 5 h AND 3
     in if sel = 0 then
          (if xlen = 32 \<and> hbit h 12 \<noteq> 0 then 0 else enc_i 0x13 rs1p 5 rs1p (rvc_sh h))
        else if sel = 1 then
          (if xlen = 32 \<and> hbit h 12 \<noteq> 0 then 0 else enc_i 0x13 rs1p 5 rs1p (rvc_sh h OR 0x400))
        else if sel = 2 then enc_i 0x13 rs1p 7 rs1p (rvc_ci h)
        else if hbit h 12 = 0 then
          enc_r 0x33 rs1p ([0, 4, 6, 7] ! unat f2) rs1p rdp (if f2 \<noteq> 0 then 0 else 0x20)
        else if xlen = 32 \<or> f2 > 1 then 0
        else enc_r 0x3b rs1p 0 rs1p rdp (if f2 \<noteq> 0 then 0 else 0x20))"

definition rvc_expand1 :: "u32 \<Rightarrow> nat \<Rightarrow> u32" where
  "rvc_expand1 h xlen =
    (let f3 = drop_bit 13 h; rd = drop_bit 7 h AND 31; rs1p = (drop_bit 7 h AND 7) + 8; ci = rvc_ci h
     in if f3 = 0 then enc_i 0x13 rd 0 rd ci
        else if f3 = 1 then
          (if xlen = 32 then enc_j 1 (rvc_cj h) else if rd = 0 then 0 else enc_i 0x1b rd 0 rd ci)
        else if f3 = 2 then enc_i 0x13 rd 0 0 ci
        else if f3 = 3 then
          (if rd = 2 then (let imm = rvc_addi16sp h in if imm = 0 then 0 else enc_i 0x13 2 0 2 imm)
           else if ci = 0 then 0 else push_bit 12 ci OR push_bit 7 rd OR 0x37)
        else if f3 = 4 then rvc_misc_alu h xlen
        else if f3 = 5 then enc_j 0 (rvc_cj h)
        else enc_b (if f3 = 6 then 0 else 1) rs1p 0 (rvc_cb h))"

definition rvc_expand2 :: "u32 \<Rightarrow> nat \<Rightarrow> u32" where
  "rvc_expand2 h xlen =
    (let f3 = drop_bit 13 h; rd = drop_bit 7 h AND 31; rs2 = drop_bit 2 h AND 31
     in if f3 = 0 then
          (if xlen = 32 \<and> hbit h 12 \<noteq> 0 then 0 else enc_i 0x13 rd 1 rd (rvc_sh h))
        else if f3 = 1 then enc_i 0x07 rd 3 2 (rvc_sld h)
        else if f3 = 2 then (if rd = 0 then 0 else enc_i 0x03 rd 2 2 (rvc_slw h))
        else if f3 = 3 then
          (if xlen = 32 then enc_i 0x07 rd 2 2 (rvc_slw h)
           else if rd = 0 then 0 else enc_i 0x03 rd 3 2 (rvc_sld h))
        else if f3 = 4 then
          (if hbit h 12 = 0 then
             (if rs2 = 0 then (if rd = 0 then 0 else enc_i 0x67 0 0 rd 0) else enc_r 0x33 rd 0 0 rs2 0)
           else if rs2 = 0 then (if rd = 0 then 0x00100073 else enc_i 0x67 1 0 rd 0)
           else enc_r 0x33 rd 0 rd rs2 0)
        else if f3 = 5 then enc_s 0x27 3 2 rs2 (rvc_ssd h)
        else if f3 = 6 then enc_s 0x23 2 2 rs2 (rvc_ssw h)
        else if xlen = 32 then enc_s 0x27 2 2 rs2 (rvc_ssw h) else enc_s 0x23 3 2 rs2 (rvc_ssd h))"

definition rvc_expand :: "u32 \<Rightarrow> nat \<Rightarrow> u32" where
  "rvc_expand h xlen =
    (let q = h AND 3
     in if q = 0 then rvc_expand0 h xlen
        else if q = 1 then rvc_expand1 h xlen
        else if q = 2 then rvc_expand2 h xlen
        else 0)"

end
