(* ===== verification/Rv_Bits.thy ===== *)
theory Rv_Bits
  imports Rv_Emit Rvc_Expand
begin

text \<open>
  Instruction words bit by bit: what the emitter's field extractions, range checks
  and short forms say about the bits of a 32-bit instruction, and the conditions of
  the expander as conditions on bits.
\<close>

lemma all_less_32:
  "(\<forall>k < 32. P k) \<longleftrightarrow> P 0 \<and> P 1 \<and> P 2 \<and> P 3 \<and> P 4 \<and> P 5 \<and> P 6 \<and> P 7 \<and> P 8 \<and> P 9 \<and> P 10 \<and> P 11 \<and> P 12 \<and>
    P 13 \<and> P 14 \<and> P 15 \<and> P 16 \<and> P 17 \<and> P 18 \<and> P 19 \<and> P 20 \<and> P 21 \<and> P 22 \<and> P 23 \<and> P 24 \<and> P 25 \<and> P 26 \<and>
    P 27 \<and> P 28 \<and> P 29 \<and> P 30 \<and> P (31 :: nat)"
  by (simp add: numeral_eq_Suc All_less_Suc2)

lemma word32_bits:
  "(a :: u32) = b \<longleftrightarrow>
    (bit a 0 = bit b 0 \<and> bit a 1 = bit b 1 \<and> bit a 2 = bit b 2 \<and> bit a 3 = bit b 3 \<and> bit a 4 = bit b 4 \<and>
     bit a 5 = bit b 5 \<and> bit a 6 = bit b 6 \<and> bit a 7 = bit b 7 \<and> bit a 8 = bit b 8 \<and> bit a 9 = bit b 9 \<and>
     bit a 10 = bit b 10 \<and> bit a 11 = bit b 11 \<and> bit a 12 = bit b 12 \<and> bit a 13 = bit b 13 \<and> bit a 14 = bit b 14 \<and>
     bit a 15 = bit b 15 \<and> bit a 16 = bit b 16 \<and> bit a 17 = bit b 17 \<and> bit a 18 = bit b 18 \<and> bit a 19 = bit b 19 \<and>
     bit a 20 = bit b 20 \<and> bit a 21 = bit b 21 \<and> bit a 22 = bit b 22 \<and> bit a 23 = bit b 23 \<and> bit a 24 = bit b 24 \<and>
     bit a 25 = bit b 25 \<and> bit a 26 = bit b 26 \<and> bit a 27 = bit b 27 \<and> bit a 28 = bit b 28 \<and> bit a 29 = bit b 29 \<and>
     bit a 30 = bit b 30 \<and> bit a 31 = bit b 31)"
proof -
  have "a = b \<longleftrightarrow> (\<forall>k < 32. bit a k = bit b k)"
    by (auto intro: bit_word_eqI)
  then show ?thesis by (simp only: all_less_32)
qed

section \<open>Bits of the fields\<close>

lemma bit_ucast_32_64: "bit (ucast (i :: u32) :: u64) k \<longleftrightarrow> bit i k"
  by (auto simp: bit_simps dest: bit_imp_le_length)

lemma bit_fld: "bit (fld (ucast (i :: u32)) n m) k \<longleftrightarrow> bit i (n + k) \<and> bit m k"
  by (auto simp: fld_def bit_simps dest: bit_imp_le_length)

lemma fld_nonneg: "0 \<le> fld w n m"
  by (simp add: fld_def)

lemma bit_cu: "bit (cu x) k \<longleftrightarrow> k < 32 \<and> bit x k"
  by (simp add: cu_def bit_simps)

lemma sign_12:
  assumes "0 \<le> i" "i < 0x1000"
  shows "(if i AND 0x800 \<noteq> 0 then i - 0x1000 else i) = signed_take_bit 11 (i :: int)"
proof -
  have "i AND 0x800 = 0 \<longleftrightarrow> \<not> bit i 11"
    using and_exp_eq_0_iff_not_bit [of i 11] by simp
  moreover have "take_bit 12 i = i"
    using assms by (simp add: take_bit_int_eq_self)
  ultimately show ?thesis
    by (simp add: signed_take_bit_eq_take_bit_minus)
qed

lemma bit_masks:
  "bit (0xfff :: u64) k \<longleftrightarrow> k < 12" "bit (0x7f :: u64) k \<longleftrightarrow> k < 7" "bit (0x1f :: u64) k \<longleftrightarrow> k < 5"
  "bit (0xfff :: int) k \<longleftrightarrow> k < 12" "bit (0x7f :: int) k \<longleftrightarrow> k < 7" "bit (0x1f :: int) k \<longleftrightarrow> k < 5"
proof -
  have w: "(0xfff :: u64) = mask 12" "(0x7f :: u64) = mask 7" "(0x1f :: u64) = mask 5"
    and n: "(0xfff :: int) = mask 12" "(0x7f :: int) = mask 7" "(0x1f :: int) = mask 5"
    by (simp_all add: mask_eq_exp_minus_1)
  show "bit (0xfff :: u64) k \<longleftrightarrow> k < 12" "bit (0x7f :: u64) k \<longleftrightarrow> k < 7" "bit (0x1f :: u64) k \<longleftrightarrow> k < 5"
    unfolding w by (simp_all only: bit_mask_iff) auto
  show "bit (0xfff :: int) k \<longleftrightarrow> k < 12" "bit (0x7f :: int) k \<longleftrightarrow> k < 7" "bit (0x1f :: int) k \<longleftrightarrow> k < 5"
    unfolding n by (simp_all only: bit_mask_iff) auto
qed

lemma bit_immi_of: "bit (immi_of (ucast (i :: u32))) k \<longleftrightarrow> bit i (20 + min k 11)"
proof -
  have "uint (drop_bit 20 (ucast i :: u64) AND 0xfff) < 0x1000"
    using word_and_le1 [of "drop_bit 20 (ucast i :: u64)" "0xfff"] by (simp add: word_le_def)
  then have "immi_of (ucast i) = signed_take_bit 11 (fld (ucast i) 20 0xfff)"
    unfolding immi_of_def Let_def by (intro sign_12) (simp_all add: fld_def)
  then show ?thesis
    by (simp add: bit_signed_take_bit_iff bit_fld bit_masks min_def)
qed

lemma bit_imms_of: "bit (imms_of (ucast (i :: u32))) k \<longleftrightarrow> bit i (if k < 5 then 7 + k else 20 + min k 11)"
proof -
  define x where "x = push_bit 5 (drop_bit 25 (ucast i :: u64) AND 0x7f) OR (drop_bit 7 (ucast i) AND 0x1f)"
  have b: "bit x k \<longleftrightarrow> k < 12 \<and> bit i (if k < 5 then 7 + k else 20 + k)" for k
    unfolding x_def bit_or_iff bit_push_bit_iff bit_and_iff bit_drop_bit_eq o_def bit_masks bit_ucast_32_64
    by (auto dest: bit_imp_le_length simp: possible_bit_word)
  have "take_bit 12 x = x"
    by (rule bit_word_eqI) (auto simp: bit_simps b)
  then have "uint x < 2 ^ 12"
    by (metis take_bit_int_less_exp unsigned_take_bit_eq)
  then have "imms_of (ucast i) = signed_take_bit 11 (uint x)"
    unfolding imms_of_def Let_def x_def by (intro sign_12) simp_all
  then show ?thesis
    by (auto simp add: bit_signed_take_bit_iff bit_simps b min_def)
qed

lemma immi_range:
  assumes "- (2 ^ n) \<le> (x :: int)" "x < 2 ^ n" "n \<le> k"
  shows "bit x k = bit x n"
proof -
  have "signed_take_bit n x = x" using assms by (simp add: signed_take_bit_int_eq_self_iff)
  then have "bit x k = bit (signed_take_bit n x) k" by simp
  then show ?thesis using assms(3) by (simp add: bit_signed_take_bit_iff min_def)
qed

lemma nonneg_range:
  assumes "0 \<le> (x :: int)" "x < 2 ^ n" "n \<le> k"
  shows "\<not> bit x k"
proof -
  have "take_bit n x = x" using assms by (simp add: take_bit_int_eq_self_iff)
  then have "bit x k = bit (take_bit n x) k" by simp
  then show ?thesis using assms(3) by (simp add: bit_take_bit_iff)
qed


lemma fld_bits:
  assumes "fld (ucast (i :: u32)) n m = v" "bit m k"
  shows "bit i (n + k) = bit v k"
  using assms by (auto simp flip: assms(1) simp: bit_fld)

lemma op_bits:
  assumes "fld (ucast (i :: u32)) 0 0x7f = v"
  shows "bit i 0 = bit v 0" "bit i 1 = bit v 1" "bit i 2 = bit v 2" "bit i 3 = bit v 3" "bit i 4 = bit v 4"
    "bit i 5 = bit v 5" "bit i 6 = bit v 6"
  using fld_bits [OF assms] by (auto simp: bit_masks)

lemma f3_bits:
  assumes "fld (ucast (i :: u32)) 12 7 = v"
  shows "bit i 12 = bit v 0" "bit i 13 = bit v 1" "bit i 14 = bit v 2"
  using fld_bits [OF assms, of 0] fld_bits [OF assms, of 1] fld_bits [OF assms, of 2] by simp_all

lemma rd_bits:
  assumes "fld (ucast (i :: u32)) 7 0x1f = v"
  shows "bit i 7 = bit v 0" "bit i 8 = bit v 1" "bit i 9 = bit v 2" "bit i 10 = bit v 3" "bit i 11 = bit v 4"
  using fld_bits [OF assms, of 0] fld_bits [OF assms, of 1] fld_bits [OF assms, of 2] fld_bits [OF assms, of 3]
    fld_bits [OF assms, of 4] by simp_all

lemma rs1_bits:
  assumes "fld (ucast (i :: u32)) 15 0x1f = v"
  shows "bit i 15 = bit v 0" "bit i 16 = bit v 1" "bit i 17 = bit v 2" "bit i 18 = bit v 3" "bit i 19 = bit v 4"
  using fld_bits [OF assms, of 0] fld_bits [OF assms, of 1] fld_bits [OF assms, of 2] fld_bits [OF assms, of 3]
    fld_bits [OF assms, of 4] by simp_all

lemma rs2_bits:
  assumes "fld (ucast (i :: u32)) 20 0x1f = v"
  shows "bit i 20 = bit v 0" "bit i 21 = bit v 1" "bit i 22 = bit v 2" "bit i 23 = bit v 3" "bit i 24 = bit v 4"
  using fld_bits [OF assms, of 0] fld_bits [OF assms, of 1] fld_bits [OF assms, of 2] fld_bits [OF assms, of 3]
    fld_bits [OF assms, of 4] by simp_all

lemma f7_bits:
  assumes "fld (ucast (i :: u32)) 25 0x7f = v"
  shows "bit i 25 = bit v 0" "bit i 26 = bit v 1" "bit i 27 = bit v 2" "bit i 28 = bit v 3" "bit i 29 = bit v 4"
    "bit i 30 = bit v 5" "bit i 31 = bit v 6"
  using fld_bits [OF assms, of 0] fld_bits [OF assms, of 1] fld_bits [OF assms, of 2] fld_bits [OF assms, of 3]
    fld_bits [OF assms, of 4] fld_bits [OF assms, of 5] fld_bits [OF assms, of 6] by simp_all

lemma creg_eq:
  assumes "0 \<le> creg r"
  shows "creg r = r AND 7" "bit r 3" "\<not> bit r 4"
proof -
  have "r \<in> {8, 9, 10, 11, 12, 13, 14, 15}"
    using assms by (auto simp: creg_def split: if_splits)
  then show "creg r = r AND 7" "bit r 3" "\<not> bit r 4"
    by (auto simp: creg_def)
qed

lemma bit_creg:
  assumes "0 \<le> creg r"
  shows "bit (creg r) k \<longleftrightarrow> bit r k \<and> bit (7 :: int) k"
  by (simp add: creg_eq(1) [OF assms] bit_simps)

lemma immi_small:
  assumes "- 32 \<le> immi_of (ucast (i :: u32))" "immi_of (ucast i) < 32"
  shows "bit i 25 = bit i 31" "bit i 26 = bit i 31" "bit i 27 = bit i 31" "bit i 28 = bit i 31"
    "bit i 29 = bit i 31" "bit i 30 = bit i 31"
proof -
  have r: "bit i (20 + min k 11) = bit i 25" if "5 \<le> k" for k
    using immi_range [of 5 "immi_of (ucast i)" k] assms that by (simp add: bit_immi_of)
  show "bit i 25 = bit i 31" "bit i 26 = bit i 31" "bit i 27 = bit i 31" "bit i 28 = bit i 31"
    "bit i 29 = bit i 31" "bit i 30 = bit i 31"
    using r [of 6] r [of 7] r [of 8] r [of 9] r [of 10] r [of 11] by simp_all
qed


lemma low_bits:
  assumes "x AND m = (0 :: int)" "bit m k"
  shows "\<not> bit x k"
  using assms bit_and_iff [of x m k] by auto

lemma fld_nonzero:
  assumes "fld (ucast (i :: u32)) n 0x1f \<noteq> 0"
  shows "bit i n \<or> bit i (n + 1) \<or> bit i (n + 2) \<or> bit i (n + 3) \<or> bit i (n + 4)"
proof (rule ccontr)
  assume n: "\<not> ?thesis"
  have "\<not> bit (fld (ucast i) n 0x1f) k" for k
  proof -
    have "k < 5 \<Longrightarrow> k \<in> {0, 1, 2, 3, 4}" by auto
    then show ?thesis using n by (auto simp: bit_fld bit_masks)
  qed
  then show False using assms by (auto intro: bit_eqI)
qed

lemma and3_iff:
  fixes c :: u32
  shows "c AND 3 = 0 \<longleftrightarrow> \<not> bit c 0 \<and> \<not> bit c 1" "c AND 3 = 1 \<longleftrightarrow> bit c 0 \<and> \<not> bit c 1"
    "c AND 3 = 2 \<longleftrightarrow> \<not> bit c 0 \<and> bit c 1"
  by (simp_all add: word32_bits bit_simps bit_numeral_rec)

lemma top3_iff:
  fixes c :: u32
  assumes "take_bit 16 c = c"
  shows "drop_bit 13 c = 0 \<longleftrightarrow> \<not> bit c 13 \<and> \<not> bit c 14 \<and> \<not> bit c 15"
    "drop_bit 13 c = 1 \<longleftrightarrow> bit c 13 \<and> \<not> bit c 14 \<and> \<not> bit c 15"
    "drop_bit 13 c = 2 \<longleftrightarrow> \<not> bit c 13 \<and> bit c 14 \<and> \<not> bit c 15"
    "drop_bit 13 c = 3 \<longleftrightarrow> bit c 13 \<and> bit c 14 \<and> \<not> bit c 15"
    "drop_bit 13 c = 4 \<longleftrightarrow> \<not> bit c 13 \<and> \<not> bit c 14 \<and> bit c 15"
    "drop_bit 13 c = 5 \<longleftrightarrow> bit c 13 \<and> \<not> bit c 14 \<and> bit c 15"
    "drop_bit 13 c = 6 \<longleftrightarrow> \<not> bit c 13 \<and> bit c 14 \<and> bit c 15"
    "drop_bit 13 c = 7 \<longleftrightarrow> bit c 13 \<and> bit c 14 \<and> bit c 15"
proof -
  have "\<not> bit c k" if "16 \<le> k" for k
    using assms that bit_take_bit_iff [of 16 c k] by simp
  then show "drop_bit 13 c = 0 \<longleftrightarrow> \<not> bit c 13 \<and> \<not> bit c 14 \<and> \<not> bit c 15"
    "drop_bit 13 c = 1 \<longleftrightarrow> bit c 13 \<and> \<not> bit c 14 \<and> \<not> bit c 15"
    "drop_bit 13 c = 2 \<longleftrightarrow> \<not> bit c 13 \<and> bit c 14 \<and> \<not> bit c 15"
    "drop_bit 13 c = 3 \<longleftrightarrow> bit c 13 \<and> bit c 14 \<and> \<not> bit c 15"
    "drop_bit 13 c = 4 \<longleftrightarrow> \<not> bit c 13 \<and> \<not> bit c 14 \<and> bit c 15"
    "drop_bit 13 c = 5 \<longleftrightarrow> bit c 13 \<and> \<not> bit c 14 \<and> bit c 15"
    "drop_bit 13 c = 6 \<longleftrightarrow> \<not> bit c 13 \<and> bit c 14 \<and> bit c 15"
    "drop_bit 13 c = 7 \<longleftrightarrow> bit c 13 \<and> bit c 14 \<and> bit c 15"
    by (simp_all add: word32_bits bit_simps bit_numeral_rec)
qed

lemma rd_iff:
  fixes c :: u32
  shows "drop_bit 7 c AND 31 = 0 \<longleftrightarrow> \<not> bit c 7 \<and> \<not> bit c 8 \<and> \<not> bit c 9 \<and> \<not> bit c 10 \<and> \<not> bit c 11"
    "drop_bit 7 c AND 31 = 2 \<longleftrightarrow> \<not> bit c 7 \<and> bit c 8 \<and> \<not> bit c 9 \<and> \<not> bit c 10 \<and> \<not> bit c 11"
    "drop_bit 2 c AND 31 = 0 \<longleftrightarrow> \<not> bit c 2 \<and> \<not> bit c 3 \<and> \<not> bit c 4 \<and> \<not> bit c 5 \<and> \<not> bit c 6"
    "drop_bit 10 c AND 3 = 0 \<longleftrightarrow> \<not> bit c 10 \<and> \<not> bit c 11"
    "drop_bit 10 c AND 3 = 1 \<longleftrightarrow> bit c 10 \<and> \<not> bit c 11"
    "drop_bit 10 c AND 3 = 2 \<longleftrightarrow> \<not> bit c 10 \<and> bit c 11"
    "drop_bit 5 c AND 3 = 0 \<longleftrightarrow> \<not> bit c 5 \<and> \<not> bit c 6"
    "hbit c 12 = 0 \<longleftrightarrow> \<not> bit c 12"
  by (auto simp: word32_bits bit_simps bit_numeral_rec hbit_def)

section \<open>Ranges of immediates as bits\<close>

lemma immi_negative: "immi_of (ucast (i :: u32)) < 0 \<longleftrightarrow> bit i 31"
proof -
  have "signed_take_bit 11 (immi_of (ucast i)) = immi_of (ucast i)"
    by (rule bit_eqI) (simp add: bit_signed_take_bit_iff bit_immi_of min_def)
  then have "immi_of (ucast i) < 0 \<longleftrightarrow> signed_take_bit 11 (immi_of (ucast i)) < 0" by simp
  then show ?thesis by (simp add: bit_immi_of)
qed

lemma below_bits:
  fixes i :: u32 and x :: int
  assumes x: "\<forall>k. 7 \<le> k \<and> k \<le> 11 \<longrightarrow> bit x k = bit i (20 + k)" and "0 \<le> x"
  shows "x < 128 \<Longrightarrow> \<not> bit i 27 \<and> \<not> bit i 28 \<and> \<not> bit i 29 \<and> \<not> bit i 30 \<and> \<not> bit i 31"
    "x < 256 \<Longrightarrow> \<not> bit i 28 \<and> \<not> bit i 29 \<and> \<not> bit i 30 \<and> \<not> bit i 31"
    "x < 512 \<Longrightarrow> \<not> bit i 29 \<and> \<not> bit i 30 \<and> \<not> bit i 31"
    "x < 1024 \<Longrightarrow> \<not> bit i 30 \<and> \<not> bit i 31"
proof -
  note r = nonneg_range [OF \<open>0 \<le> x\<close>]
  show "x < 128 \<Longrightarrow> \<not> bit i 27 \<and> \<not> bit i 28 \<and> \<not> bit i 29 \<and> \<not> bit i 30 \<and> \<not> bit i 31"
    using r [of 7 7] r [of 7 8] r [of 7 9] r [of 7 10] r [of 7 11] by (simp add: x)
  show "x < 256 \<Longrightarrow> \<not> bit i 28 \<and> \<not> bit i 29 \<and> \<not> bit i 30 \<and> \<not> bit i 31"
    using r [of 8 8] r [of 8 9] r [of 8 10] r [of 8 11] by (simp add: x)
  show "x < 512 \<Longrightarrow> \<not> bit i 29 \<and> \<not> bit i 30 \<and> \<not> bit i 31"
    using r [of 9 9] r [of 9 10] r [of 9 11] by (simp add: x)
  show "x < 1024 \<Longrightarrow> \<not> bit i 30 \<and> \<not> bit i 31"
    using r [of 10 10] r [of 10 11] by (simp add: x)
qed

lemma bit_immi_high: "\<forall>k. 7 \<le> k \<and> k \<le> 11 \<longrightarrow> bit (immi_of (ucast (i :: u32))) k = bit i (20 + k)"
  and bit_imms_high: "\<forall>k. 7 \<le> k \<and> k \<le> 11 \<longrightarrow> bit (imms_of (ucast (i :: u32))) k = bit i (20 + k)"
  by (simp_all add: bit_immi_of bit_imms_of min_def)

lemmas immi_below = below_bits [OF bit_immi_high]
lemmas imms_below = below_bits [OF bit_imms_high]

lemma immi_signed:
  assumes "- 512 \<le> immi_of (ucast (i :: u32))" "immi_of (ucast i) < 512"
  shows "bit i 29 = bit i 31" "bit i 30 = bit i 31"
  using immi_range [of 9 "immi_of (ucast i)" 10] immi_range [of 9 "immi_of (ucast i)" 11] assms
  by (simp_all add: bit_immi_of)

lemma immi_aligned:
  "immi_of (ucast (i :: u32)) AND 3 = 0 \<Longrightarrow> \<not> bit i 20 \<and> \<not> bit i 21"
  "immi_of (ucast (i :: u32)) AND 7 = 0 \<Longrightarrow> \<not> bit i 20 \<and> \<not> bit i 21 \<and> \<not> bit i 22"
  "immi_of (ucast (i :: u32)) AND 15 = 0 \<Longrightarrow> \<not> bit i 20 \<and> \<not> bit i 21 \<and> \<not> bit i 22 \<and> \<not> bit i 23"
  using low_bits [of "immi_of (ucast i)" 3 0] low_bits [of "immi_of (ucast i)" 3 1]
    low_bits [of "immi_of (ucast i)" 7 0] low_bits [of "immi_of (ucast i)" 7 1] low_bits [of "immi_of (ucast i)" 7 2]
    low_bits [of "immi_of (ucast i)" 15 0] low_bits [of "immi_of (ucast i)" 15 1] low_bits [of "immi_of (ucast i)" 15 2]
    low_bits [of "immi_of (ucast i)" 15 3]
  by (simp_all add: bit_immi_of)

lemma imms_aligned:
  "imms_of (ucast (i :: u32)) AND 3 = 0 \<Longrightarrow> \<not> bit i 7 \<and> \<not> bit i 8"
  "imms_of (ucast (i :: u32)) AND 7 = 0 \<Longrightarrow> \<not> bit i 7 \<and> \<not> bit i 8 \<and> \<not> bit i 9"
  using low_bits [of "imms_of (ucast i)" 3 0] low_bits [of "imms_of (ucast i)" 3 1]
    low_bits [of "imms_of (ucast i)" 7 0] low_bits [of "imms_of (ucast i)" 7 1] low_bits [of "imms_of (ucast i)" 7 2]
  by (simp_all add: bit_imms_of)

lemma immi_zero_bits:
  assumes "immi_of (ucast (i :: u32)) = 0"
  shows "\<not> bit i 20" "\<not> bit i 21" "\<not> bit i 22" "\<not> bit i 23" "\<not> bit i 24" "\<not> bit i 25" "\<not> bit i 26"
    "\<not> bit i 27" "\<not> bit i 28" "\<not> bit i 29" "\<not> bit i 30" "\<not> bit i 31"
proof -
  have "\<not> bit i (20 + min k 11)" for k
    using bit_immi_of [of i k] assms by simp
  from this [of 0] this [of 1] this [of 2] this [of 3] this [of 4] this [of 5] this [of 6] this [of 7]
    this [of 8] this [of 9] this [of 10] this [of 11]
  show "\<not> bit i 20" "\<not> bit i 21" "\<not> bit i 22" "\<not> bit i 23" "\<not> bit i 24" "\<not> bit i 25" "\<not> bit i 26"
    "\<not> bit i 27" "\<not> bit i 28" "\<not> bit i 29" "\<not> bit i 30" "\<not> bit i 31"
    by simp_all
qed

lemma immi_nonzero:
  assumes "immi_of (ucast (i :: u32)) \<noteq> 0"
  shows "bit i 20 \<or> bit i 21 \<or> bit i 22 \<or> bit i 23 \<or> bit i 24 \<or> bit i 25 \<or> bit i 26 \<or> bit i 27 \<or> bit i 28 \<or> bit i 29 \<or>
    bit i 30 \<or> bit i 31"
proof (rule ccontr)
  assume n: "\<not> ?thesis"
  have "\<not> bit (immi_of (ucast i)) k" for k
  proof -
    have "min k 11 \<in> {0, 1, 2, 3, 4, 5, 6, 7, 8, 9, 10, 11}" by (simp add: min_def) presburger
    then show ?thesis using n by (auto simp: bit_immi_of)
  qed
  then show False using assms by (auto intro: bit_eqI)
qed

lemma f7_le_1_bits:
  assumes "fld (ucast (i :: u32)) 25 0x7f \<le> 1"
  shows "\<not> bit i 26" "\<not> bit i 27" "\<not> bit i 28" "\<not> bit i 29" "\<not> bit i 30" "\<not> bit i 31"
proof -
  have "fld (ucast i) 25 0x7f = 0 \<or> fld (ucast i) 25 0x7f = 1"
    using assms fld_nonneg [of "ucast i" 25 "0x7f"] by linarith
  then show "\<not> bit i 26" "\<not> bit i 27" "\<not> bit i 28" "\<not> bit i 29" "\<not> bit i 30" "\<not> bit i 31"
    using f7_bits [of i 0] f7_bits [of i 1] by auto
qed

lemma f7_shift_bits:
  assumes "fld (ucast (i :: u32)) 25 0x7f AND NOT 1 = 0 \<or> fld (ucast i) 25 0x7f AND NOT 1 = 0x20"
  shows "\<not> bit i 26" "\<not> bit i 27" "\<not> bit i 28" "\<not> bit i 29" "\<not> bit i 31"
    "fld (ucast i) 25 0x7f AND 0x20 \<noteq> 0 \<longleftrightarrow> bit i 30"
proof -
  define x where "x = fld (ucast i) 25 0x7f AND NOT 1"
  have b: "bit x k = bit i (25 + k)" if "1 \<le> k" "k \<le> 6" for k
    using that by (auto simp: x_def bit_simps bit_fld bit_masks)
  show "\<not> bit i 26" "\<not> bit i 27" "\<not> bit i 28" "\<not> bit i 29" "\<not> bit i 31"
    using b [of 1] b [of 2] b [of 3] b [of 4] b [of 6] assms [folded x_def] by auto
  show "fld (ucast i) 25 0x7f AND 0x20 \<noteq> 0 \<longleftrightarrow> bit i 30"
    using and_exp_eq_0_iff_not_bit [of "fld (ucast i) 25 0x7f" 5] by (simp add: bit_fld bit_masks)
qed

lemma rd_not_2_bits:
  assumes "fld (ucast (i :: u32)) 7 0x1f \<noteq> 2"
  shows "\<not> bit i 8 \<or> bit i 7 \<or> bit i 9 \<or> bit i 10 \<or> bit i 11"
proof (rule ccontr)
  assume n: "\<not> ?thesis"
  have "fld (ucast i) 7 0x1f = 2"
  proof (rule bit_eqI)
    fix k
    show "bit (fld (ucast i) 7 0x1f) k = bit (2 :: int) k"
    proof (cases "k < 5")
      case True
      then have "k \<in> {0, 1, 2, 3, 4}" by auto
      then show ?thesis using n by (auto simp: bit_fld)
    qed (auto simp: bit_fld bit_masks bit_2_iff)
  qed
  then show False using assms by simp
qed

lemma creg_bits:
  "0 \<le> creg (fld (ucast (i :: u32)) 7 0x1f) \<Longrightarrow> bit i 10 \<and> \<not> bit i 11"
  "0 \<le> creg (fld (ucast (i :: u32)) 15 0x1f) \<Longrightarrow> bit i 18 \<and> \<not> bit i 19"
  "0 \<le> creg (fld (ucast (i :: u32)) 20 0x1f) \<Longrightarrow> bit i 23 \<and> \<not> bit i 24"
  using creg_eq(2,3) [of "fld (ucast i) 7 0x1f"] creg_eq(2,3) [of "fld (ucast i) 15 0x1f"]
    creg_eq(2,3) [of "fld (ucast i) 20 0x1f"]
  by (auto simp: bit_fld)

section \<open>Words by their bits\<close>

lemma bit_horner_32: "length bs \<le> 32 \<Longrightarrow> bit (horner_sum of_bool 2 bs :: u32) k \<longleftrightarrow> k < length bs \<and> bs ! k"
  by (auto simp: bit_horner_sum_bit_word_iff)

text \<open>A halfword, from its lowest bit up.\<close>

definition halfword :: "bool \<Rightarrow> bool \<Rightarrow> bool \<Rightarrow> bool \<Rightarrow> bool \<Rightarrow> bool \<Rightarrow> bool \<Rightarrow> bool \<Rightarrow> bool \<Rightarrow> bool \<Rightarrow> bool \<Rightarrow> bool \<Rightarrow> bool \<Rightarrow> bool \<Rightarrow> bool \<Rightarrow> bool \<Rightarrow> u32" where
  "halfword b0 b1 b2 b3 b4 b5 b6 b7 b8 b9 b10 b11 b12 b13 b14 b15 =
    horner_sum of_bool 2 [b0, b1, b2, b3, b4, b5, b6, b7, b8, b9, b10, b11, b12, b13, b14, b15]"

lemma bit_halfword:
  "bit (halfword b0 b1 b2 b3 b4 b5 b6 b7 b8 b9 b10 b11 b12 b13 b14 b15) k \<longleftrightarrow>
    k < 16 \<and> [b0, b1, b2, b3, b4, b5, b6, b7, b8, b9, b10, b11, b12, b13, b14, b15] ! k"
  unfolding halfword_def by (subst bit_horner_32) (simp_all add: numeral_eq_Suc)

lemma halfword_bits:
  "bit (halfword b0 b1 b2 b3 b4 b5 b6 b7 b8 b9 b10 b11 b12 b13 b14 b15) 0 \<longleftrightarrow> b0"
  "bit (halfword b0 b1 b2 b3 b4 b5 b6 b7 b8 b9 b10 b11 b12 b13 b14 b15) (Suc 0) \<longleftrightarrow> b1"
  "bit (halfword b0 b1 b2 b3 b4 b5 b6 b7 b8 b9 b10 b11 b12 b13 b14 b15) 2 \<longleftrightarrow> b2"
  "bit (halfword b0 b1 b2 b3 b4 b5 b6 b7 b8 b9 b10 b11 b12 b13 b14 b15) 3 \<longleftrightarrow> b3"
  "bit (halfword b0 b1 b2 b3 b4 b5 b6 b7 b8 b9 b10 b11 b12 b13 b14 b15) 4 \<longleftrightarrow> b4"
  "bit (halfword b0 b1 b2 b3 b4 b5 b6 b7 b8 b9 b10 b11 b12 b13 b14 b15) 5 \<longleftrightarrow> b5"
  "bit (halfword b0 b1 b2 b3 b4 b5 b6 b7 b8 b9 b10 b11 b12 b13 b14 b15) 6 \<longleftrightarrow> b6"
  "bit (halfword b0 b1 b2 b3 b4 b5 b6 b7 b8 b9 b10 b11 b12 b13 b14 b15) 7 \<longleftrightarrow> b7"
  "bit (halfword b0 b1 b2 b3 b4 b5 b6 b7 b8 b9 b10 b11 b12 b13 b14 b15) 8 \<longleftrightarrow> b8"
  "bit (halfword b0 b1 b2 b3 b4 b5 b6 b7 b8 b9 b10 b11 b12 b13 b14 b15) 9 \<longleftrightarrow> b9"
  "bit (halfword b0 b1 b2 b3 b4 b5 b6 b7 b8 b9 b10 b11 b12 b13 b14 b15) 10 \<longleftrightarrow> b10"
  "bit (halfword b0 b1 b2 b3 b4 b5 b6 b7 b8 b9 b10 b11 b12 b13 b14 b15) 11 \<longleftrightarrow> b11"
  "bit (halfword b0 b1 b2 b3 b4 b5 b6 b7 b8 b9 b10 b11 b12 b13 b14 b15) 12 \<longleftrightarrow> b12"
  "bit (halfword b0 b1 b2 b3 b4 b5 b6 b7 b8 b9 b10 b11 b12 b13 b14 b15) 13 \<longleftrightarrow> b13"
  "bit (halfword b0 b1 b2 b3 b4 b5 b6 b7 b8 b9 b10 b11 b12 b13 b14 b15) 14 \<longleftrightarrow> b14"
  "bit (halfword b0 b1 b2 b3 b4 b5 b6 b7 b8 b9 b10 b11 b12 b13 b14 b15) 15 \<longleftrightarrow> b15"
  "16 \<le> k \<Longrightarrow> \<not> bit (halfword b0 b1 b2 b3 b4 b5 b6 b7 b8 b9 b10 b11 b12 b13 b14 b15) k"
  by (simp_all add: bit_halfword)

lemma halfword_16: "take_bit 16 (halfword b0 b1 b2 b3 b4 b5 b6 b7 b8 b9 b10 b11 b12 b13 b14 b15) =
    halfword b0 b1 b2 b3 b4 b5 b6 b7 b8 b9 b10 b11 b12 b13 b14 b15"
  by (rule bit_word_eqI) (simp add: bit_simps bit_halfword)

lemma halfword_dest:
  assumes "c = halfword b0 b1 b2 b3 b4 b5 b6 b7 b8 b9 b10 b11 b12 b13 b14 b15"
  shows "bit c 0 = b0" "bit c (Suc 0) = b1" "bit c 2 = b2" "bit c 3 = b3" "bit c 4 = b4" "bit c 5 = b5" "bit c 6 = b6" "bit c 7 = b7"
    "bit c 8 = b8" "bit c 9 = b9" "bit c 10 = b10" "bit c 11 = b11" "bit c 12 = b12" "bit c 13 = b13" "bit c 14 = b14" "bit c 15 = b15"
  unfolding assms by (simp_all only: halfword_bits)

lemma halfword_dest_16: "c = halfword b0 b1 b2 b3 b4 b5 b6 b7 b8 b9 b10 b11 b12 b13 b14 b15 \<Longrightarrow> take_bit 16 c = c"
  by (simp only: halfword_16)

lemma bit_hbit: "bit (hbit h n) k \<longleftrightarrow> k = 0 \<and> bit h n"
  by (auto simp: hbit_def bit_simps)

lemma bit_sign_from: "m < 32 \<Longrightarrow> bit (sign_from m v) k \<longleftrightarrow> k < 32 \<and> bit v (min k (31 - m))"
  by (auto simp: sign_from_def bit_simps min_def dest: bit_imp_le_length)

lemma bit_push32: "bit (push_bit n (x :: u32)) k \<longleftrightarrow> n \<le> k \<and> k < 32 \<and> bit x (k - n)"
  by (simp add: bit_push_bit_iff possible_bit_word)

lemma imm_zero_iff:
  "rvc_ci c = 0 \<longleftrightarrow> \<not> bit c 2 \<and> \<not> bit c 3 \<and> \<not> bit c 4 \<and> \<not> bit c 5 \<and> \<not> bit c 6 \<and> \<not> bit c 12"
  "rvc_addi16sp c = 0 \<longleftrightarrow> \<not> bit c 2 \<and> \<not> bit c 3 \<and> \<not> bit c 4 \<and> \<not> bit c 5 \<and> \<not> bit c 6 \<and> \<not> bit c 12"
  "rvc_addi4spn c = 0 \<longleftrightarrow>
    \<not> bit c 5 \<and> \<not> bit c 6 \<and> \<not> bit c 7 \<and> \<not> bit c 8 \<and> \<not> bit c 9 \<and> \<not> bit c 10 \<and> \<not> bit c 11 \<and> \<not> bit c 12"
  by (auto simp: word32_bits rvc_ci_def rvc_addi16sp_def rvc_addi4spn_def bit_sign_from bit_or_iff bit_and_iff bit_push32
      bit_drop_bit_eq bit_hbit bit_numeral_rec)

lemmas rvc_iff = and3_iff rd_iff imm_zero_iff

lemma plus_8_eq: "(x AND 7) + 8 = (x AND 7) OR (8 :: u32)"
proof -
  have "(x AND 7) AND 8 = (0 :: u32)"
    by (simp add: word32_bits bit_simps bit_numeral_rec)
  then show ?thesis by (simp only: or_eq_add_disjoint)
qed

end
