(* ===== verification/Rv_Expand.thy ===== *)
theory Rv_Expand
  imports Rv_Bits
begin

text \<open>
  Every short form \<open>rv_compress\<close> (\<^verbatim>\<open>src/arch/riscv/emit.c\<close>) builds from an instruction is
  a halfword that \<open>rvc_expand\<close> (\<^verbatim>\<open>tools/embsim/riscv.c\<close>) turns back into that
  instruction.  Each lemma gives the layout of the halfword, lowest bit first.
\<close>

section \<open>The upper immediate\<close>

definition upper_of :: "u64 \<Rightarrow> int" where
  "upper_of w = (let hi = fld w 12 0xfffff in if hi AND 0x80000 \<noteq> 0 then hi - 0x100000 else hi)"

lemma bit_upper_of: "bit (upper_of (ucast (i :: u32))) k \<longleftrightarrow> bit i (12 + min k 19)"
proof -
  define x where "x = fld (ucast i) 12 0xfffff"
  have m: "(0xfffff :: u64) = mask 20" by (simp add: mask_eq_exp_minus_1)
  have b: "bit x k \<longleftrightarrow> bit i (12 + k) \<and> k < 20" for k
    unfolding x_def bit_fld m by (simp only: bit_mask_iff) auto
  have "take_bit 20 x = x" by (rule bit_eqI) (auto simp: bit_simps b)
  moreover have "x AND 0x80000 = 0 \<longleftrightarrow> \<not> bit x 19"
    using and_exp_eq_0_iff_not_bit [of x 19] by simp
  ultimately have "upper_of (ucast i) = signed_take_bit 19 x"
    by (simp add: upper_of_def x_def [symmetric] signed_take_bit_eq_take_bit_minus)
  then show ?thesis by (simp add: bit_signed_take_bit_iff b min_def)
qed

lemma upper_small:
  assumes "- 32 \<le> upper_of (ucast (i :: u32))" "upper_of (ucast i) < 32"
  shows "bit i 17 = bit i 31" "bit i 18 = bit i 31" "bit i 19 = bit i 31" "bit i 20 = bit i 31" "bit i 21 = bit i 31"
    "bit i 22 = bit i 31" "bit i 23 = bit i 31" "bit i 24 = bit i 31" "bit i 25 = bit i 31" "bit i 26 = bit i 31"
    "bit i 27 = bit i 31" "bit i 28 = bit i 31" "bit i 29 = bit i 31" "bit i 30 = bit i 31"
proof -
  have r: "bit i (12 + min k 19) = bit i 17" if "5 \<le> k" for k
    using immi_range [of 5 "upper_of (ucast i)" k] assms that by (simp add: bit_upper_of)
  show "bit i 17 = bit i 31" "bit i 18 = bit i 31" "bit i 19 = bit i 31" "bit i 20 = bit i 31" "bit i 21 = bit i 31"
    "bit i 22 = bit i 31" "bit i 23 = bit i 31" "bit i 24 = bit i 31" "bit i 25 = bit i 31" "bit i 26 = bit i 31"
    "bit i 27 = bit i 31" "bit i 28 = bit i 31" "bit i 29 = bit i 31" "bit i 30 = bit i 31"
    using r [of 6] r [of 7] r [of 8] r [of 9] r [of 10] r [of 11] r [of 12] r [of 13] r [of 14] r [of 15] r [of 16]
      r [of 17] r [of 18] r [of 19] by simp_all
qed

lemma upper_negative: "upper_of (ucast (i :: u32)) < 0 \<longleftrightarrow> bit i 31"
proof -
  have "signed_take_bit 19 (upper_of (ucast i)) = upper_of (ucast i)"
    by (rule bit_eqI) (simp add: bit_signed_take_bit_iff bit_upper_of min_def)
  then have "upper_of (ucast i) < 0 \<longleftrightarrow> signed_take_bit 19 (upper_of (ucast i)) < 0" by simp
  then show ?thesis by (simp add: bit_upper_of)
qed

lemma upper_nonzero:
  assumes "upper_of (ucast (i :: u32)) \<noteq> 0"
  shows "bit i 12 \<or> bit i 13 \<or> bit i 14 \<or> bit i 15 \<or> bit i 16 \<or> bit i 17 \<or> bit i 18 \<or> bit i 19 \<or> bit i 20 \<or> bit i 21 \<or>
    bit i 22 \<or> bit i 23 \<or> bit i 24 \<or> bit i 25 \<or> bit i 26 \<or> bit i 27 \<or> bit i 28 \<or> bit i 29 \<or> bit i 30 \<or> bit i 31"
proof (rule ccontr)
  assume n: "\<not> ?thesis"
  have "\<not> bit (upper_of (ucast i)) k" for k
  proof -
    have "min k 19 \<in> {0, 1, 2, 3, 4, 5, 6, 7, 8, 9, 10, 11, 12, 13, 14, 15, 16, 17, 18, 19}"
      by (simp add: min_def) presburger
    then show ?thesis using n by (auto simp: bit_upper_of)
  qed
  then show False using assms by (auto intro: bit_eqI)
qed

section \<open>Each short form expands to the instruction it came from\<close>

definition expands :: "u32 \<Rightarrow> nat \<Rightarrow> u32 \<Rightarrow> bool" where
  "expands c xlen i \<longleftrightarrow> rvc_expand c xlen = i \<and> take_bit 16 c = c"

lemmas layout_simps = word32_bits bit_simps bit_numeral_rec bit_cu bit_fld bit_immi_of bit_imms_of halfword_bits

lemmas rvc_branch = and3_iff rd_iff(4-) rvc_expand_def Let_def bit_fld plus_8_eq bit_drop_bit_eq o_def

lemmas insn_bits = word32_bits bit_or_iff bit_and_iff bit_push32 bit_drop_bit_eq o_def bit_hbit

lemmas insn_eval = bit_numeral_rec bit_fld bit_sign_from bit_or_iff bit_and_iff bit_push32 bit_drop_bit_eq bit_hbit

lemma expand_addi:
  fixes i :: u32
  assumes
    "fld (ucast i) 0 0x7f = 0x13" "fld (ucast i) 12 7 = 0" "fld (ucast i) 15 0x1f = fld (ucast i) 7 0x1f"
    "- 32 \<le> immi_of (ucast i)" "immi_of (ucast i) < 32"
  shows "expands (ci_form 0x0001 (immi_of (ucast i)) (fld (ucast i) 7 0x1f)) xlen i"
proof -
  define c where "c = ci_form 0x0001 (immi_of (ucast i)) (fld (ucast i) 7 0x1f)"
  have c: "c = halfword
      True False (bit i 20) (bit i 21) (bit i 22) (bit i 23) (bit i 24) (bit i 7) (bit i 8) (bit i 9)
      (bit i 10) (bit i 11) (bit i 31) False False False"
    unfolding c_def by (simp add: layout_simps ci_form_def immi_negative)
  note bits = halfword_dest [OF c]
      op_bits [OF assms(1)] f3_bits [OF assms(2)] rs1_bits [OF assms(3)] immi_small [OF assms(4) assms(5)]
  show ?thesis
    unfolding expands_def c_def [symmetric] using bits halfword_dest_16 [OF c]
    by (simp add: rvc_branch rd_iff(2) rd_iff(3) rvc_expand1_def top3_iff [OF halfword_dest_16 [OF c]]) (simp only: insn_bits  rvc_ci_def enc_i_def, simp add: insn_eval)
qed

lemma expand_li:
  fixes i :: u32
  assumes
    "fld (ucast i) 0 0x7f = 0x13" "fld (ucast i) 12 7 = 0" "fld (ucast i) 15 0x1f = 0"
    "- 32 \<le> immi_of (ucast i)" "immi_of (ucast i) < 32"
  shows "expands (ci_form 0x4001 (immi_of (ucast i)) (fld (ucast i) 7 0x1f)) xlen i"
proof -
  define c where "c = ci_form 0x4001 (immi_of (ucast i)) (fld (ucast i) 7 0x1f)"
  have c: "c = halfword
      True False (bit i 20) (bit i 21) (bit i 22) (bit i 23) (bit i 24) (bit i 7) (bit i 8) (bit i 9)
      (bit i 10) (bit i 11) (bit i 31) False True False"
    unfolding c_def by (simp add: layout_simps ci_form_def immi_negative)
  note bits = halfword_dest [OF c]
      op_bits [OF assms(1)] f3_bits [OF assms(2)] rs1_bits [OF assms(3)] immi_small [OF assms(4) assms(5)]
  show ?thesis
    unfolding expands_def c_def [symmetric] using bits halfword_dest_16 [OF c]
    by (simp add: rvc_branch rd_iff(2) rd_iff(3) rvc_expand1_def top3_iff [OF halfword_dest_16 [OF c]]) (simp only: insn_bits rvc_ci_def enc_i_def, simp add: insn_eval)
qed

lemma expand_addiw:
  fixes i :: u32
  assumes
    "fld (ucast i) 0 0x7f = 0x1b" "fld (ucast i) 12 7 = 0" "fld (ucast i) 7 0x1f \<noteq> 0"
    "fld (ucast i) 15 0x1f = fld (ucast i) 7 0x1f" "- 32 \<le> immi_of (ucast i)" "immi_of (ucast i) < 32"
    "xlen = 64"
  shows "expands (ci_form 0x2001 (immi_of (ucast i)) (fld (ucast i) 7 0x1f)) xlen i"
proof -
  define c where "c = ci_form 0x2001 (immi_of (ucast i)) (fld (ucast i) 7 0x1f)"
  have c: "c = halfword
      True False (bit i 20) (bit i 21) (bit i 22) (bit i 23) (bit i 24) (bit i 7) (bit i 8) (bit i 9)
      (bit i 10) (bit i 11) (bit i 31) True False False"
    unfolding c_def by (simp add: layout_simps ci_form_def immi_negative)
  note bits = halfword_dest [OF c]
      op_bits [OF assms(1)] f3_bits [OF assms(2)] fld_nonzero [OF assms(3)] rs1_bits [OF assms(4)]
      immi_small [OF assms(5) assms(6)]
  have nz: "drop_bit 7 c AND 31 \<noteq> 0"
    using bits by (auto simp: rd_iff(1) bit_fld)
  show ?thesis
    unfolding expands_def c_def [symmetric] using bits halfword_dest_16 [OF c]
    by (simp add: rvc_branch rd_iff(2) rd_iff(3) nz rvc_expand1_def assms(7) top3_iff [OF halfword_dest_16 [OF c]]) (simp only: insn_bits rvc_ci_def enc_i_def, simp add: insn_eval)
qed

lemma expand_andi:
  fixes i :: u32
  assumes
    "fld (ucast i) 0 0x7f = 0x13" "fld (ucast i) 12 7 = 7" "0 \<le> creg (fld (ucast i) 7 0x1f)"
    "fld (ucast i) 15 0x1f = fld (ucast i) 7 0x1f" "- 32 \<le> immi_of (ucast i)" "immi_of (ucast i) < 32"
  shows "expands (ci_form 0x8801 (immi_of (ucast i)) (creg (fld (ucast i) 7 0x1f))) xlen i"
proof -
  define c where "c = ci_form 0x8801 (immi_of (ucast i)) (creg (fld (ucast i) 7 0x1f))"
  have c: "c = halfword
      True False (bit i 20) (bit i 21) (bit i 22) (bit i 23) (bit i 24) (bit i 7) (bit i 8) (bit i 9) False
      True (bit i 31) False False True"
    unfolding c_def by (simp add: layout_simps ci_form_def immi_negative bit_creg [OF assms(3)])
  note bits = halfword_dest [OF c]
      op_bits [OF assms(1)] f3_bits [OF assms(2)] creg_bits(1) [OF assms(3)] rs1_bits [OF assms(4)]
      immi_small [OF assms(5) assms(6)]
  show ?thesis
    unfolding expands_def c_def [symmetric] using bits halfword_dest_16 [OF c]
    by (simp add: rvc_branch rd_iff(2) rd_iff(3) rvc_expand1_def rvc_misc_alu_def top3_iff [OF halfword_dest_16 [OF c]]) (simp only: insn_bits rvc_ci_def enc_i_def, simp add: insn_eval)
qed

lemma expand_lwsp:
  fixes i :: u32
  assumes
    "fld (ucast i) 0 0x7f = 0x03" "fld (ucast i) 12 7 = 2" "fld (ucast i) 7 0x1f \<noteq> 0"
    "fld (ucast i) 15 0x1f = 2" "0 \<le> immi_of (ucast i)" "immi_of (ucast i) < 256"
    "immi_of (ucast i) AND 3 = 0"
  shows "expands (lwsp_form 0x4002 (cu (immi_of (ucast i))) (fld (ucast i) 7 0x1f)) xlen i"
proof -
  define c where "c = lwsp_form 0x4002 (cu (immi_of (ucast i))) (fld (ucast i) 7 0x1f)"
  have c: "c = halfword
      False True (bit i 26) (bit i 27) (bit i 22) (bit i 23) (bit i 24) (bit i 7) (bit i 8) (bit i 9)
      (bit i 10) (bit i 11) (bit i 25) False True False"
    unfolding c_def by (simp add: layout_simps lwsp_form_def)
  note bits = halfword_dest [OF c]
      op_bits [OF assms(1)] f3_bits [OF assms(2)] fld_nonzero [OF assms(3)] rs1_bits [OF assms(4)]
      immi_below(2) [OF assms(5) assms(6)] immi_aligned(1) [OF assms(7)]
  have nz: "drop_bit 7 c AND 31 \<noteq> 0"
    using bits by (auto simp: rd_iff(1) bit_fld)
  show ?thesis
    unfolding expands_def c_def [symmetric] using bits halfword_dest_16 [OF c]
    by (simp add: rvc_branch rd_iff(2) rd_iff(3) nz rvc_expand2_def top3_iff [OF halfword_dest_16 [OF c]]) (simp only: insn_bits rvc_slw_def enc_i_def, simp add: insn_eval)
qed

lemma expand_addi16sp:
  fixes i :: u32
  assumes
    "fld (ucast i) 0 0x7f = 0x13" "fld (ucast i) 12 7 = 0" "fld (ucast i) 7 0x1f = 2"
    "fld (ucast i) 15 0x1f = 2" "immi_of (ucast i) \<noteq> 0" "immi_of (ucast i) AND 15 = 0"
    "- 512 \<le> immi_of (ucast i)" "immi_of (ucast i) < 512"
  shows "expands (0x6101 OR push_bit 2 (drop_bit 5 (cu (immi_of (ucast i))) AND 1) OR push_bit 3 (drop_bit 7 (cu (immi_of (ucast i))) AND 3) OR push_bit 5 (drop_bit 6 (cu (immi_of (ucast i))) AND 1) OR push_bit 6 (drop_bit 4 (cu (immi_of (ucast i))) AND 1) OR push_bit 12 (drop_bit 9 (cu (immi_of (ucast i))) AND 1)) xlen i"
proof -
  define c where "c = 0x6101 OR push_bit 2 (drop_bit 5 (cu (immi_of (ucast i))) AND 1) OR push_bit 3 (drop_bit 7 (cu (immi_of (ucast i))) AND 3) OR push_bit 5 (drop_bit 6 (cu (immi_of (ucast i))) AND 1) OR push_bit 6 (drop_bit 4 (cu (immi_of (ucast i))) AND 1) OR push_bit 12 (drop_bit 9 (cu (immi_of (ucast i))) AND 1)"
  have c: "c = halfword
      True False (bit i 25) (bit i 27) (bit i 28) (bit i 26) (bit i 24) False True False False False (bit i 29)
      True True False"
    unfolding c_def by (simp add: layout_simps )
  note bits = halfword_dest [OF c]
      op_bits [OF assms(1)] f3_bits [OF assms(2)] rd_bits [OF assms(3)] rs1_bits [OF assms(4)]
      immi_nonzero [OF assms(5)] immi_aligned(3) [OF assms(6)] immi_signed [OF assms(7) assms(8)]
  have nz: "rvc_addi16sp c \<noteq> 0"
    using bits by (auto simp: imm_zero_iff(2) bit_fld)
  show ?thesis
    unfolding expands_def c_def [symmetric] using bits halfword_dest_16 [OF c]
    by (simp add: rvc_branch rd_iff(2) rd_iff(3) nz rvc_expand1_def top3_iff [OF halfword_dest_16 [OF c]]) (simp only: insn_bits rvc_addi16sp_def enc_i_def, simp add: insn_eval)
qed

lemma expand_addi4spn:
  fixes i :: u32
  assumes
    "fld (ucast i) 0 0x7f = 0x13" "fld (ucast i) 12 7 = 0" "0 \<le> creg (fld (ucast i) 7 0x1f)"
    "fld (ucast i) 15 0x1f = 2" "0 < immi_of (ucast i)" "0 \<le> immi_of (ucast i)" "immi_of (ucast i) < 1024"
    "immi_of (ucast i) AND 3 = 0"
  shows "expands (0x0000 OR push_bit 2 (cu (creg (fld (ucast i) 7 0x1f))) OR push_bit 5 (drop_bit 3 (cu (immi_of (ucast i))) AND 1) OR push_bit 6 (drop_bit 2 (cu (immi_of (ucast i))) AND 1) OR push_bit 7 (drop_bit 6 (cu (immi_of (ucast i))) AND 0xf) OR push_bit 11 (drop_bit 4 (cu (immi_of (ucast i))) AND 3)) xlen i"
proof -
  define c where "c = 0x0000 OR push_bit 2 (cu (creg (fld (ucast i) 7 0x1f))) OR push_bit 5 (drop_bit 3 (cu (immi_of (ucast i))) AND 1) OR push_bit 6 (drop_bit 2 (cu (immi_of (ucast i))) AND 1) OR push_bit 7 (drop_bit 6 (cu (immi_of (ucast i))) AND 0xf) OR push_bit 11 (drop_bit 4 (cu (immi_of (ucast i))) AND 3)"
  have c: "c = halfword
      False False (bit i 7) (bit i 8) (bit i 9) (bit i 23) (bit i 22) (bit i 26) (bit i 27) (bit i 28)
      (bit i 29) (bit i 24) (bit i 25) False False False"
    unfolding c_def by (simp add: layout_simps bit_creg [OF assms(3)])
  note bits = halfword_dest [OF c]
      op_bits [OF assms(1)] f3_bits [OF assms(2)] creg_bits(1) [OF assms(3)] rs1_bits [OF assms(4)]
      immi_nonzero [OF less_imp_neq [OF assms(5), symmetric]] immi_below(4) [OF assms(6) assms(7)]
      immi_aligned(1) [OF assms(8)]
  have nz: "rvc_addi4spn c \<noteq> 0"
    using bits by (auto simp: imm_zero_iff(3) bit_fld)
  show ?thesis
    unfolding expands_def c_def [symmetric] using bits halfword_dest_16 [OF c]
    by (simp add: rvc_branch rd_iff(2) rd_iff(3) nz rvc_expand0_def top3_iff [OF halfword_dest_16 [OF c]]) (simp only: insn_bits rvc_addi4spn_def enc_i_def, simp add: insn_eval)
qed

lemma expand_slli64:
  fixes i :: u32
  assumes
    "fld (ucast i) 0 0x7f = 0x13" "fld (ucast i) 12 7 = 1" "fld (ucast i) 7 0x1f \<noteq> 0"
    "fld (ucast i) 15 0x1f = fld (ucast i) 7 0x1f" "fld (ucast i) 25 0x7f \<le> 1" "xlen = 64"
  shows "expands (shift_form 0x0002 (fld (ucast i) 20 0x3f) (fld (ucast i) 7 0x1f)) xlen i"
proof -
  define c where "c = shift_form 0x0002 (fld (ucast i) 20 0x3f) (fld (ucast i) 7 0x1f)"
  have c: "c = halfword
      False True (bit i 20) (bit i 21) (bit i 22) (bit i 23) (bit i 24) (bit i 7) (bit i 8) (bit i 9)
      (bit i 10) (bit i 11) (bit i 25) False False False"
    unfolding c_def by (simp add: layout_simps shift_form_def)
  note bits = halfword_dest [OF c]
      op_bits [OF assms(1)] f3_bits [OF assms(2)] fld_nonzero [OF assms(3)] rs1_bits [OF assms(4)]
      f7_le_1_bits [OF assms(5)]
  show ?thesis
    unfolding expands_def c_def [symmetric] using bits halfword_dest_16 [OF c]
    by (simp add: rvc_branch rd_iff(2) rd_iff(3) rvc_expand2_def assms(6) top3_iff [OF halfword_dest_16 [OF c]]) (simp only: insn_bits rvc_sh_def enc_i_def, simp add: insn_eval)
qed

lemma expand_slli32:
  fixes i :: u32
  assumes
    "fld (ucast i) 0 0x7f = 0x13" "fld (ucast i) 12 7 = 1" "fld (ucast i) 7 0x1f \<noteq> 0"
    "fld (ucast i) 15 0x1f = fld (ucast i) 7 0x1f" "fld (ucast i) 25 0x7f \<le> 1" "\<not> bit i 25"
  shows "expands (shift_form 0x0002 (fld (ucast i) 20 0x1f) (fld (ucast i) 7 0x1f)) xlen i"
proof -
  define c where "c = shift_form 0x0002 (fld (ucast i) 20 0x1f) (fld (ucast i) 7 0x1f)"
  have c: "c = halfword
      False True (bit i 20) (bit i 21) (bit i 22) (bit i 23) (bit i 24) (bit i 7) (bit i 8) (bit i 9)
      (bit i 10) (bit i 11) False False False False"
    unfolding c_def by (simp add: layout_simps shift_form_def)
  note bits = halfword_dest [OF c]
      op_bits [OF assms(1)] f3_bits [OF assms(2)] fld_nonzero [OF assms(3)] rs1_bits [OF assms(4)]
      f7_le_1_bits [OF assms(5)] assms(6)
  show ?thesis
    unfolding expands_def c_def [symmetric] using bits halfword_dest_16 [OF c]
    by (simp add: rvc_branch rd_iff(2) rd_iff(3) rvc_expand2_def top3_iff [OF halfword_dest_16 [OF c]]) (simp only: insn_bits rvc_sh_def enc_i_def, simp add: insn_eval)
qed

lemma expand_sri64:
  fixes i :: u32
  assumes
    "fld (ucast i) 0 0x7f = 0x13" "fld (ucast i) 12 7 = 5" "0 \<le> creg (fld (ucast i) 7 0x1f)"
    "fld (ucast i) 15 0x1f = fld (ucast i) 7 0x1f"
    "fld (ucast i) 25 0x7f AND NOT 1 = 0 \<or> fld (ucast i) 25 0x7f AND NOT 1 = 0x20" "xlen = 64"
  shows "expands (shift_form 0x8001 (fld (ucast i) 20 0x3f) (creg (fld (ucast i) 7 0x1f)) OR push_bit 10 (if fld (ucast i) 25 0x7f AND 0x20 \<noteq> 0 then 1 else 0)) xlen i"
proof -
  define c where "c = shift_form 0x8001 (fld (ucast i) 20 0x3f) (creg (fld (ucast i) 7 0x1f)) OR push_bit 10 (if fld (ucast i) 25 0x7f AND 0x20 \<noteq> 0 then 1 else 0)"
  have c: "c = halfword
      True False (bit i 20) (bit i 21) (bit i 22) (bit i 23) (bit i 24) (bit i 7) (bit i 8) (bit i 9)
      (bit i 30) False (bit i 25) False False True"
    unfolding c_def by (simp add: layout_simps shift_form_def bit_creg [OF assms(3)] f7_shift_bits(6) [OF assms(5)])
  note bits = halfword_dest [OF c]
      op_bits [OF assms(1)] f3_bits [OF assms(2)] creg_bits(1) [OF assms(3)] rs1_bits [OF assms(4)]
      f7_shift_bits [OF assms(5)]
  show ?thesis
    unfolding expands_def c_def [symmetric] using bits halfword_dest_16 [OF c]
    by (simp add: rvc_branch rd_iff(2) rd_iff(3) rvc_expand1_def rvc_misc_alu_def assms(6) top3_iff [OF halfword_dest_16 [OF c]]) (simp only: insn_bits rvc_sh_def enc_i_def, simp add: insn_eval)
qed

lemma expand_sri32:
  fixes i :: u32
  assumes
    "fld (ucast i) 0 0x7f = 0x13" "fld (ucast i) 12 7 = 5" "0 \<le> creg (fld (ucast i) 7 0x1f)"
    "fld (ucast i) 15 0x1f = fld (ucast i) 7 0x1f"
    "fld (ucast i) 25 0x7f AND NOT 1 = 0 \<or> fld (ucast i) 25 0x7f AND NOT 1 = 0x20" "\<not> bit i 25"
  shows "expands (shift_form 0x8001 (fld (ucast i) 20 0x1f) (creg (fld (ucast i) 7 0x1f)) OR push_bit 10 (if fld (ucast i) 25 0x7f AND 0x20 \<noteq> 0 then 1 else 0)) xlen i"
proof -
  define c where "c = shift_form 0x8001 (fld (ucast i) 20 0x1f) (creg (fld (ucast i) 7 0x1f)) OR push_bit 10 (if fld (ucast i) 25 0x7f AND 0x20 \<noteq> 0 then 1 else 0)"
  have c: "c = halfword
      True False (bit i 20) (bit i 21) (bit i 22) (bit i 23) (bit i 24) (bit i 7) (bit i 8) (bit i 9)
      (bit i 30) False False False False True"
    unfolding c_def by (simp add: layout_simps shift_form_def bit_creg [OF assms(3)] f7_shift_bits(6) [OF assms(5)])
  note bits = halfword_dest [OF c]
      op_bits [OF assms(1)] f3_bits [OF assms(2)] creg_bits(1) [OF assms(3)] rs1_bits [OF assms(4)]
      f7_shift_bits [OF assms(5)] assms(6)
  show ?thesis
    unfolding expands_def c_def [symmetric] using bits halfword_dest_16 [OF c]
    by (simp add: rvc_branch rd_iff(2) rd_iff(3) rvc_expand1_def rvc_misc_alu_def top3_iff [OF halfword_dest_16 [OF c]]) (simp only: insn_bits rvc_sh_def enc_i_def, simp add: insn_eval)
qed

lemma expand_add_zero:
  fixes i :: u32
  assumes
    "fld (ucast i) 0 0x7f = 0x33" "fld (ucast i) 12 7 = 0" "fld (ucast i) 25 0x7f = 0"
    "fld (ucast i) 15 0x1f = 0" "fld (ucast i) 20 0x1f \<noteq> 0"
  shows "expands (0x8002 OR push_bit 2 (cu (fld (ucast i) 20 0x1f)) OR push_bit 7 (cu (fld (ucast i) 7 0x1f))) xlen i"
proof -
  define c where "c = 0x8002 OR push_bit 2 (cu (fld (ucast i) 20 0x1f)) OR push_bit 7 (cu (fld (ucast i) 7 0x1f))"
  have c: "c = halfword
      False True (bit i 20) (bit i 21) (bit i 22) (bit i 23) (bit i 24) (bit i 7) (bit i 8) (bit i 9)
      (bit i 10) (bit i 11) False False False True"
    unfolding c_def by (simp add: layout_simps )
  note bits = halfword_dest [OF c]
      op_bits [OF assms(1)] f3_bits [OF assms(2)] f7_bits [OF assms(3)] rs1_bits [OF assms(4)]
      fld_nonzero [OF assms(5)]
  have nz: "drop_bit 2 c AND 31 \<noteq> 0"
    using bits by (auto simp: rd_iff(3) bit_fld)
  show ?thesis
    unfolding expands_def c_def [symmetric] using bits halfword_dest_16 [OF c]
    by (simp add: rvc_branch rd_iff(2) nz rvc_expand2_def top3_iff [OF halfword_dest_16 [OF c]]) (simp only: insn_bits enc_r_def, simp add: insn_eval)
qed

lemma expand_add:
  fixes i :: u32
  assumes
    "fld (ucast i) 0 0x7f = 0x33" "fld (ucast i) 12 7 = 0" "fld (ucast i) 25 0x7f = 0"
    "fld (ucast i) 15 0x1f = fld (ucast i) 7 0x1f" "fld (ucast i) 20 0x1f \<noteq> 0"
  shows "expands (0x9002 OR push_bit 2 (cu (fld (ucast i) 20 0x1f)) OR push_bit 7 (cu (fld (ucast i) 7 0x1f))) xlen i"
proof -
  define c where "c = 0x9002 OR push_bit 2 (cu (fld (ucast i) 20 0x1f)) OR push_bit 7 (cu (fld (ucast i) 7 0x1f))"
  have c: "c = halfword
      False True (bit i 20) (bit i 21) (bit i 22) (bit i 23) (bit i 24) (bit i 7) (bit i 8) (bit i 9)
      (bit i 10) (bit i 11) True False False True"
    unfolding c_def by (simp add: layout_simps )
  note bits = halfword_dest [OF c]
      op_bits [OF assms(1)] f3_bits [OF assms(2)] f7_bits [OF assms(3)] rs1_bits [OF assms(4)]
      fld_nonzero [OF assms(5)]
  have nz: "drop_bit 2 c AND 31 \<noteq> 0"
    using bits by (auto simp: rd_iff(3) bit_fld)
  show ?thesis
    unfolding expands_def c_def [symmetric] using bits halfword_dest_16 [OF c]
    by (simp add: rvc_branch rd_iff(2) nz rvc_expand2_def top3_iff [OF halfword_dest_16 [OF c]]) (simp only: insn_bits enc_r_def, simp add: insn_eval)
qed

lemma expand_sub:
  fixes i :: u32
  assumes
    "fld (ucast i) 0 0x7f = 0x33" "fld (ucast i) 12 7 = 0" "fld (ucast i) 25 0x7f = 0x20"
    "0 \<le> creg (fld (ucast i) 7 0x1f)" "fld (ucast i) 15 0x1f = fld (ucast i) 7 0x1f"
    "0 \<le> creg (fld (ucast i) 20 0x1f)"
  shows "expands (cr_ca 0x8001 0x23 (creg (fld (ucast i) 7 0x1f)) 0 (creg (fld (ucast i) 20 0x1f))) xlen i"
proof -
  define c where "c = cr_ca 0x8001 0x23 (creg (fld (ucast i) 7 0x1f)) 0 (creg (fld (ucast i) 20 0x1f))"
  have c: "c = halfword
      True False (bit i 20) (bit i 21) (bit i 22) False False (bit i 7) (bit i 8) (bit i 9) True True False
      False False True"
    unfolding c_def by (simp add: layout_simps cr_ca_def bit_creg [OF assms(4)] bit_creg [OF assms(6)])
  note bits = halfword_dest [OF c]
      op_bits [OF assms(1)] f3_bits [OF assms(2)] f7_bits [OF assms(3)] creg_bits(1) [OF assms(4)]
      rs1_bits [OF assms(5)] creg_bits(3) [OF assms(6)]
  have f2: "drop_bit 5 c AND 3 = 0"
    using bits by (simp add: word32_bits insn_eval)
  show ?thesis
    unfolding expands_def c_def [symmetric] using bits halfword_dest_16 [OF c]
    by (simp add: rvc_branch f2 rd_iff(2) rd_iff(3) rvc_expand1_def rvc_misc_alu_def top3_iff [OF halfword_dest_16 [OF c]]) (simp only: insn_bits enc_r_def, simp add: insn_eval)
qed

lemma expand_xor:
  fixes i :: u32
  assumes
    "fld (ucast i) 0 0x7f = 0x33" "fld (ucast i) 12 7 = 4" "fld (ucast i) 25 0x7f = 0"
    "0 \<le> creg (fld (ucast i) 7 0x1f)" "fld (ucast i) 15 0x1f = fld (ucast i) 7 0x1f"
    "0 \<le> creg (fld (ucast i) 20 0x1f)"
  shows "expands (cr_ca 0x8001 0x23 (creg (fld (ucast i) 7 0x1f)) 1 (creg (fld (ucast i) 20 0x1f))) xlen i"
proof -
  define c where "c = cr_ca 0x8001 0x23 (creg (fld (ucast i) 7 0x1f)) 1 (creg (fld (ucast i) 20 0x1f))"
  have c: "c = halfword
      True False (bit i 20) (bit i 21) (bit i 22) True False (bit i 7) (bit i 8) (bit i 9) True True False
      False False True"
    unfolding c_def by (simp add: layout_simps cr_ca_def bit_creg [OF assms(4)] bit_creg [OF assms(6)])
  note bits = halfword_dest [OF c]
      op_bits [OF assms(1)] f3_bits [OF assms(2)] f7_bits [OF assms(3)] creg_bits(1) [OF assms(4)]
      rs1_bits [OF assms(5)] creg_bits(3) [OF assms(6)]
  have f2: "drop_bit 5 c AND 3 = 1"
    using bits by (simp add: word32_bits insn_eval)
  show ?thesis
    unfolding expands_def c_def [symmetric] using bits halfword_dest_16 [OF c]
    by (simp add: rvc_branch f2 rd_iff(2) rd_iff(3) rvc_expand1_def rvc_misc_alu_def top3_iff [OF halfword_dest_16 [OF c]]) (simp only: insn_bits enc_r_def, simp add: insn_eval)
qed

lemma expand_or:
  fixes i :: u32
  assumes
    "fld (ucast i) 0 0x7f = 0x33" "fld (ucast i) 12 7 = 6" "fld (ucast i) 25 0x7f = 0"
    "0 \<le> creg (fld (ucast i) 7 0x1f)" "fld (ucast i) 15 0x1f = fld (ucast i) 7 0x1f"
    "0 \<le> creg (fld (ucast i) 20 0x1f)"
  shows "expands (cr_ca 0x8001 0x23 (creg (fld (ucast i) 7 0x1f)) 2 (creg (fld (ucast i) 20 0x1f))) xlen i"
proof -
  define c where "c = cr_ca 0x8001 0x23 (creg (fld (ucast i) 7 0x1f)) 2 (creg (fld (ucast i) 20 0x1f))"
  have c: "c = halfword
      True False (bit i 20) (bit i 21) (bit i 22) False True (bit i 7) (bit i 8) (bit i 9) True True False
      False False True"
    unfolding c_def by (simp add: layout_simps cr_ca_def bit_creg [OF assms(4)] bit_creg [OF assms(6)])
  note bits = halfword_dest [OF c]
      op_bits [OF assms(1)] f3_bits [OF assms(2)] f7_bits [OF assms(3)] creg_bits(1) [OF assms(4)]
      rs1_bits [OF assms(5)] creg_bits(3) [OF assms(6)]
  have f2: "drop_bit 5 c AND 3 = 2"
    using bits by (simp add: word32_bits insn_eval)
  show ?thesis
    unfolding expands_def c_def [symmetric] using bits halfword_dest_16 [OF c]
    by (simp add: rvc_branch f2 rd_iff(2) rd_iff(3) rvc_expand1_def rvc_misc_alu_def top3_iff [OF halfword_dest_16 [OF c]]) (simp only: insn_bits enc_r_def, simp add: insn_eval)
qed

lemma expand_and:
  fixes i :: u32
  assumes
    "fld (ucast i) 0 0x7f = 0x33" "fld (ucast i) 12 7 = 7" "fld (ucast i) 25 0x7f = 0"
    "0 \<le> creg (fld (ucast i) 7 0x1f)" "fld (ucast i) 15 0x1f = fld (ucast i) 7 0x1f"
    "0 \<le> creg (fld (ucast i) 20 0x1f)"
  shows "expands (cr_ca 0x8001 0x23 (creg (fld (ucast i) 7 0x1f)) 3 (creg (fld (ucast i) 20 0x1f))) xlen i"
proof -
  define c where "c = cr_ca 0x8001 0x23 (creg (fld (ucast i) 7 0x1f)) 3 (creg (fld (ucast i) 20 0x1f))"
  have c: "c = halfword
      True False (bit i 20) (bit i 21) (bit i 22) True True (bit i 7) (bit i 8) (bit i 9) True True False False
      False True"
    unfolding c_def by (simp add: layout_simps cr_ca_def bit_creg [OF assms(4)] bit_creg [OF assms(6)])
  note bits = halfword_dest [OF c]
      op_bits [OF assms(1)] f3_bits [OF assms(2)] f7_bits [OF assms(3)] creg_bits(1) [OF assms(4)]
      rs1_bits [OF assms(5)] creg_bits(3) [OF assms(6)]
  have f2: "drop_bit 5 c AND 3 = 3"
    using bits by (simp add: word32_bits insn_eval)
  show ?thesis
    unfolding expands_def c_def [symmetric] using bits halfword_dest_16 [OF c]
    by (simp add: rvc_branch f2 rd_iff(2) rd_iff(3) rvc_expand1_def rvc_misc_alu_def top3_iff [OF halfword_dest_16 [OF c]]) (simp only: insn_bits enc_r_def, simp add: insn_eval)
qed

lemma expand_subw:
  fixes i :: u32
  assumes
    "fld (ucast i) 0 0x7f = 0x3b" "fld (ucast i) 12 7 = 0" "fld (ucast i) 25 0x7f = 0x20"
    "0 \<le> creg (fld (ucast i) 7 0x1f)" "fld (ucast i) 15 0x1f = fld (ucast i) 7 0x1f"
    "0 \<le> creg (fld (ucast i) 20 0x1f)" "xlen = 64"
  shows "expands (cr_ca 0x9001 0x27 (creg (fld (ucast i) 7 0x1f)) 0 (creg (fld (ucast i) 20 0x1f))) xlen i"
proof -
  define c where "c = cr_ca 0x9001 0x27 (creg (fld (ucast i) 7 0x1f)) 0 (creg (fld (ucast i) 20 0x1f))"
  have c: "c = halfword
      True False (bit i 20) (bit i 21) (bit i 22) False False (bit i 7) (bit i 8) (bit i 9) True True True
      False False True"
    unfolding c_def by (simp add: layout_simps cr_ca_def bit_creg [OF assms(4)] bit_creg [OF assms(6)])
  note bits = halfword_dest [OF c]
      op_bits [OF assms(1)] f3_bits [OF assms(2)] f7_bits [OF assms(3)] creg_bits(1) [OF assms(4)]
      rs1_bits [OF assms(5)] creg_bits(3) [OF assms(6)]
  have f2: "drop_bit 5 c AND 3 = 0"
    using bits by (simp add: word32_bits insn_eval)
  show ?thesis
    unfolding expands_def c_def [symmetric] using bits halfword_dest_16 [OF c]
    by (simp add: rvc_branch f2 rd_iff(2) rd_iff(3) rvc_expand1_def rvc_misc_alu_def assms(7) top3_iff [OF halfword_dest_16 [OF c]]) (simp only: insn_bits enc_r_def, simp add: insn_eval)
qed

lemma expand_addw:
  fixes i :: u32
  assumes
    "fld (ucast i) 0 0x7f = 0x3b" "fld (ucast i) 12 7 = 0" "fld (ucast i) 25 0x7f = 0"
    "0 \<le> creg (fld (ucast i) 7 0x1f)" "fld (ucast i) 15 0x1f = fld (ucast i) 7 0x1f"
    "0 \<le> creg (fld (ucast i) 20 0x1f)" "xlen = 64"
  shows "expands (cr_ca 0x9001 0x27 (creg (fld (ucast i) 7 0x1f)) 1 (creg (fld (ucast i) 20 0x1f))) xlen i"
proof -
  define c where "c = cr_ca 0x9001 0x27 (creg (fld (ucast i) 7 0x1f)) 1 (creg (fld (ucast i) 20 0x1f))"
  have c: "c = halfword
      True False (bit i 20) (bit i 21) (bit i 22) True False (bit i 7) (bit i 8) (bit i 9) True True True False
      False True"
    unfolding c_def by (simp add: layout_simps cr_ca_def bit_creg [OF assms(4)] bit_creg [OF assms(6)])
  note bits = halfword_dest [OF c]
      op_bits [OF assms(1)] f3_bits [OF assms(2)] f7_bits [OF assms(3)] creg_bits(1) [OF assms(4)]
      rs1_bits [OF assms(5)] creg_bits(3) [OF assms(6)]
  have f2: "drop_bit 5 c AND 3 = 1"
    using bits by (simp add: word32_bits insn_eval)
  show ?thesis
    unfolding expands_def c_def [symmetric] using bits halfword_dest_16 [OF c]
    by (simp add: rvc_branch f2 rd_iff(2) rd_iff(3) rvc_expand1_def rvc_misc_alu_def assms(7) top3_iff [OF halfword_dest_16 [OF c]]) (simp only: insn_bits enc_r_def, simp add: insn_eval)
qed

lemma expand_lw:
  fixes i :: u32
  assumes
    "fld (ucast i) 0 0x7f = 0x03" "fld (ucast i) 12 7 = 2" "0 \<le> creg (fld (ucast i) 7 0x1f)"
    "0 \<le> creg (fld (ucast i) 15 0x1f)" "0 \<le> immi_of (ucast i)" "immi_of (ucast i) < 128"
    "immi_of (ucast i) AND 3 = 0"
  shows "expands (lw_form 0x4000 (cu (immi_of (ucast i))) (creg (fld (ucast i) 7 0x1f)) (creg (fld (ucast i) 15 0x1f))) xlen i"
proof -
  define c where "c = lw_form 0x4000 (cu (immi_of (ucast i))) (creg (fld (ucast i) 7 0x1f)) (creg (fld (ucast i) 15 0x1f))"
  have c: "c = halfword
      False False (bit i 7) (bit i 8) (bit i 9) (bit i 26) (bit i 22) (bit i 15) (bit i 16) (bit i 17)
      (bit i 23) (bit i 24) (bit i 25) False True False"
    unfolding c_def by (simp add: layout_simps lw_form_def bit_creg [OF assms(3)] bit_creg [OF assms(4)])
  note bits = halfword_dest [OF c]
      op_bits [OF assms(1)] f3_bits [OF assms(2)] creg_bits(1) [OF assms(3)] creg_bits(2) [OF assms(4)]
      immi_below(1) [OF assms(5) assms(6)] immi_aligned(1) [OF assms(7)]
  show ?thesis
    unfolding expands_def c_def [symmetric] using bits halfword_dest_16 [OF c]
    by (simp add: rvc_branch rd_iff(2) rd_iff(3) rvc_expand0_def top3_iff [OF halfword_dest_16 [OF c]]) (simp only: insn_bits rvc_ulw_def enc_i_def, simp add: insn_eval)
qed

lemma expand_ldsp:
  fixes i :: u32
  assumes
    "fld (ucast i) 0 0x7f = 0x03" "fld (ucast i) 12 7 = 3" "fld (ucast i) 7 0x1f \<noteq> 0"
    "fld (ucast i) 15 0x1f = 2" "0 \<le> immi_of (ucast i)" "immi_of (ucast i) < 512"
    "immi_of (ucast i) AND 7 = 0" "xlen = 64"
  shows "expands (ldsp_form 0x6002 (cu (immi_of (ucast i))) (fld (ucast i) 7 0x1f)) xlen i"
proof -
  define c where "c = ldsp_form 0x6002 (cu (immi_of (ucast i))) (fld (ucast i) 7 0x1f)"
  have c: "c = halfword
      False True (bit i 26) (bit i 27) (bit i 28) (bit i 23) (bit i 24) (bit i 7) (bit i 8) (bit i 9)
      (bit i 10) (bit i 11) (bit i 25) True True False"
    unfolding c_def by (simp add: layout_simps ldsp_form_def)
  note bits = halfword_dest [OF c]
      op_bits [OF assms(1)] f3_bits [OF assms(2)] fld_nonzero [OF assms(3)] rs1_bits [OF assms(4)]
      immi_below(3) [OF assms(5) assms(6)] immi_aligned(2) [OF assms(7)]
  have nz: "drop_bit 7 c AND 31 \<noteq> 0"
    using bits by (auto simp: rd_iff(1) bit_fld)
  show ?thesis
    unfolding expands_def c_def [symmetric] using bits halfword_dest_16 [OF c]
    by (simp add: rvc_branch rd_iff(2) rd_iff(3) nz rvc_expand2_def assms(8) top3_iff [OF halfword_dest_16 [OF c]]) (simp only: insn_bits rvc_sld_def enc_i_def, simp add: insn_eval)
qed

lemma expand_ld:
  fixes i :: u32
  assumes
    "fld (ucast i) 0 0x7f = 0x03" "fld (ucast i) 12 7 = 3" "0 \<le> creg (fld (ucast i) 7 0x1f)"
    "0 \<le> creg (fld (ucast i) 15 0x1f)" "0 \<le> immi_of (ucast i)" "immi_of (ucast i) < 256"
    "immi_of (ucast i) AND 7 = 0" "xlen = 64"
  shows "expands (ld_form 0x6000 (cu (immi_of (ucast i))) (creg (fld (ucast i) 7 0x1f)) (creg (fld (ucast i) 15 0x1f))) xlen i"
proof -
  define c where "c = ld_form 0x6000 (cu (immi_of (ucast i))) (creg (fld (ucast i) 7 0x1f)) (creg (fld (ucast i) 15 0x1f))"
  have c: "c = halfword
      False False (bit i 7) (bit i 8) (bit i 9) (bit i 26) (bit i 27) (bit i 15) (bit i 16) (bit i 17)
      (bit i 23) (bit i 24) (bit i 25) True True False"
    unfolding c_def by (simp add: layout_simps ld_form_def bit_creg [OF assms(3)] bit_creg [OF assms(4)])
  note bits = halfword_dest [OF c]
      op_bits [OF assms(1)] f3_bits [OF assms(2)] creg_bits(1) [OF assms(3)] creg_bits(2) [OF assms(4)]
      immi_below(2) [OF assms(5) assms(6)] immi_aligned(2) [OF assms(7)]
  show ?thesis
    unfolding expands_def c_def [symmetric] using bits halfword_dest_16 [OF c]
    by (simp add: rvc_branch rd_iff(2) rd_iff(3) rvc_expand0_def assms(8) top3_iff [OF halfword_dest_16 [OF c]]) (simp only: insn_bits rvc_uld_def enc_i_def, simp add: insn_eval)
qed

lemma expand_fldsp:
  fixes i :: u32
  assumes
    "fld (ucast i) 0 0x7f = 0x07" "fld (ucast i) 12 7 = 3" "fld (ucast i) 15 0x1f = 2"
    "0 \<le> immi_of (ucast i)" "immi_of (ucast i) < 512" "immi_of (ucast i) AND 7 = 0"
  shows "expands (ldsp_form 0x2002 (cu (immi_of (ucast i))) (fld (ucast i) 7 0x1f)) xlen i"
proof -
  define c where "c = ldsp_form 0x2002 (cu (immi_of (ucast i))) (fld (ucast i) 7 0x1f)"
  have c: "c = halfword
      False True (bit i 26) (bit i 27) (bit i 28) (bit i 23) (bit i 24) (bit i 7) (bit i 8) (bit i 9)
      (bit i 10) (bit i 11) (bit i 25) True False False"
    unfolding c_def by (simp add: layout_simps ldsp_form_def)
  note bits = halfword_dest [OF c]
      op_bits [OF assms(1)] f3_bits [OF assms(2)] rs1_bits [OF assms(3)] immi_below(3) [OF assms(4) assms(5)]
      immi_aligned(2) [OF assms(6)]
  show ?thesis
    unfolding expands_def c_def [symmetric] using bits halfword_dest_16 [OF c]
    by (simp add: rvc_branch rd_iff(2) rd_iff(3) rvc_expand2_def top3_iff [OF halfword_dest_16 [OF c]]) (simp only: insn_bits rvc_sld_def enc_i_def, simp add: insn_eval)
qed

lemma expand_fld:
  fixes i :: u32
  assumes
    "fld (ucast i) 0 0x7f = 0x07" "fld (ucast i) 12 7 = 3" "0 \<le> creg (fld (ucast i) 7 0x1f)"
    "0 \<le> creg (fld (ucast i) 15 0x1f)" "0 \<le> immi_of (ucast i)" "immi_of (ucast i) < 256"
    "immi_of (ucast i) AND 7 = 0"
  shows "expands (ld_form 0x2000 (cu (immi_of (ucast i))) (creg (fld (ucast i) 7 0x1f)) (creg (fld (ucast i) 15 0x1f))) xlen i"
proof -
  define c where "c = ld_form 0x2000 (cu (immi_of (ucast i))) (creg (fld (ucast i) 7 0x1f)) (creg (fld (ucast i) 15 0x1f))"
  have c: "c = halfword
      False False (bit i 7) (bit i 8) (bit i 9) (bit i 26) (bit i 27) (bit i 15) (bit i 16) (bit i 17)
      (bit i 23) (bit i 24) (bit i 25) True False False"
    unfolding c_def by (simp add: layout_simps ld_form_def bit_creg [OF assms(3)] bit_creg [OF assms(4)])
  note bits = halfword_dest [OF c]
      op_bits [OF assms(1)] f3_bits [OF assms(2)] creg_bits(1) [OF assms(3)] creg_bits(2) [OF assms(4)]
      immi_below(2) [OF assms(5) assms(6)] immi_aligned(2) [OF assms(7)]
  show ?thesis
    unfolding expands_def c_def [symmetric] using bits halfword_dest_16 [OF c]
    by (simp add: rvc_branch rd_iff(2) rd_iff(3) rvc_expand0_def top3_iff [OF halfword_dest_16 [OF c]]) (simp only: insn_bits rvc_uld_def enc_i_def, simp add: insn_eval)
qed

lemma expand_flwsp:
  fixes i :: u32
  assumes
    "fld (ucast i) 0 0x7f = 0x07" "fld (ucast i) 12 7 = 2" "fld (ucast i) 15 0x1f = 2"
    "0 \<le> immi_of (ucast i)" "immi_of (ucast i) < 256" "immi_of (ucast i) AND 3 = 0" "xlen = 32"
  shows "expands (lwsp_form 0x6002 (cu (immi_of (ucast i))) (fld (ucast i) 7 0x1f)) xlen i"
proof -
  define c where "c = lwsp_form 0x6002 (cu (immi_of (ucast i))) (fld (ucast i) 7 0x1f)"
  have c: "c = halfword
      False True (bit i 26) (bit i 27) (bit i 22) (bit i 23) (bit i 24) (bit i 7) (bit i 8) (bit i 9)
      (bit i 10) (bit i 11) (bit i 25) True True False"
    unfolding c_def by (simp add: layout_simps lwsp_form_def)
  note bits = halfword_dest [OF c]
      op_bits [OF assms(1)] f3_bits [OF assms(2)] rs1_bits [OF assms(3)] immi_below(2) [OF assms(4) assms(5)]
      immi_aligned(1) [OF assms(6)]
  show ?thesis
    unfolding expands_def c_def [symmetric] using bits halfword_dest_16 [OF c]
    by (simp add: rvc_branch rd_iff(2) rd_iff(3) rvc_expand2_def assms(7) top3_iff [OF halfword_dest_16 [OF c]]) (simp only: insn_bits rvc_slw_def enc_i_def, simp add: insn_eval)
qed

lemma expand_flw:
  fixes i :: u32
  assumes
    "fld (ucast i) 0 0x7f = 0x07" "fld (ucast i) 12 7 = 2" "0 \<le> creg (fld (ucast i) 7 0x1f)"
    "0 \<le> creg (fld (ucast i) 15 0x1f)" "0 \<le> immi_of (ucast i)" "immi_of (ucast i) < 128"
    "immi_of (ucast i) AND 3 = 0" "xlen = 32"
  shows "expands (lw_form 0x6000 (cu (immi_of (ucast i))) (creg (fld (ucast i) 7 0x1f)) (creg (fld (ucast i) 15 0x1f))) xlen i"
proof -
  define c where "c = lw_form 0x6000 (cu (immi_of (ucast i))) (creg (fld (ucast i) 7 0x1f)) (creg (fld (ucast i) 15 0x1f))"
  have c: "c = halfword
      False False (bit i 7) (bit i 8) (bit i 9) (bit i 26) (bit i 22) (bit i 15) (bit i 16) (bit i 17)
      (bit i 23) (bit i 24) (bit i 25) True True False"
    unfolding c_def by (simp add: layout_simps lw_form_def bit_creg [OF assms(3)] bit_creg [OF assms(4)])
  note bits = halfword_dest [OF c]
      op_bits [OF assms(1)] f3_bits [OF assms(2)] creg_bits(1) [OF assms(3)] creg_bits(2) [OF assms(4)]
      immi_below(1) [OF assms(5) assms(6)] immi_aligned(1) [OF assms(7)]
  show ?thesis
    unfolding expands_def c_def [symmetric] using bits halfword_dest_16 [OF c]
    by (simp add: rvc_branch rd_iff(2) rd_iff(3) rvc_expand0_def assms(8) top3_iff [OF halfword_dest_16 [OF c]]) (simp only: insn_bits rvc_ulw_def enc_i_def, simp add: insn_eval)
qed

lemma expand_swsp:
  fixes i :: u32
  assumes
    "fld (ucast i) 0 0x7f = 0x23" "fld (ucast i) 12 7 = 2" "fld (ucast i) 15 0x1f = 2"
    "0 \<le> imms_of (ucast i)" "imms_of (ucast i) < 256" "imms_of (ucast i) AND 3 = 0"
  shows "expands (swsp_form 0xc002 (cu (imms_of (ucast i))) (fld (ucast i) 20 0x1f)) xlen i"
proof -
  define c where "c = swsp_form 0xc002 (cu (imms_of (ucast i))) (fld (ucast i) 20 0x1f)"
  have c: "c = halfword
      False True (bit i 20) (bit i 21) (bit i 22) (bit i 23) (bit i 24) (bit i 26) (bit i 27) (bit i 9)
      (bit i 10) (bit i 11) (bit i 25) False True True"
    unfolding c_def by (simp add: layout_simps swsp_form_def)
  note bits = halfword_dest [OF c]
      op_bits [OF assms(1)] f3_bits [OF assms(2)] rs1_bits [OF assms(3)] imms_below(2) [OF assms(4) assms(5)]
      imms_aligned(1) [OF assms(6)]
  show ?thesis
    unfolding expands_def c_def [symmetric] using bits halfword_dest_16 [OF c]
    by (simp add: rvc_branch rd_iff(2) rd_iff(3) rvc_expand2_def top3_iff [OF halfword_dest_16 [OF c]]) (simp only: insn_bits rvc_ssw_def enc_s_def, simp add: insn_eval)
qed

lemma expand_sw:
  fixes i :: u32
  assumes
    "fld (ucast i) 0 0x7f = 0x23" "fld (ucast i) 12 7 = 2" "0 \<le> creg (fld (ucast i) 15 0x1f)"
    "0 \<le> creg (fld (ucast i) 20 0x1f)" "0 \<le> imms_of (ucast i)" "imms_of (ucast i) < 128"
    "imms_of (ucast i) AND 3 = 0"
  shows "expands (lw_form 0xc000 (cu (imms_of (ucast i))) (creg (fld (ucast i) 20 0x1f)) (creg (fld (ucast i) 15 0x1f))) xlen i"
proof -
  define c where "c = lw_form 0xc000 (cu (imms_of (ucast i))) (creg (fld (ucast i) 20 0x1f)) (creg (fld (ucast i) 15 0x1f))"
  have c: "c = halfword
      False False (bit i 20) (bit i 21) (bit i 22) (bit i 26) (bit i 9) (bit i 15) (bit i 16) (bit i 17)
      (bit i 10) (bit i 11) (bit i 25) False True True"
    unfolding c_def by (simp add: layout_simps lw_form_def bit_creg [OF assms(3)] bit_creg [OF assms(4)])
  note bits = halfword_dest [OF c]
      op_bits [OF assms(1)] f3_bits [OF assms(2)] creg_bits(2) [OF assms(3)] creg_bits(3) [OF assms(4)]
      imms_below(1) [OF assms(5) assms(6)] imms_aligned(1) [OF assms(7)]
  show ?thesis
    unfolding expands_def c_def [symmetric] using bits halfword_dest_16 [OF c]
    by (simp add: rvc_branch rd_iff(2) rd_iff(3) rvc_expand0_def top3_iff [OF halfword_dest_16 [OF c]]) (simp only: insn_bits rvc_ulw_def enc_s_def, simp add: insn_eval)
qed

lemma expand_sdsp:
  fixes i :: u32
  assumes
    "fld (ucast i) 0 0x7f = 0x23" "fld (ucast i) 12 7 = 3" "fld (ucast i) 15 0x1f = 2"
    "0 \<le> imms_of (ucast i)" "imms_of (ucast i) < 512" "imms_of (ucast i) AND 7 = 0" "xlen = 64"
  shows "expands (sdsp_form 0xe002 (cu (imms_of (ucast i))) (fld (ucast i) 20 0x1f)) xlen i"
proof -
  define c where "c = sdsp_form 0xe002 (cu (imms_of (ucast i))) (fld (ucast i) 20 0x1f)"
  have c: "c = halfword
      False True (bit i 20) (bit i 21) (bit i 22) (bit i 23) (bit i 24) (bit i 26) (bit i 27) (bit i 28)
      (bit i 10) (bit i 11) (bit i 25) True True True"
    unfolding c_def by (simp add: layout_simps sdsp_form_def)
  note bits = halfword_dest [OF c]
      op_bits [OF assms(1)] f3_bits [OF assms(2)] rs1_bits [OF assms(3)] imms_below(3) [OF assms(4) assms(5)]
      imms_aligned(2) [OF assms(6)]
  show ?thesis
    unfolding expands_def c_def [symmetric] using bits halfword_dest_16 [OF c]
    by (simp add: rvc_branch rd_iff(2) rd_iff(3) rvc_expand2_def assms(7) top3_iff [OF halfword_dest_16 [OF c]]) (simp only: insn_bits rvc_ssd_def enc_s_def, simp add: insn_eval)
qed

lemma expand_sd:
  fixes i :: u32
  assumes
    "fld (ucast i) 0 0x7f = 0x23" "fld (ucast i) 12 7 = 3" "0 \<le> creg (fld (ucast i) 15 0x1f)"
    "0 \<le> creg (fld (ucast i) 20 0x1f)" "0 \<le> imms_of (ucast i)" "imms_of (ucast i) < 256"
    "imms_of (ucast i) AND 7 = 0" "xlen = 64"
  shows "expands (ld_form 0xe000 (cu (imms_of (ucast i))) (creg (fld (ucast i) 20 0x1f)) (creg (fld (ucast i) 15 0x1f))) xlen i"
proof -
  define c where "c = ld_form 0xe000 (cu (imms_of (ucast i))) (creg (fld (ucast i) 20 0x1f)) (creg (fld (ucast i) 15 0x1f))"
  have c: "c = halfword
      False False (bit i 20) (bit i 21) (bit i 22) (bit i 26) (bit i 27) (bit i 15) (bit i 16) (bit i 17)
      (bit i 10) (bit i 11) (bit i 25) True True True"
    unfolding c_def by (simp add: layout_simps ld_form_def bit_creg [OF assms(3)] bit_creg [OF assms(4)])
  note bits = halfword_dest [OF c]
      op_bits [OF assms(1)] f3_bits [OF assms(2)] creg_bits(2) [OF assms(3)] creg_bits(3) [OF assms(4)]
      imms_below(2) [OF assms(5) assms(6)] imms_aligned(2) [OF assms(7)]
  show ?thesis
    unfolding expands_def c_def [symmetric] using bits halfword_dest_16 [OF c]
    by (simp add: rvc_branch rd_iff(2) rd_iff(3) rvc_expand0_def assms(8) top3_iff [OF halfword_dest_16 [OF c]]) (simp only: insn_bits rvc_uld_def enc_s_def, simp add: insn_eval)
qed

lemma expand_fsdsp:
  fixes i :: u32
  assumes
    "fld (ucast i) 0 0x7f = 0x27" "fld (ucast i) 12 7 = 3" "fld (ucast i) 15 0x1f = 2"
    "0 \<le> imms_of (ucast i)" "imms_of (ucast i) < 512" "imms_of (ucast i) AND 7 = 0"
  shows "expands (sdsp_form 0xa002 (cu (imms_of (ucast i))) (fld (ucast i) 20 0x1f)) xlen i"
proof -
  define c where "c = sdsp_form 0xa002 (cu (imms_of (ucast i))) (fld (ucast i) 20 0x1f)"
  have c: "c = halfword
      False True (bit i 20) (bit i 21) (bit i 22) (bit i 23) (bit i 24) (bit i 26) (bit i 27) (bit i 28)
      (bit i 10) (bit i 11) (bit i 25) True False True"
    unfolding c_def by (simp add: layout_simps sdsp_form_def)
  note bits = halfword_dest [OF c]
      op_bits [OF assms(1)] f3_bits [OF assms(2)] rs1_bits [OF assms(3)] imms_below(3) [OF assms(4) assms(5)]
      imms_aligned(2) [OF assms(6)]
  show ?thesis
    unfolding expands_def c_def [symmetric] using bits halfword_dest_16 [OF c]
    by (simp add: rvc_branch rd_iff(2) rd_iff(3) rvc_expand2_def top3_iff [OF halfword_dest_16 [OF c]]) (simp only: insn_bits rvc_ssd_def enc_s_def, simp add: insn_eval)
qed

lemma expand_fsd:
  fixes i :: u32
  assumes
    "fld (ucast i) 0 0x7f = 0x27" "fld (ucast i) 12 7 = 3" "0 \<le> creg (fld (ucast i) 15 0x1f)"
    "0 \<le> creg (fld (ucast i) 20 0x1f)" "0 \<le> imms_of (ucast i)" "imms_of (ucast i) < 256"
    "imms_of (ucast i) AND 7 = 0"
  shows "expands (ld_form 0xa000 (cu (imms_of (ucast i))) (creg (fld (ucast i) 20 0x1f)) (creg (fld (ucast i) 15 0x1f))) xlen i"
proof -
  define c where "c = ld_form 0xa000 (cu (imms_of (ucast i))) (creg (fld (ucast i) 20 0x1f)) (creg (fld (ucast i) 15 0x1f))"
  have c: "c = halfword
      False False (bit i 20) (bit i 21) (bit i 22) (bit i 26) (bit i 27) (bit i 15) (bit i 16) (bit i 17)
      (bit i 10) (bit i 11) (bit i 25) True False True"
    unfolding c_def by (simp add: layout_simps ld_form_def bit_creg [OF assms(3)] bit_creg [OF assms(4)])
  note bits = halfword_dest [OF c]
      op_bits [OF assms(1)] f3_bits [OF assms(2)] creg_bits(2) [OF assms(3)] creg_bits(3) [OF assms(4)]
      imms_below(2) [OF assms(5) assms(6)] imms_aligned(2) [OF assms(7)]
  show ?thesis
    unfolding expands_def c_def [symmetric] using bits halfword_dest_16 [OF c]
    by (simp add: rvc_branch rd_iff(2) rd_iff(3) rvc_expand0_def top3_iff [OF halfword_dest_16 [OF c]]) (simp only: insn_bits rvc_uld_def enc_s_def, simp add: insn_eval)
qed

lemma expand_fswsp:
  fixes i :: u32
  assumes
    "fld (ucast i) 0 0x7f = 0x27" "fld (ucast i) 12 7 = 2" "fld (ucast i) 15 0x1f = 2"
    "0 \<le> imms_of (ucast i)" "imms_of (ucast i) < 256" "imms_of (ucast i) AND 3 = 0" "xlen = 32"
  shows "expands (swsp_form 0xe002 (cu (imms_of (ucast i))) (fld (ucast i) 20 0x1f)) xlen i"
proof -
  define c where "c = swsp_form 0xe002 (cu (imms_of (ucast i))) (fld (ucast i) 20 0x1f)"
  have c: "c = halfword
      False True (bit i 20) (bit i 21) (bit i 22) (bit i 23) (bit i 24) (bit i 26) (bit i 27) (bit i 9)
      (bit i 10) (bit i 11) (bit i 25) True True True"
    unfolding c_def by (simp add: layout_simps swsp_form_def)
  note bits = halfword_dest [OF c]
      op_bits [OF assms(1)] f3_bits [OF assms(2)] rs1_bits [OF assms(3)] imms_below(2) [OF assms(4) assms(5)]
      imms_aligned(1) [OF assms(6)]
  show ?thesis
    unfolding expands_def c_def [symmetric] using bits halfword_dest_16 [OF c]
    by (simp add: rvc_branch rd_iff(2) rd_iff(3) rvc_expand2_def assms(7) top3_iff [OF halfword_dest_16 [OF c]]) (simp only: insn_bits rvc_ssw_def enc_s_def, simp add: insn_eval)
qed

lemma expand_fsw:
  fixes i :: u32
  assumes
    "fld (ucast i) 0 0x7f = 0x27" "fld (ucast i) 12 7 = 2" "0 \<le> creg (fld (ucast i) 15 0x1f)"
    "0 \<le> creg (fld (ucast i) 20 0x1f)" "0 \<le> imms_of (ucast i)" "imms_of (ucast i) < 128"
    "imms_of (ucast i) AND 3 = 0" "xlen = 32"
  shows "expands (lw_form 0xe000 (cu (imms_of (ucast i))) (creg (fld (ucast i) 20 0x1f)) (creg (fld (ucast i) 15 0x1f))) xlen i"
proof -
  define c where "c = lw_form 0xe000 (cu (imms_of (ucast i))) (creg (fld (ucast i) 20 0x1f)) (creg (fld (ucast i) 15 0x1f))"
  have c: "c = halfword
      False False (bit i 20) (bit i 21) (bit i 22) (bit i 26) (bit i 9) (bit i 15) (bit i 16) (bit i 17)
      (bit i 10) (bit i 11) (bit i 25) True True True"
    unfolding c_def by (simp add: layout_simps lw_form_def bit_creg [OF assms(3)] bit_creg [OF assms(4)])
  note bits = halfword_dest [OF c]
      op_bits [OF assms(1)] f3_bits [OF assms(2)] creg_bits(2) [OF assms(3)] creg_bits(3) [OF assms(4)]
      imms_below(1) [OF assms(5) assms(6)] imms_aligned(1) [OF assms(7)]
  show ?thesis
    unfolding expands_def c_def [symmetric] using bits halfword_dest_16 [OF c]
    by (simp add: rvc_branch rd_iff(2) rd_iff(3) rvc_expand0_def assms(8) top3_iff [OF halfword_dest_16 [OF c]]) (simp only: insn_bits rvc_ulw_def enc_s_def, simp add: insn_eval)
qed

lemma expand_jr:
  fixes i :: u32
  assumes
    "fld (ucast i) 0 0x7f = 0x67" "fld (ucast i) 12 7 = 0" "immi_of (ucast i) = 0"
    "fld (ucast i) 15 0x1f \<noteq> 0" "fld (ucast i) 7 0x1f = 0"
  shows "expands (0x8002 OR push_bit 7 (cu (fld (ucast i) 15 0x1f))) xlen i"
proof -
  define c where "c = 0x8002 OR push_bit 7 (cu (fld (ucast i) 15 0x1f))"
  have c: "c = halfword
      False True False False False False False (bit i 15) (bit i 16) (bit i 17) (bit i 18) (bit i 19) False
      False False True"
    unfolding c_def by (simp add: layout_simps )
  note bits = halfword_dest [OF c]
      op_bits [OF assms(1)] f3_bits [OF assms(2)] immi_zero_bits [OF assms(3)] fld_nonzero [OF assms(4)]
      rd_bits [OF assms(5)]
  have nz: "drop_bit 7 c AND 31 \<noteq> 0"
    using bits by (auto simp: rd_iff(1) bit_fld)
  show ?thesis
    unfolding expands_def c_def [symmetric] using bits halfword_dest_16 [OF c]
    by (simp add: rvc_branch rd_iff(2) rd_iff(3) nz rvc_expand2_def top3_iff [OF halfword_dest_16 [OF c]]) (simp only: insn_bits enc_i_def, simp add: insn_eval)
qed

lemma expand_jalr:
  fixes i :: u32
  assumes
    "fld (ucast i) 0 0x7f = 0x67" "fld (ucast i) 12 7 = 0" "immi_of (ucast i) = 0"
    "fld (ucast i) 15 0x1f \<noteq> 0" "fld (ucast i) 7 0x1f = 1"
  shows "expands (0x9002 OR push_bit 7 (cu (fld (ucast i) 15 0x1f))) xlen i"
proof -
  define c where "c = 0x9002 OR push_bit 7 (cu (fld (ucast i) 15 0x1f))"
  have c: "c = halfword
      False True False False False False False (bit i 15) (bit i 16) (bit i 17) (bit i 18) (bit i 19) True
      False False True"
    unfolding c_def by (simp add: layout_simps )
  note bits = halfword_dest [OF c]
      op_bits [OF assms(1)] f3_bits [OF assms(2)] immi_zero_bits [OF assms(3)] fld_nonzero [OF assms(4)]
      rd_bits [OF assms(5)]
  have nz: "drop_bit 7 c AND 31 \<noteq> 0"
    using bits by (auto simp: rd_iff(1) bit_fld)
  show ?thesis
    unfolding expands_def c_def [symmetric] using bits halfword_dest_16 [OF c]
    by (simp add: rvc_branch rd_iff(2) rd_iff(3) nz rvc_expand2_def top3_iff [OF halfword_dest_16 [OF c]]) (simp only: insn_bits enc_i_def, simp add: insn_eval)
qed

lemma expand_mv:
  fixes i :: u32
  assumes
    "fld (ucast i) 7 0x1f \<noteq> 0" "fld (ucast i) 15 0x1f \<noteq> 0"
  shows "expands (0x8002 OR push_bit 2 (cu (fld (ucast i) 15 0x1f)) OR push_bit 7 (cu (fld (ucast i) 7 0x1f))) xlen (enc_r 0x33 (drop_bit 7 i AND 31) 0 0 (drop_bit 15 i AND 31) 0)"
proof -
  define c where "c = 0x8002 OR push_bit 2 (cu (fld (ucast i) 15 0x1f)) OR push_bit 7 (cu (fld (ucast i) 7 0x1f))"
  have c: "c = halfword
      False True (bit i 15) (bit i 16) (bit i 17) (bit i 18) (bit i 19) (bit i 7) (bit i 8) (bit i 9)
      (bit i 10) (bit i 11) False False False True"
    unfolding c_def by (simp add: layout_simps )
  note bits = halfword_dest [OF c]
      fld_nonzero [OF assms(1)] fld_nonzero [OF assms(2)]
  have nz: "drop_bit 2 c AND 31 \<noteq> 0"
    using bits by (auto simp: rd_iff(3) bit_fld)
  show ?thesis
    unfolding expands_def c_def [symmetric] using bits halfword_dest_16 [OF c]
    by (simp add: rvc_branch rd_iff(2) nz rvc_expand2_def top3_iff [OF halfword_dest_16 [OF c]]) (simp only: insn_bits enc_r_def, simp add: insn_eval)
qed

lemma expand_li_word:
  fixes i :: u32
  assumes
    "fld (ucast i) 15 0x1f = 0" "- 32 \<le> immi_of (ucast i)" "immi_of (ucast i) < 32"
  shows "expands (ci_form 0x4001 (immi_of (ucast i)) (fld (ucast i) 7 0x1f)) xlen (enc_i 0x13 (drop_bit 7 i AND 31) 0 0 (drop_bit 20 i))"
proof -
  define c where "c = ci_form 0x4001 (immi_of (ucast i)) (fld (ucast i) 7 0x1f)"
  have c: "c = halfword
      True False (bit i 20) (bit i 21) (bit i 22) (bit i 23) (bit i 24) (bit i 7) (bit i 8) (bit i 9)
      (bit i 10) (bit i 11) (bit i 31) False True False"
    unfolding c_def by (simp add: layout_simps ci_form_def immi_negative)
  note bits = halfword_dest [OF c]
      rs1_bits [OF assms(1)] immi_small [OF assms(2) assms(3)]
  show ?thesis
    unfolding expands_def c_def [symmetric] using bits halfword_dest_16 [OF c]
    by (simp add: rvc_branch rd_iff(2) rd_iff(3) rvc_expand1_def top3_iff [OF halfword_dest_16 [OF c]]) (simp only: insn_bits rvc_ci_def enc_i_def, simp add: insn_eval)
qed

lemma expand_lui:
  fixes i :: u32
  assumes
    "fld (ucast i) 0 0x7f = 0x37" "fld (ucast i) 7 0x1f \<noteq> 0" "fld (ucast i) 7 0x1f \<noteq> 2"
    "upper_of (ucast i) \<noteq> 0" "- 32 \<le> upper_of (ucast i)" "upper_of (ucast i) < 32"
  shows "expands (ci_form 0x6001 (upper_of (ucast i)) (fld (ucast i) 7 0x1f)) xlen i"
proof -
  define c where "c = ci_form 0x6001 (upper_of (ucast i)) (fld (ucast i) 7 0x1f)"
  have c: "c = halfword
      True False (bit i 12) (bit i 13) (bit i 14) (bit i 15) (bit i 16) (bit i 7) (bit i 8) (bit i 9)
      (bit i 10) (bit i 11) (bit i 31) True True False"
    unfolding c_def by (simp add: layout_simps ci_form_def upper_negative bit_upper_of)
  note bits = halfword_dest [OF c]
      op_bits [OF assms(1)] fld_nonzero [OF assms(2)] rd_not_2_bits [OF assms(3)] upper_nonzero [OF assms(4)]
      upper_small [OF assms(5) assms(6)]
  have nz: "drop_bit 7 c AND 31 \<noteq> 2" "rvc_ci c \<noteq> 0"
    using bits by (auto simp: rd_iff(2) imm_zero_iff(1) bit_fld)
  show ?thesis
    unfolding expands_def c_def [symmetric] using bits halfword_dest_16 [OF c]
    by (simp add: rvc_branch rd_iff(3) nz rvc_expand1_def top3_iff [OF halfword_dest_16 [OF c]]) (simp only: insn_bits rvc_ci_def, simp add: insn_eval)
qed

end
