(* ===== verification/Bus.thy ===== *)
theory Bus
  imports Emb_Prelude
begin

text \<open>
  The simulator's bus (\<^verbatim>\<open>tools/embsim/bus.c\<close>, with the inline functions of
  \<^verbatim>\<open>tools/embsim/sim.h\<close>): memory regions, bit-band aliases, devices and a
  debugger's watchpoints.

  Two regions may name the same memory (\<open>bus_add_mirror\<close> copies the pointer), so
  a region holds the number of a buffer and the bus holds the buffers' contents.
  The bus is a record other components extend with the rest of the machine: a
  device's hooks are functions on that whole machine, passed in \<open>bus_env\<close>, because
  in C they reach the core and the run through their context pointer.
\<close>

section \<open>State\<close>

datatype mem_kind = MEM_RAM | MEM_FLASH | MEM_ALIAS

record region =
  rg_base :: u32
  rg_size :: u32
  rg_mem :: nat
  rg_rom :: bool
  rg_kind :: mem_kind
  rg_erased :: u32

record device =
  dev_base :: u32
  dev_size :: u32
  dev_ctx :: nat

record bitband =
  bb_base :: u32
  bb_size :: u32
  bb_target :: u32

datatype watch_kind = WATCH_WRITE | WATCH_READ | WATCH_ACCESS

record watch =
  wt_kind :: watch_kind
  wt_addr :: u32
  wt_len :: u32

record bus =
  bus_rg :: "region list"
  bus_buf :: "nat \<Rightarrow> u32 \<Rightarrow> u8"
  bus_nbuf :: nat
  bus_dev :: "device list"
  bus_bb :: "bitband list"
  bus_fail_addr :: u32
  bus_watch :: "watch list"
  bus_watch_hit :: bool
  bus_watch_kind :: watch_kind
  bus_watch_addr :: u32
  bus_debug :: bool
  bus_dev_fault :: bool
  bus_touched :: bool

text \<open>The hooks: by device context, the read and write hooks when there are any; the
  exclusive monitor's snoop; the cycles-passed, next-event and reset hooks.\<close>

record 'm bus_env =
  dev_read :: "nat \<Rightarrow> (u32 \<Rightarrow> nat \<Rightarrow> 'm \<Rightarrow> u32 \<times> 'm) option"
  dev_write :: "nat \<Rightarrow> (u32 \<Rightarrow> nat \<Rightarrow> u32 \<Rightarrow> 'm \<Rightarrow> 'm) option"
  dev_tick :: "nat \<Rightarrow> (u32 \<Rightarrow> 'm \<Rightarrow> 'm) option"
  dev_next_event :: "nat \<Rightarrow> ('m \<Rightarrow> u32 option) option"
  dev_reset :: "nat \<Rightarrow> ('m \<Rightarrow> 'm) option"
  bus_snoop :: "(u32 \<Rightarrow> 'm \<Rightarrow> 'm) option"

section \<open>Putting a machine together\<close>

definition BUS_REGIONS :: nat where "BUS_REGIONS = 12"
definition BUS_DEVICES :: nat where "BUS_DEVICES = 24"
definition BUS_ALIASES :: nat where "BUS_ALIASES = 4"
definition BUS_WATCHES :: nat where "BUS_WATCHES = 32"

text \<open>\<open>None\<close> is \<open>die\<close>: too many of something, or no memory to mirror.  A new buffer is
  \<open>calloc\<close>'s, all zero.\<close>

definition bus_add_region :: "u32 \<Rightarrow> u32 \<Rightarrow> mem_kind \<Rightarrow> 'a bus_scheme \<Rightarrow> 'a bus_scheme option" where
  "bus_add_region base sz kind b =
    (if sz = 0 then Some b
     else if length (bus_rg b) = BUS_REGIONS then None
     else Some (b\<lparr>bus_rg := bus_rg b @ [\<lparr>rg_base = base, rg_size = sz, rg_mem = bus_nbuf b,
                    rg_rom = False, rg_kind = kind, rg_erased = 0\<rparr>],
                  bus_buf := (bus_buf b)(bus_nbuf b := \<lambda>_. 0),
                  bus_nbuf := bus_nbuf b + 1\<rparr>))"

definition bus_erase :: "region \<Rightarrow> 'a bus_scheme \<Rightarrow> 'a bus_scheme" where
  "bus_erase r b =
    b\<lparr>bus_buf := (bus_buf b)(rg_mem r := \<lambda>i.
        if i < rg_size r
        then (if rg_erased r = 0 then 0 else ucast (drop_bit (8 * unat (i AND 3)) (rg_erased r)))
        else bus_buf b (rg_mem r) i)\<rparr>"

definition bus_add_device :: "u32 \<Rightarrow> u32 \<Rightarrow> nat \<Rightarrow> 'a bus_scheme \<Rightarrow> 'a bus_scheme option" where
  "bus_add_device base sz ctx b =
    (if length (bus_dev b) = BUS_DEVICES then None
     else Some (b\<lparr>bus_dev := bus_dev b @ [\<lparr>dev_base = base, dev_size = sz, dev_ctx = ctx\<rparr>]\<rparr>))"

text \<open>The first region holding all \<open>n\<close> bytes at \<open>a\<close>.\<close>

definition in_region :: "u32 \<Rightarrow> u32 \<Rightarrow> region \<Rightarrow> bool" where
  "in_region a n r \<longleftrightarrow> a - rg_base r < rg_size r \<and> rg_size r - (a - rg_base r) \<ge> n"

definition bus_region :: "'a bus_scheme \<Rightarrow> u32 \<Rightarrow> u32 \<Rightarrow> region option" where
  "bus_region b a n = find (in_region a n) (bus_rg b)"

definition bus_add_mirror :: "u32 \<Rightarrow> u32 \<Rightarrow> 'a bus_scheme \<Rightarrow> 'a bus_scheme option" where
  "bus_add_mirror base target b = do {
     t \<leftarrow> bus_region b target 1;
     require (length (bus_rg b) \<noteq> BUS_REGIONS);
     Some (b\<lparr>bus_rg := bus_rg b @ [t\<lparr>rg_base := base\<rparr>]\<rparr>) }"

definition bus_add_alias :: "u32 \<Rightarrow> u32 \<Rightarrow> u32 \<Rightarrow> 'a bus_scheme \<Rightarrow> 'a bus_scheme option" where
  "bus_add_alias base sz target b =
    (if sz = 0 then Some b
     else if length (bus_bb b) = BUS_ALIASES then None
     else Some (b\<lparr>bus_bb := bus_bb b @ [\<lparr>bb_base = base, bb_size = sz, bb_target = target\<rparr>]\<rparr>))"

section \<open>Accesses\<close>

definition alias_of :: "'a bus_scheme \<Rightarrow> u32 \<Rightarrow> (u32 \<times> nat) option" where
  "alias_of b a =
    map_option (\<lambda>w. (bb_target w + drop_bit 5 (a - bb_base w), unat (drop_bit 2 a AND 7)))
      (find (\<lambda>w. a - bb_base w < bb_size w) (bus_bb b))"

definition device_of :: "'a bus_scheme \<Rightarrow> u32 \<Rightarrow> device option" where
  "device_of b a = find (\<lambda>d. a - dev_base d < dev_size d) (bus_dev b)"

definition mem_rd_le :: "(u32 \<Rightarrow> u8) \<Rightarrow> u32 \<Rightarrow> nat \<Rightarrow> u32" where
  "mem_rd_le m p n =
    (let v0 = ucast (m p);
         v1 = (if n > 1 then v0 OR push_bit 8 (ucast (m (p + 1))) else v0)
     in if n > 2 then v1 OR push_bit 16 (ucast (m (p + 2))) OR push_bit 24 (ucast (m (p + 3))) else v1)"

definition mem_wr_le :: "(u32 \<Rightarrow> u8) \<Rightarrow> u32 \<Rightarrow> nat \<Rightarrow> u32 \<Rightarrow> (u32 \<Rightarrow> u8)" where
  "mem_wr_le m p n v =
    (let m0 = m(p := ucast v);
         m1 = (if n > 1 then m0(p + 1 := ucast (drop_bit 8 v)) else m0)
     in if n > 2 then m1(p + 2 := ucast (drop_bit 16 v), p + 3 := ucast (drop_bit 24 v)) else m1)"

definition upd_buf :: "nat \<Rightarrow> (u32 \<Rightarrow> u8) \<Rightarrow> 'a bus_scheme \<Rightarrow> 'a bus_scheme" where
  "upd_buf k m b = b\<lparr>bus_buf := (bus_buf b)(k := m)\<rparr>"

text \<open>A device's access: the hook runs, and a fault it raised is the access's failure.\<close>

definition dev_result :: "u32 \<Rightarrow> 'r \<Rightarrow> 'a bus_scheme \<Rightarrow> 'r option \<times> 'a bus_scheme" where
  "dev_result a x b =
    (if bus_dev_fault b then (None, b\<lparr>bus_dev_fault := False, bus_fail_addr := a\<rparr>) else (Some x, b))"

text \<open>
  A bit-band alias reads the byte at its target by a recursive call.  No board has
  an alias whose target lies in an alias window, so two levels are all that run;
  the first argument counts the levels left.
\<close>

fun rd_levels :: "nat \<Rightarrow> 'a bus_scheme bus_env \<Rightarrow> u32 \<Rightarrow> nat \<Rightarrow> 'a bus_scheme \<Rightarrow> u32 option \<times> 'a bus_scheme" where
  "rd_levels 0 E a n b = (None, b\<lparr>bus_fail_addr := a\<rparr>)"
| "rd_levels (Suc k) E a n b =
    (case bus_region b a (of_nat n) of
       Some r \<Rightarrow> (Some (mem_rd_le (bus_buf b (rg_mem r)) (a - rg_base r) n), b)
     | None \<Rightarrow>
        (case alias_of b a of
           Some (t, bt) \<Rightarrow>
             (let (x, b1) = rd_levels k E t 1 b
              in (map_option (\<lambda>y. drop_bit bt y AND 1) x, b1))
         | None \<Rightarrow>
            (case device_of b a of
               Some d \<Rightarrow>
                 (let b1 = b\<lparr>bus_touched := True\<rparr>;
                      (x, b2) = (case dev_read E (dev_ctx d) of
                                   Some h \<Rightarrow> h (a - dev_base d) n b1 | None \<Rightarrow> (0, b1))
                  in dev_result a (if n = 4 then x else x AND (push_bit (8 * n) 1 - 1)) b2)
             | None \<Rightarrow> (None, b\<lparr>bus_fail_addr := a\<rparr>))))"

definition snoop :: "'a bus_scheme bus_env \<Rightarrow> bool \<Rightarrow> u32 \<Rightarrow> 'a bus_scheme \<Rightarrow> 'a bus_scheme" where
  "snoop E debug a b =
    (case bus_snoop E of Some h \<Rightarrow> (if debug then b else h a b) | None \<Rightarrow> b)"

fun wr_levels :: "nat \<Rightarrow> 'a bus_scheme bus_env \<Rightarrow> u32 \<Rightarrow> nat \<Rightarrow> u32 \<Rightarrow> bool \<Rightarrow> 'a bus_scheme \<Rightarrow> bool \<times> 'a bus_scheme" where
  "wr_levels 0 E a n v debug b = (False, b\<lparr>bus_fail_addr := a\<rparr>)"
| "wr_levels (Suc k) E a n v debug b0 =
    (let b = snoop E debug a b0
     in case bus_region b a (of_nat n) of
       Some r \<Rightarrow>
         (True, if \<not> rg_rom r \<or> debug
                then upd_buf (rg_mem r) (mem_wr_le (bus_buf b (rg_mem r)) (a - rg_base r) n v) b else b)
     | None \<Rightarrow>
        (case alias_of b a of
           Some (t, bt) \<Rightarrow>
             (let (x, b1) = rd_levels (Suc k) E t 1 b
              in case x of
                   None \<Rightarrow> (False, b1)
                 | Some byte \<Rightarrow>
                     wr_levels k E t 1
                       (if v AND 1 \<noteq> 0 then byte OR push_bit bt 1 else byte AND NOT (push_bit bt 1)) debug b1)
         | None \<Rightarrow>
            (case device_of b a of
               Some d \<Rightarrow>
                 (let b1 = b\<lparr>bus_touched := True\<rparr>;
                      b2 = (case dev_write E (dev_ctx d) of
                              Some h \<Rightarrow> h (a - dev_base d) n v b1 | None \<Rightarrow> b1);
                      (ok, b3) = dev_result a () b2
                  in (ok \<noteq> None, b3))
             | None \<Rightarrow> (False, b\<lparr>bus_fail_addr := a\<rparr>))))"

definition bus_rd :: "'a bus_scheme bus_env \<Rightarrow> u32 \<Rightarrow> nat \<Rightarrow> 'a bus_scheme \<Rightarrow> u32 option \<times> 'a bus_scheme" where
  "bus_rd E a n b = rd_levels 2 E a n b"

definition bus_wr :: "'a bus_scheme bus_env \<Rightarrow> u32 \<Rightarrow> nat \<Rightarrow> u32 \<Rightarrow> bool \<Rightarrow> 'a bus_scheme \<Rightarrow> bool \<times> 'a bus_scheme" where
  "bus_wr E a n v debug b = wr_levels 2 E a n v debug b"

definition watch_wants :: "bool \<Rightarrow> watch_kind \<Rightarrow> bool" where
  "watch_wants write k \<longleftrightarrow> \<not> (k \<noteq> WATCH_ACCESS \<and> k \<noteq> (if write then WATCH_WRITE else WATCH_READ))"

definition watch_overlaps :: "u32 \<Rightarrow> nat \<Rightarrow> watch \<Rightarrow> bool" where
  "watch_overlaps a n w \<longleftrightarrow> a - wt_addr w < wt_len w \<or> wt_addr w - a < of_nat n"

fun watch_scan :: "u32 \<Rightarrow> nat \<Rightarrow> bool \<Rightarrow> watch list \<Rightarrow> 'a bus_scheme \<Rightarrow> bool \<times> 'a bus_scheme" where
  "watch_scan a n write [] b = (False, b)"
| "watch_scan a n write (w # ws) b =
    (if \<not> watch_wants write (wt_kind w) then watch_scan a n write ws b
     else if watch_overlaps a n w then
       (True, if \<not> bus_watch_hit b
              then b\<lparr>bus_watch_hit := True, bus_watch_kind := wt_kind w,
                     bus_watch_addr := (if a > wt_addr w then a else wt_addr w)\<rparr>
              else b)
     else watch_scan a n write ws b)"

definition bus_watch_check :: "u32 \<Rightarrow> nat \<Rightarrow> bool \<Rightarrow> 'a bus_scheme \<Rightarrow> bool \<times> 'a bus_scheme" where
  "bus_watch_check a n write b = watch_scan a n write (bus_watch b) b"

definition bus_read :: "'a bus_scheme bus_env \<Rightarrow> u32 \<Rightarrow> nat \<Rightarrow> 'a bus_scheme \<Rightarrow> u32 option \<times> 'a bus_scheme" where
  "bus_read E a n b = bus_rd E a n b"

definition bus_write :: "'a bus_scheme bus_env \<Rightarrow> u32 \<Rightarrow> nat \<Rightarrow> u32 \<Rightarrow> 'a bus_scheme \<Rightarrow> bool \<times> 'a bus_scheme" where
  "bus_write E a n v b = bus_wr E a n v False b"

definition bus_debug_read :: "'a bus_scheme bus_env \<Rightarrow> u32 \<Rightarrow> nat \<Rightarrow> 'a bus_scheme \<Rightarrow> u32 option \<times> 'a bus_scheme" where
  "bus_debug_read E a n b =
    (let (r, b1) = bus_rd E a n (b\<lparr>bus_debug := True\<rparr>) in (r, b1\<lparr>bus_debug := False\<rparr>))"

definition bus_debug_write :: "'a bus_scheme bus_env \<Rightarrow> u32 \<Rightarrow> nat \<Rightarrow> u32 \<Rightarrow> 'a bus_scheme \<Rightarrow> bool \<times> 'a bus_scheme" where
  "bus_debug_write E a n v b =
    (let (r, b1) = bus_wr E a n v True (b\<lparr>bus_debug := True\<rparr>) in (r, b1\<lparr>bus_debug := False\<rparr>))"

definition bus_watch_add :: "watch_kind \<Rightarrow> u32 \<Rightarrow> u32 \<Rightarrow> 'a bus_scheme \<Rightarrow> bool \<times> 'a bus_scheme" where
  "bus_watch_add kind addr len b =
    (if length (bus_watch b) = BUS_WATCHES \<or> len = 0 then (False, b)
     else (True, b\<lparr>bus_watch := bus_watch b @ [\<lparr>wt_kind = kind, wt_addr = addr, wt_len = len\<rparr>]\<rparr>))"

text \<open>Removing moves the last watchpoint into the removed one's place.\<close>

fun watch_index :: "watch_kind \<Rightarrow> u32 \<Rightarrow> u32 \<Rightarrow> watch list \<Rightarrow> nat option" where
  "watch_index kind addr len [] = None"
| "watch_index kind addr len (w # ws) =
    (if wt_kind w = kind \<and> wt_addr w = addr \<and> wt_len w = len then Some 0
     else map_option Suc (watch_index kind addr len ws))"

definition bus_watch_remove :: "watch_kind \<Rightarrow> u32 \<Rightarrow> u32 \<Rightarrow> 'a bus_scheme \<Rightarrow> bool \<times> 'a bus_scheme" where
  "bus_watch_remove kind addr len b =
    (case watch_index kind addr len (bus_watch b) of
       None \<Rightarrow> (False, b)
     | Some i \<Rightarrow> (True, b\<lparr>bus_watch := butlast ((bus_watch b)[i := last (bus_watch b)])\<rparr>))"

section \<open>What a core may rely on\<close>

text \<open>
  The interface of memory: locations that may be stored to, what a load returns
  after a store to the same location and after a store to one apart from it.
  Whether two locations are apart may depend on the memory's layout, which stores
  leave alone.
\<close>

locale store_memory =
  fixes load :: "'s \<Rightarrow> 'l \<Rightarrow> 'v"
    and store :: "'s \<Rightarrow> 'l \<Rightarrow> 'v \<Rightarrow> 's"
    and writable :: "'s \<Rightarrow> 'l \<Rightarrow> bool"
    and apart :: "'s \<Rightarrow> 'l \<Rightarrow> 'l \<Rightarrow> bool"
    and trunc :: "'l \<Rightarrow> 'v \<Rightarrow> 'v"
  assumes load_same: "writable s l \<Longrightarrow> load (store s l v) l = trunc l v"
    and load_apart: "writable s l \<Longrightarrow> writable s l' \<Longrightarrow> apart s l l' \<Longrightarrow> load (store s l v) l' = load s l'"
    and writable_store: "writable s l \<Longrightarrow> writable (store s l v) l' = writable s l'"
    and apart_store: "writable s l \<Longrightarrow> apart (store s l v) l' l'' = apart s l' l''"
begin

fun store_all :: "'s \<Rightarrow> ('l \<times> 'v) list \<Rightarrow> 's" where
  "store_all s [] = s"
| "store_all s ((l, v) # ws) = store_all (store s l v) ws"

lemma load_store_all_apart:
  assumes "writable s l'" "\<forall>(l, v) \<in> set ws. writable s l \<and> apart s l l'"
  shows "load (store_all s ws) l' = load s l'"
  using assms
proof (induction ws arbitrary: s)
  case (Cons w ws)
  obtain l v where "w = (l, v)" by fastforce
  then show ?case
    using Cons.IH [of "store s l v"] Cons.prems by (auto simp: load_apart writable_store apart_store)
qed simp

text \<open>A whole image written at places apart from each other reads back.\<close>

lemma load_store_all:
  assumes "\<forall>(l, v) \<in> set ws. writable s l"
    and "\<forall>i < length ws. \<forall>j < length ws. i < j \<longrightarrow> apart s (fst (ws ! j)) (fst (ws ! i))"
    and "k < length ws"
  shows "load (store_all s ws) (fst (ws ! k)) = trunc (fst (ws ! k)) (snd (ws ! k))"
  using assms
proof (induction ws arbitrary: s k)
  case (Cons w ws)
  obtain l v where w: "w = (l, v)" by fastforce
  have wl: "writable s l" using Cons.prems(1) w by auto
  show ?case
  proof (cases k)
    case 0
    have "\<forall>(l', v') \<in> set ws. writable (store s l v) l' \<and> apart (store s l v) l' l"
      using Cons.prems(1) Cons.prems(2) [rule_format, of 0] wl
      by (fastforce simp: w writable_store apart_store in_set_conv_nth)
    then show ?thesis
      using load_store_all_apart [of "store s l v" l ws] wl 0 w by (simp add: load_same writable_store)
  next
    case (Suc k')
    have "load (store_all (store s l v) ws) (fst (ws ! k')) = trunc (fst (ws ! k')) (snd (ws ! k'))"
    proof (rule Cons.IH)
      show "\<forall>(l', v') \<in> set ws. writable (store s l v) l'"
        using Cons.prems(1) wl by (auto simp: writable_store)
      show "\<forall>i < length ws. \<forall>j < length ws. i < j \<longrightarrow> apart (store s l v) (fst (ws ! j)) (fst (ws ! i))"
      proof (intro allI impI)
        fix i j
        assume "i < length ws" "j < length ws" "i < j"
        then show "apart (store s l v) (fst (ws ! j)) (fst (ws ! i))"
          using Cons.prems(2) [rule_format, of "Suc i" "Suc j"] wl by (simp add: apart_store)
      qed
    qed (use Cons.prems(3) Suc in simp)
    then show ?thesis using w Suc by simp
  qed
qed simp

end

section \<open>Memory accesses\<close>

lemma word_of_bytes:
  fixes v :: u32
  shows "ucast (ucast v :: u8) OR push_bit 8 (ucast (ucast (drop_bit 8 v) :: u8)) OR
    push_bit 16 (ucast (ucast (drop_bit 16 v) :: u8)) OR push_bit 24 (ucast (ucast (drop_bit 24 v) :: u8)) = v"
proof (rule bit_word_eqI)
  fix k
  assume "k < LENGTH(32)"
  then consider "k < 8" | "8 \<le> k" "k < 16" | "16 \<le> k" "k < 24" | "24 \<le> k" "k < 32" by fastforce
  then show "bit (ucast (ucast v :: u8) OR push_bit 8 (ucast (ucast (drop_bit 8 v) :: u8)) OR
      push_bit 16 (ucast (ucast (drop_bit 16 v) :: u8)) OR push_bit 24 (ucast (ucast (drop_bit 24 v) :: u8)) :: u32) k =
    bit v k"
    by cases (auto simp: bit_simps)
qed

lemma mem_rd_wr_same:
  assumes "n \<in> {1, 2, 4}"
  shows "mem_rd_le (mem_wr_le m p n v) p n = take_bit (8 * n) v"
proof -
  consider "n = 1" | "n = 2" | "n = 4" using assms by auto
  then show ?thesis
  proof cases
    case 3
    then show ?thesis by (simp add: mem_rd_le_def mem_wr_le_def word_of_bytes or.assoc take_bit_word_eq_self)
  qed (rule bit_word_eqI; auto simp: mem_rd_le_def mem_wr_le_def Let_def bit_simps)+
qed

lemma mem_wr_other:
  assumes "\<And>i. i < n \<Longrightarrow> q \<noteq> p + of_nat i" "n \<in> {1, 2, 4}"
  shows "mem_wr_le m p n v q = m q"
  using assms(2) assms(1) [of 0] assms(1) [of 1] assms(1) [of 2] assms(1) [of 3]
  by (auto simp: mem_wr_le_def Let_def)

lemma mem_rd_cong:
  assumes "\<And>i. i < n \<Longrightarrow> m (p + of_nat i) = m' (p + of_nat i)" "n \<in> {1, 2, 4}"
  shows "mem_rd_le m p n = mem_rd_le m' p n"
  using assms(2) assms(1) [of 0] assms(1) [of 1] assms(1) [of 2] assms(1) [of 3]
  by (auto simp: mem_rd_le_def Let_def)

lemma region_unchanged [simp]:
  "bus_region (upd_buf k m b) = bus_region b" "alias_of (upd_buf k m b) = alias_of b"
  "device_of (upd_buf k m b) = device_of b" "bus_buf (upd_buf k m b) = (bus_buf b)(k := m)"
  by (simp_all add: fun_eq_iff bus_region_def alias_of_def device_of_def upd_buf_def)

lemma read_region:
  assumes "bus_region b a (of_nat n) = Some r"
  shows "bus_read E a n b = (Some (mem_rd_le (bus_buf b (rg_mem r)) (a - rg_base r) n), b)"
  using assms by (simp add: bus_read_def bus_rd_def numeral_2_eq_2)

lemma write_region:
  assumes "bus_region b a (of_nat n) = Some r" "bus_snoop E = None"
  shows "bus_write E a n v b =
    (True, if rg_rom r then b
           else upd_buf (rg_mem r) (mem_wr_le (bus_buf b (rg_mem r)) (a - rg_base r) n v) b)"
  using assms by (simp add: bus_write_def bus_wr_def numeral_2_eq_2 snoop_def)

lemma overlap_iff:
  assumes "0 < n" "n < 2 ^ 32" "0 < len"
  shows "a - w < len \<or> w - a < of_nat n \<longleftrightarrow>
    (\<exists>i < n. \<exists>j < unat len. a + of_nat i = w + (of_nat j :: u32))" (is "?l \<longleftrightarrow> ?r")
proof
  assume ?l
  then show ?r
  proof
    assume "a - w < len"
    then have "unat (a - w) < unat len" by (simp add: word_less_nat_alt)
    moreover have "a + of_nat 0 = w + of_nat (unat (a - w))" by simp
    ultimately show ?r using \<open>0 < n\<close> by blast
  next
    assume "w - a < of_nat n"
    then have "unat (w - a) < n"
      using assms(2) by (simp add: word_less_nat_alt unat_of_nat)
    moreover have "a + of_nat (unat (w - a)) = w + of_nat 0" by simp
    moreover have "0 < unat len" using assms(3) by (simp add: word_gt_0 unat_gt_0)
    ultimately show ?r by blast
  qed
next
  assume ?r
  then obtain i j where ij: "i < n" "j < unat len" and eq: "a + of_nat i = w + (of_nat j :: u32)" by blast
  have len: "unat len < 2 ^ 32"
    using unsigned_less [of len, where 'a = nat] by simp
  show ?l
  proof (cases "i \<le> j")
    case True
    then have "a - w = of_nat (j - i)" using eq by (simp add: algebra_simps of_nat_diff)
    then show ?thesis using ij len by (intro disjI1) (simp add: word_less_nat_alt unat_of_nat)
  next
    case False
    then have "w - a = of_nat (i - j)" using eq by (simp add: algebra_simps of_nat_diff)
    then show ?thesis using ij assms(2) by (intro disjI2) (simp add: word_less_nat_alt unat_of_nat)
  qed
qed

lemma watch_scan_iff:
  "fst (watch_scan a n write ws b) \<longleftrightarrow>
    (\<exists>w \<in> set ws. watch_wants write (wt_kind w) \<and> watch_overlaps a n w)"
  by (induction ws) auto

text \<open>The bytes of memory an access touches: buffer and offset.\<close>

definition places :: "'a bus_scheme \<Rightarrow> u32 \<times> nat \<Rightarrow> (nat \<times> u32) set" where
  "places b l =
    (case bus_region b (fst l) (of_nat (snd l)) of
       None \<Rightarrow> {}
     | Some r \<Rightarrow> (\<lambda>i. (rg_mem r, fst l - rg_base r + of_nat i)) ` {..<snd l})"

definition ram_at :: "'a bus_scheme \<Rightarrow> u32 \<times> nat \<Rightarrow> bool" where
  "ram_at b l \<longleftrightarrow> snd l \<in> {1, 2, 4} \<and>
    (case bus_region b (fst l) (of_nat (snd l)) of None \<Rightarrow> False | Some r \<Rightarrow> \<not> rg_rom r)"

definition no_snoop :: "'m bus_env \<Rightarrow> 'm bus_env" where
  "no_snoop E = E\<lparr>bus_snoop := None\<rparr>"

lemma places_store:
  assumes "ram_at b l"
  shows "places (snd (bus_write (no_snoop E) (fst l) (snd l) v b)) l' = places b l'"
    and "ram_at (snd (bus_write (no_snoop E) (fst l) (snd l) v b)) l' = ram_at b l'"
  using assms by (auto simp: places_def ram_at_def no_snoop_def write_region split: option.splits)

interpretation ram: store_memory
  "\<lambda>b l. fst (bus_read E (fst l) (snd l) b)"
  "\<lambda>b l v. snd (bus_write (no_snoop E) (fst l) (snd l) (case v of None \<Rightarrow> 0 | Some x \<Rightarrow> x) b)"
  ram_at "\<lambda>b l l'. places b l \<inter> places b l' = {}" "\<lambda>l v. Some (take_bit (8 * snd l) (case v of None \<Rightarrow> 0 | Some x \<Rightarrow> x))"
  for E :: "'a bus_scheme bus_env"
proof
  fix b :: "'a bus_scheme" and l l' :: "u32 \<times> nat" and v :: "u32 option"
  let ?x = "case v of None \<Rightarrow> 0 | Some x \<Rightarrow> x"
  let ?b = "snd (bus_write (no_snoop E) (fst l) (snd l) ?x b)"
  assume w: "ram_at b l"
  then obtain r where r: "bus_region b (fst l) (of_nat (snd l)) = Some r" "\<not> rg_rom r" "snd l \<in> {1, 2, 4}"
    by (auto simp: ram_at_def split: option.splits)
  have b: "?b = upd_buf (rg_mem r) (mem_wr_le (bus_buf b (rg_mem r)) (fst l - rg_base r) (snd l) ?x) b"
    using r by (simp add: write_region no_snoop_def)
  show "fst (bus_read E (fst l) (snd l) ?b) = Some (take_bit (8 * snd l) ?x)"
    using read_region [of ?b "fst l" "snd l" r E] mem_rd_wr_same [OF r(3)] r(1) unfolding b by simp
  assume "ram_at b l'" and apart: "places b l \<inter> places b l' = {}"
  then obtain r' where r': "bus_region b (fst l') (of_nat (snd l')) = Some r'" "snd l' \<in> {1, 2, 4}"
    by (auto simp: ram_at_def split: option.splits)
  have "bus_buf ?b (rg_mem r') (fst l' - rg_base r' + of_nat i) = bus_buf b (rg_mem r') (fst l' - rg_base r' + of_nat i)"
    if "i < snd l'" for i
  proof (cases "rg_mem r' = rg_mem r")
    case True
    have "fst l' - rg_base r' + of_nat i \<noteq> fst l - rg_base r + of_nat j" if "j < snd l" for j
      using apart r(1) r'(1) True that \<open>i < snd l'\<close> by (auto simp: places_def)
    then show ?thesis
      unfolding b using r(3) True by (simp add: mem_wr_other)
  qed (simp add: b)
  then have "mem_rd_le (bus_buf ?b (rg_mem r')) (fst l' - rg_base r') (snd l') =
      mem_rd_le (bus_buf b (rg_mem r')) (fst l' - rg_base r') (snd l')"
    using r'(2) by (intro mem_rd_cong) auto
  then show "fst (bus_read E (fst l') (snd l') ?b) = fst (bus_read E (fst l') (snd l') b)"
    using r' unfolding b by (simp add: read_region)
qed (simp_all only: places_store)

lemma find_append: "find P (xs @ ys) = (case find P xs of None \<Rightarrow> find P ys | Some x \<Rightarrow> Some x)"
  by (induction xs) auto

fun write_all :: "'a bus_scheme bus_env \<Rightarrow> ((u32 \<times> nat) \<times> u32) list \<Rightarrow> 'a bus_scheme \<Rightarrow> 'a bus_scheme" where
  "write_all E [] b = b"
| "write_all E (((a, n), v) # ws) b = write_all E ws (snd (bus_write E a n v b))"

lemma no_snoop_id: "bus_snoop E = None \<Longrightarrow> no_snoop E = E"
  by (simp add: no_snoop_def)

lemma write_all_store_all:
  "write_all (no_snoop E) ws b = ram.store_all E b (map (\<lambda>(l, v). (l, Some v)) ws)"
  by (induction ws arbitrary: b rule: list.induct) auto

lemma mirror_region:
  assumes "bus_add_mirror base target b = Some b'" "bus_region b target 1 = Some t"
    and "bus_region b (rg_base t + off) n = Some t" "bus_region b (base + off) n = None"
  shows "bus_region b' (rg_base t + off) n = Some t"
    and "bus_region b' (base + off) n = Some (t\<lparr>rg_base := base\<rparr>)"
proof -
  have b': "bus_rg b' = bus_rg b @ [t\<lparr>rg_base := base\<rparr>]"
    using assms(1,2) by (auto simp: bus_add_mirror_def split: if_splits)
  have "in_region (rg_base t + off) n t"
    using assms(3) by (auto simp: bus_region_def find_Some_iff)
  then have "in_region (base + off) n (t\<lparr>rg_base := base\<rparr>)"
    by (simp add: in_region_def)
  then show "bus_region b' (rg_base t + off) n = Some t"
    "bus_region b' (base + off) n = Some (t\<lparr>rg_base := base\<rparr>)"
    using assms(3,4) by (simp_all add: bus_region_def b' find_append)
qed

text \<open>Where no alias's target lies in an alias window, the levels of a read never run out.\<close>

lemma rd_levels_enough:
  assumes "\<And>t bt. alias_of b a = Some (t, bt) \<Longrightarrow> alias_of b t = None"
  shows "rd_levels (Suc (Suc k)) E a n b = bus_rd E a n b"
  using assms by (auto simp: bus_rd_def numeral_2_eq_2 split: option.splits)

section \<open>Properties\<close>

text \<open>A machine with RAM at 0x20000000, flash at 0x08000000 and the Cortex-M's bit-band
  window, for the examples.\<close>

definition sample_bus :: bus where
  "sample_bus =
    \<lparr>bus_rg = [\<lparr>rg_base = 0x20000000, rg_size = 0x1000, rg_mem = 0, rg_rom = False, rg_kind = MEM_RAM, rg_erased = 0\<rparr>,
               \<lparr>rg_base = 0x08000000, rg_size = 0x1000, rg_mem = 1, rg_rom = True, rg_kind = MEM_FLASH, rg_erased = 0\<rparr>],
     bus_buf = (\<lambda>_ _. 0), bus_nbuf = 2, bus_dev = [],
     bus_bb = [\<lparr>bb_base = 0x22000000, bb_size = 0x20000, bb_target = 0x20000000\<rparr>],
     bus_fail_addr = 0, bus_watch = [\<lparr>wt_kind = WATCH_WRITE, wt_addr = 0x20000010, wt_len = 4\<rparr>],
     bus_watch_hit = False, bus_watch_kind = WATCH_WRITE, bus_watch_addr = 0,
     bus_debug = False, bus_dev_fault = False, bus_touched = False\<rparr>"

definition no_devices :: "'m bus_env" where
  "no_devices = \<lparr>dev_read = (\<lambda>_. None), dev_write = (\<lambda>_. None), dev_tick = (\<lambda>_. None),
     dev_next_event = (\<lambda>_. None), dev_reset = (\<lambda>_. None), bus_snoop = None\<rparr>"

text \<open>C12: values written to RAM through the bus at places that do not overlap (an image being
  loaded, a core's stores) are all read back, each truncated to its access size.\<close>

theorem image_reads_back:
  fixes E :: "'a bus_scheme bus_env" and b :: "'a bus_scheme"
  assumes "bus_snoop E = None"
    and "\<forall>(l, v) \<in> set ws. ram_at b l"
    and "\<forall>i < length ws. \<forall>j < length ws. i < j \<longrightarrow> places b (fst (ws ! j)) \<inter> places b (fst (ws ! i)) = {}"
    and "k < length ws" and "ws ! k = ((a, n), v)"
  shows "fst (bus_read E a n (write_all E ws b)) = Some (take_bit (8 * n) v)"
proof -
  let ?ws = "map (\<lambda>(l, v). (l, Some v)) ws"
  have "fst (bus_read E (fst (fst (?ws ! k))) (snd (fst (?ws ! k))) (ram.store_all E b ?ws)) =
      Some (take_bit (8 * snd (fst (?ws ! k))) (case snd (?ws ! k) of None \<Rightarrow> 0 | Some x \<Rightarrow> x))"
    using assms(2-4) by (intro ram.load_store_all) (auto simp: case_prod_beta)
  then show ?thesis
    using assms(4,5) write_all_store_all [of E ws b] by (simp add: no_snoop_id [OF assms(1)])
qed

theorem image_reads_back_witness:
  "fst (bus_read no_devices 0x20000004 2
     (write_all no_devices [((0x20000000, 4), 0x12345678), ((0x20000004, 2), 0xabcd)] sample_bus)) =
   Some (take_bit (8 * 2) 0xabcd)"
  by (rule image_reads_back [of _ _ _ 1])
    (auto simp: no_devices_def sample_bus_def ram_at_def places_def bus_region_def in_region_def less_Suc_eq
      lessThan_nat_numeral lessThan_Suc)



text \<open>C14: a mirror is another name for the same memory: reads through it and through the
  original agree, and a value written through the mirror is read at the original.\<close>

theorem mirror_is_same_memory:
  fixes E :: "'a bus_scheme bus_env"
  assumes "bus_add_mirror base target b = Some b'" "bus_region b target 1 = Some t"
    and "bus_region b (rg_base t + off) (of_nat n) = Some t" "bus_region b (base + off) (of_nat n) = None"
    and "n \<in> {1, 2, 4}" "\<not> rg_rom t" "bus_snoop E = None"
  shows "fst (bus_read E (base + off) n b') = fst (bus_read E (rg_base t + off) n b') \<and>
    fst (bus_read E (rg_base t + off) n (snd (bus_write E (base + off) n v b'))) = Some (take_bit (8 * n) v)"
  using mirror_region [OF assms(1-4)] assms(5-7)
  by (simp add: read_region write_region mem_rd_wr_same)

theorem mirror_is_same_memory_witness:
  "\<exists>b'. bus_add_mirror 0 0x20000000 sample_bus = Some b' \<and>
    fst (bus_read no_devices 0x20000008 4 (snd (bus_write no_devices 8 4 0xcafe b'))) = Some (take_bit 32 0xcafe)"
proof -
  obtain b' where b': "bus_add_mirror 0 0x20000000 sample_bus = Some b'"
    by (simp add: bus_add_mirror_def sample_bus_def bus_region_def in_region_def BUS_REGIONS_def)
  show ?thesis
    using mirror_is_same_memory [OF b', where t = "hd (bus_rg sample_bus)" and off = 8 and n = 4 and E = no_devices and v = "0xcafe"] b'
    by (simp add: sample_bus_def bus_region_def in_region_def no_devices_def)
qed

text \<open>C15: flash ignores the core's stores, which still succeed, and takes a debugger's.\<close>

theorem flash_keeps_contents:
  assumes "bus_region b a (of_nat n) = Some r" "rg_rom r" "bus_snoop E = None" "n \<in> {1, 2, 4}"
  shows "bus_write E a n v b = (True, b) \<and>
    fst (bus_read E a n (snd (bus_debug_write E a n v b))) = Some (take_bit (8 * n) v)"
proof -
  have *: "bus_region (b\<lparr>bus_debug := x\<rparr>) = bus_region b" for x
    by (simp add: fun_eq_iff bus_region_def)
  show ?thesis
    using assms by (auto simp: write_region bus_debug_write_def bus_wr_def numeral_2_eq_2 snoop_def * read_region
        mem_rd_wr_same bus_region_def upd_buf_def)
qed

theorem flash_keeps_contents_witness:
  "bus_write no_devices 0x08000000 4 7 sample_bus = (True, sample_bus)"
  using flash_keeps_contents [where b = sample_bus and a = "0x08000000" and n = 4 and r = "bus_rg sample_bus ! 1" and E = no_devices and v = 7]
  by (simp add: sample_bus_def bus_region_def in_region_def no_devices_def)


end
