(* ===== verification/Rv_Core.thy ===== *)
theory Rv_Core
  imports Bus
begin

text \<open>
  The state of the simulator's RISC-V core and of the run
  (\<^verbatim>\<open>tools/embsim/riscv.h\<close>, \<^verbatim>\<open>sim.h\<close>), its memory accesses, traps, counters and
  CSRs (the first half of \<^verbatim>\<open>tools/embsim/riscv.c\<close>).

  The machine is the bus extended with the core's fields (\<open>rs_\<close>, what the source
  writes as \<open>rs->\<close>), the run's (\<open>sim_\<close>, the source's \<open>s->\<close>) and the devices' own
  state, of any type.  What the core calls through a pointer is in the environment
  \<open>rv_env\<close>: the devices' hooks, an external interrupt controller and the semihosting
  calls.  The hooks that only observe a run
  (tracing, the analyses) are left out.
\<close>

section \<open>State\<close>

datatype run_state = RUN | END_EXIT | END_LOCKUP | END_IDLE | END_UNTIL | END_BUDGET

record 'd rv_state = bus +
  rs_xlen :: nat
  rs_x :: "nat \<Rightarrow> u64"
  rs_pc :: u64
  rs_npc :: u64
  rs_f :: "nat \<Rightarrow> u64"
  rs_fflags :: u32
  rs_frm :: u32
  rs_priv :: nat
  rs_mstatus :: u64
  rs_mie :: u64
  rs_mtvec :: u64
  rs_mepc :: u64
  rs_mcause :: u64
  rs_mtval :: u64
  rs_mscratch :: u64
  rs_medeleg :: u64
  rs_mideleg :: u64
  rs_mcounteren :: u64
  rs_mcountinhibit :: u64
  rs_menvcfg :: u64
  rs_pmpcfg :: "nat \<Rightarrow> u64"
  rs_pmpaddr :: "nat \<Rightarrow> u64"
  rs_mcycle_off :: u64
  rs_minstret_off :: u64
  rs_cyc_now :: u64
  rs_insn_now :: u64
  rs_resv :: bool
  rs_resv_addr :: u64
  rs_resv_val :: u64
  rs_trap :: bool
  rs_cause :: u64
  rs_tval :: u64
  rs_insn :: u32
  rs_changed :: bool
  rs_msip :: u32
  rs_mtimecmp :: u64
  rs_mtime_off :: u64
  rs_esp :: bool
  rs_mpcer :: u64
  rs_mpcmr :: u64
  rs_mpccr :: u64
  rs_mpc_cyc :: u64
  rs_mpc_ins :: u64
  rs_mpc_idle :: u64
  rs_idle :: u64
  rs_tselect :: u64
  rs_tdata1 :: "nat \<Rightarrow> u64"
  rs_tdata2 :: "nat \<Rightarrow> u64"
  rs_tcontrol :: u64
  rs_gpio_oen :: u64
  rs_gpio_out :: u64
  rs_model_xlen :: nat
  sim_insns :: u64
  sim_cycles :: u64
  sim_state :: run_state
  sim_counting :: int
  sim_tick :: "nat list"
  sim_ev_known :: bool
  sim_ev_any :: bool
  sim_ev_at :: u64
  sim_semihosting :: bool
  sim_elf64 :: bool
  sim_entry :: u64
  sim_max_insns :: u64
  sim_exit_status :: int
  sim_output :: "u8 list"
  sim_until :: "u8 list option"
  sim_until_at :: nat
  sim_devs :: 'd

record 'd rv_env =
  env_bus :: "'d rv_state bus_env"
  eic_pending :: "('d rv_state \<Rightarrow> nat) option"
  eic_claim :: "(nat \<Rightarrow> 'd rv_state \<Rightarrow> 'd rv_state) option"
  env_semihost :: "u32 \<Rightarrow> u32 \<Rightarrow> 'd rv_state \<Rightarrow> u32 option \<times> 'd rv_state"

section \<open>Constants\<close>

abbreviation (input) EXC_IFETCH_ACCESS :: u64 where "EXC_IFETCH_ACCESS \<equiv> 1"
abbreviation (input) EXC_ILLEGAL :: u64 where "EXC_ILLEGAL \<equiv> 2"
abbreviation (input) EXC_BREAKPOINT :: u64 where "EXC_BREAKPOINT \<equiv> 3"
abbreviation (input) EXC_LOAD_ALIGN :: u64 where "EXC_LOAD_ALIGN \<equiv> 4"
abbreviation (input) EXC_LOAD_ACCESS :: u64 where "EXC_LOAD_ACCESS \<equiv> 5"
abbreviation (input) EXC_STORE_ALIGN :: u64 where "EXC_STORE_ALIGN \<equiv> 6"
abbreviation (input) EXC_STORE_ACCESS :: u64 where "EXC_STORE_ACCESS \<equiv> 7"
abbreviation (input) EXC_ECALL_U :: u64 where "EXC_ECALL_U \<equiv> 8"
abbreviation (input) EXC_ECALL_M :: u64 where "EXC_ECALL_M \<equiv> 11"
abbreviation (input) TRAP_WATCH :: u64 where "TRAP_WATCH \<equiv> NOT 0"
abbreviation (input) IRQ_MSI :: nat where "IRQ_MSI \<equiv> 3"
abbreviation (input) IRQ_MTI :: nat where "IRQ_MTI \<equiv> 7"
abbreviation (input) MIP_MSIP :: u64 where "MIP_MSIP \<equiv> 0x8"
abbreviation (input) MIP_MTIP :: u64 where "MIP_MTIP \<equiv> 0x80"
abbreviation (input) MSTATUS_MIE :: u64 where "MSTATUS_MIE \<equiv> 0x8"
abbreviation (input) MSTATUS_MPIE :: u64 where "MSTATUS_MPIE \<equiv> 0x80"
abbreviation (input) MSTATUS_MPP :: u64 where "MSTATUS_MPP \<equiv> 0x1800"
abbreviation (input) MSTATUS_FS :: u64 where "MSTATUS_FS \<equiv> 0x6000"
abbreviation (input) MSTATUS_MPRV :: u64 where "MSTATUS_MPRV \<equiv> 0x20000"
abbreviation (input) MSTATUS_TW :: u64 where "MSTATUS_TW \<equiv> 0x200000"
abbreviation (input) PRV_U :: nat where "PRV_U \<equiv> 0"
abbreviation (input) PRV_M :: nat where "PRV_M \<equiv> 3"

section \<open>Registers\<close>

definition xl :: "nat \<Rightarrow> u64 \<Rightarrow> u64" where
  "xl xlen v = (if xlen = 32 then ucast (ucast v :: u32) else v)"

definition sx :: "nat \<Rightarrow> u64 \<Rightarrow> u64" where
  "sx xlen v = (if xlen = 32 then scast (ucast v :: u32) else v)"

definition rv_xl :: "'d rv_state \<Rightarrow> u64 \<Rightarrow> u64" where
  "rv_xl s v = xl (rs_xlen s) v"

definition rv_sx :: "'d rv_state \<Rightarrow> u64 \<Rightarrow> u64" where
  "rv_sx s v = sx (rs_xlen s) v"

definition rv_wx :: "nat \<Rightarrow> u64 \<Rightarrow> 'd rv_state \<Rightarrow> 'd rv_state" where
  "rv_wx rd v s =
    (if rd \<noteq> 0 then
       (let v' = rv_xl s v
        in s\<lparr>rs_changed := (rs_changed s \<or> rs_x s rd \<noteq> v'), rs_x := (rs_x s)(rd := v')\<rparr>)
     else s)"

definition sext32 :: "u64 \<Rightarrow> u64" where
  "sext32 v = scast (ucast v :: u32)"

definition zext32 :: "u64 \<Rightarrow> u64" where
  "zext32 v = ucast (ucast v :: u32)"

section \<open>Traps\<close>

definition rv_trap :: "u64 \<Rightarrow> u64 \<Rightarrow> 'd rv_state \<Rightarrow> 'd rv_state" where
  "rv_trap cause tval s =
    (if rs_trap s then s else s\<lparr>rs_trap := True, rs_cause := cause, rs_tval := tval\<rparr>)"

definition rv_illegal :: "'d rv_state \<Rightarrow> 'd rv_state" where
  "rv_illegal s = rv_trap EXC_ILLEGAL (ucast (rs_insn s)) s"

definition trap_enter :: "u64 \<Rightarrow> u64 \<Rightarrow> bool \<Rightarrow> 'd rv_state \<Rightarrow> 'd rv_state" where
  "trap_enter cause tval intr s =
    (let st0 = rs_mstatus s;
         st1 = (st0 AND NOT MSTATUS_MPIE) OR (if st0 AND MSTATUS_MIE \<noteq> 0 then MSTATUS_MPIE else 0);
         st2 = st1 AND NOT MSTATUS_MIE;
         st3 = (st2 AND NOT MSTATUS_MPP) OR push_bit 11 (of_nat (rs_priv s));
         base = rs_mtvec s AND NOT 3
     in s\<lparr>rs_mepc := rs_pc s,
          rs_mcause := (if intr then push_bit (rs_xlen s - 1) 1 OR cause else cause),
          rs_mtval := rv_xl s tval,
          rs_mstatus := st3,
          rs_priv := PRV_M,
          rs_resv := False,
          rs_pc := (if intr \<and> rs_mtvec s AND 1 \<noteq> 0 then base + 4 * cause else base)\<rparr>)"

section \<open>Memory\<close>

text \<open>The loops over the bytes of a region.\<close>

fun load_bytes :: "(u32 \<Rightarrow> u8) \<Rightarrow> u32 \<Rightarrow> nat \<Rightarrow> u64 \<Rightarrow> u64" where
  "load_bytes m p 0 v = v"
| "load_bytes m p (Suc i) v = load_bytes m p i (push_bit 8 v OR ucast (m (p + of_nat i)))"

fun store_bytes :: "(u32 \<Rightarrow> u8) \<Rightarrow> u32 \<Rightarrow> nat \<Rightarrow> u64 \<Rightarrow> (u32 \<Rightarrow> u8)" where
  "store_bytes m p 0 v = m"
| "store_bytes m p (Suc n) v = (store_bytes m p n v)(p + of_nat n := ucast (drop_bit (8 * n) v))"

text \<open>Out of memory regions, an access goes in aligned pieces of four, two or one bytes.\<close>

definition piece :: "u32 \<Rightarrow> nat \<Rightarrow> nat \<Rightarrow> nat" where
  "piece a n i =
    (if n - i \<ge> 4 \<and> (a + of_nat i) AND 3 = 0 then 4
     else if n - i \<ge> 2 \<and> (a + of_nat i) AND 1 = 0 then 2 else 1)"

lemma piece_pos: "0 < piece a n i"
  by (simp add: piece_def)

function load_pieces :: "'d rv_env \<Rightarrow> u64 \<Rightarrow> u32 \<Rightarrow> nat \<Rightarrow> nat \<Rightarrow> u64 \<Rightarrow> 'd rv_state \<Rightarrow> u64 \<times> 'd rv_state" where
  "load_pieces E a a32 n i v s =
    (if i < n then
       (let k = piece a32 n i
        in case bus_read (env_bus E) (a32 + of_nat i) k s of
             (None, s1) \<Rightarrow> (0, rv_trap EXC_LOAD_ACCESS a s1)
           | (Some x, s1) \<Rightarrow> load_pieces E a a32 n (i + k) (v OR push_bit (8 * i) (ucast x)) s1)
     else (v, s))"
  by pat_completeness auto
termination
  by (relation "measure (\<lambda>(E, a, a32, n, i, v, s). n - i)") (use piece_pos in \<open>auto simp: Let_def intro: diff_less_mono2\<close>)

function store_pieces :: "'d rv_env \<Rightarrow> u64 \<Rightarrow> u32 \<Rightarrow> nat \<Rightarrow> nat \<Rightarrow> u64 \<Rightarrow> 'd rv_state \<Rightarrow> 'd rv_state" where
  "store_pieces E a a32 n i v s =
    (if i < n then
       (let k = piece a32 n i;
            x0 = ucast (drop_bit (8 * i) v) :: u32;
            x = (if k < 4 then x0 AND (push_bit (8 * k) 1 - 1) else x0)
        in case bus_write (env_bus E) (a32 + of_nat i) k x s of
             (False, s1) \<Rightarrow> rv_trap EXC_STORE_ACCESS a s1
           | (True, s1) \<Rightarrow> store_pieces E a a32 n (i + k) v s1)
     else s)"
  by pat_completeness auto
termination
  by (relation "measure (\<lambda>(E, a, a32, n, i, v, s). n - i)") (use piece_pos in \<open>auto simp: Let_def intro: diff_less_mono2\<close>)

declare load_pieces.simps [simp del] store_pieces.simps [simp del]

definition rv_load_sim :: "'d rv_env \<Rightarrow> u64 \<Rightarrow> nat \<Rightarrow> 'd rv_state \<Rightarrow> u64 \<times> 'd rv_state" where
  "rv_load_sim E a n s =
    (if rs_trap s then (0, s)
     else if drop_bit 32 a \<noteq> 0 \<or> drop_bit 32 (a + of_nat n - 1) \<noteq> 0 then (0, rv_trap EXC_LOAD_ACCESS a s)
     else
       (let a32 = ucast a :: u32;
            (hit, s1) = (if bus_watch s \<noteq> [] then bus_watch_check a32 n False s else (False, s))
        in if hit then (0, rv_trap TRAP_WATCH 0 s1)
           else case bus_region s1 a32 (of_nat n) of
                  Some r \<Rightarrow> (load_bytes (bus_buf s1 (rg_mem r)) (a32 - rg_base r) n 0, s1)
                | None \<Rightarrow> load_pieces E a a32 n 0 0 s1))"

definition rv_store_sim :: "'d rv_env \<Rightarrow> u64 \<Rightarrow> nat \<Rightarrow> u64 \<Rightarrow> 'd rv_state \<Rightarrow> 'd rv_state" where
  "rv_store_sim E a n v s =
    (if rs_trap s then s
     else if drop_bit 32 a \<noteq> 0 \<or> drop_bit 32 (a + of_nat n - 1) \<noteq> 0 then rv_trap EXC_STORE_ACCESS a s
     else
       (let a32 = ucast a :: u32;
            (hit, s1) = (if bus_watch s \<noteq> [] then bus_watch_check a32 n True s else (False, s))
        in if hit then rv_trap TRAP_WATCH 0 s1
           else case bus_region s1 a32 (of_nat n) of
                  Some r \<Rightarrow>
                    (if \<not> rg_rom r
                     then upd_buf (rg_mem r) (store_bytes (bus_buf s1 (rg_mem r)) (a32 - rg_base r) n v) s1 else s1)
                | None \<Rightarrow> store_pieces E a a32 n 0 v s1))"

section \<open>A hart for the examples\<close>

text \<open>A core out of reset with RAM at 0x80000000, no device, no interrupt controller and no
  semihosting host.\<close>

definition sample_core :: "nat \<Rightarrow> unit rv_state" where
  "sample_core xlen =
    \<lparr>bus_rg = [\<lparr>rg_base = 0x80000000, rg_size = 0x1000, rg_mem = 0, rg_rom = False, rg_kind = MEM_RAM, rg_erased = 0\<rparr>],
     bus_buf = (\<lambda>_ _. 0), bus_nbuf = 1, bus_dev = [], bus_bb = [], bus_fail_addr = 0, bus_watch = [],
     bus_watch_hit = False, bus_watch_kind = WATCH_WRITE, bus_watch_addr = 0, bus_debug = False,
     bus_dev_fault = False, bus_touched = False,
     rs_xlen = xlen, rs_x = (\<lambda>_. 0), rs_pc = 0x80000000, rs_npc = 0, rs_f = (\<lambda>_. 0), rs_fflags = 0, rs_frm = 0,
     rs_priv = PRV_M, rs_mstatus = 0, rs_mie = 0, rs_mtvec = 0, rs_mepc = 0, rs_mcause = 0, rs_mtval = 0,
     rs_mscratch = 0, rs_medeleg = 0, rs_mideleg = 0, rs_mcounteren = 0, rs_mcountinhibit = 0, rs_menvcfg = 0,
     rs_pmpcfg = (\<lambda>_. 0), rs_pmpaddr = (\<lambda>_. 0), rs_mcycle_off = 0, rs_minstret_off = 0, rs_cyc_now = 0,
     rs_insn_now = 0, rs_resv = False, rs_resv_addr = 0, rs_resv_val = 0, rs_trap = False, rs_cause = 0,
     rs_tval = 0, rs_insn = 0, rs_changed = False, rs_msip = 0, rs_mtimecmp = 0, rs_mtime_off = 0,
     rs_esp = False, rs_mpcer = 0, rs_mpcmr = 0, rs_mpccr = 0, rs_mpc_cyc = 0, rs_mpc_ins = 0, rs_mpc_idle = 0,
     rs_idle = 0, rs_tselect = 0, rs_tdata1 = (\<lambda>_. 0), rs_tdata2 = (\<lambda>_. 0), rs_tcontrol = 0,
     rs_gpio_oen = 0, rs_gpio_out = 0, rs_model_xlen = 0, sim_insns = 0, sim_cycles = 0, sim_state = RUN,
     sim_counting = 0, sim_tick = [], sim_ev_known = False, sim_ev_any = False, sim_ev_at = 0,
     sim_semihosting = False, sim_elf64 = (xlen = 64), sim_entry = 0x80000000, sim_max_insns = 0,
     sim_exit_status = 0, sim_output = [], sim_until = None, sim_until_at = 0, sim_devs = ()\<rparr>"

definition sample_env :: "unit rv_env" where
  "sample_env = \<lparr>env_bus = no_devices, eic_pending = None, eic_claim = None, env_semihost = (\<lambda>_ _ s. (None, s))\<rparr>"

lemma sample_core_simps:
  "rs_xlen (sample_core n) = n" "rs_x (sample_core n) = (\<lambda>_. 0)" "rs_pc (sample_core n) = 0x80000000"
  by (simp_all add: sample_core_def)

end
