(* ===== verification/Rv_Csr.thy ===== *)
theory Rv_Csr
  imports Rv_Core
begin

text \<open>
  The counters and the CSRs of the RISC-V core (\<^verbatim>\<open>tools/embsim/riscv.c\<close>): the
  machine-mode set, the ESP32-C3's own, and the CSR instructions.
\<close>

section \<open>Counters and status\<close>

definition rv_mtime :: "'d rv_state \<Rightarrow> u64" where
  "rv_mtime s = sim_cycles s + rs_mtime_off s"

definition rv_mip :: "'d rv_state \<Rightarrow> u64" where
  "rv_mip s =
    (let p0 = (if rs_msip s AND 1 \<noteq> 0 then MIP_MSIP else 0)
     in if rv_mtime s \<ge> rs_mtimecmp s then p0 OR MIP_MTIP else p0)"

definition mstatus_rd :: "'d rv_state \<Rightarrow> u64" where
  "mstatus_rd s =
    (let v0 = rs_mstatus s;
         v1 = (if v0 AND MSTATUS_FS = MSTATUS_FS then v0 OR push_bit (rs_xlen s - 1) 1 else v0);
         v2 = (if rs_xlen s = 64 then v1 OR 0xa00000000 else v1)
     in rv_xl s v2)"

definition misa :: "'d rv_state \<Rightarrow> u64" where
  "misa s =
    (if rs_esp s then 0x40101104
     else
       (let ext = 1 OR push_bit 2 1 OR push_bit 3 1 OR push_bit 5 1 OR push_bit 8 1 OR push_bit 12 1 OR push_bit 20 1
        in if rs_xlen s = 64 then push_bit 62 2 OR ext else push_bit 30 1 OR ext))"

definition fs_on :: "'d rv_state \<Rightarrow> bool" where
  "fs_on s \<longleftrightarrow> rs_mstatus s AND MSTATUS_FS \<noteq> 0"

definition rv_fp_dirty :: "'d rv_state \<Rightarrow> 'd rv_state" where
  "rv_fp_dirty s = s\<lparr>rs_mstatus := rs_mstatus s OR MSTATUS_FS\<rparr>"

definition mpccr_now :: "'d rv_state \<Rightarrow> u64" where
  "mpccr_now s =
    (let v0 = rs_mpccr s; e = rs_mpcer s
     in if rs_mpcmr s AND 1 = 0 then v0
        else
          (let idle = rs_idle s - rs_mpc_idle s;
               n0 = (if e AND 1 \<noteq> 0 then rs_cyc_now s - rs_mpc_cyc s - idle
                     else if e AND 2 \<noteq> 0 then rs_insn_now s - rs_mpc_ins s else 0);
               n = (if e AND 16 \<noteq> 0 then n0 + idle else n0);
               v = v0 + n
           in if v > 0xffffffff
              then (if rs_mpcmr s AND 2 \<noteq> 0 then 0xffffffff else v AND 0xffffffff) else v))"

section \<open>Reading and writing CSRs\<close>

definition esp_csr_rd :: "u32 \<Rightarrow> 'd rv_state \<Rightarrow> u64 option" where
  "esp_csr_rd csr s =
    (if csr \<ge> 0x3a0 \<and> csr \<le> 0x3a3 then Some (rs_pmpcfg s (unat (csr - 0x3a0)))
     else if csr \<ge> 0x3b0 \<and> csr \<le> 0x3bf then Some (rs_pmpaddr s (unat (csr - 0x3b0)))
     else if csr = 0xf11 then Some 0x612
     else if csr = 0xf12 then Some 0x80000001
     else if csr = 0xf13 then Some 1
     else if csr = 0xf14 then Some 0
     else if csr = 0x300 then Some (rs_mstatus s)
     else if csr = 0x301 then Some (misa s)
     else if csr = 0x305 then Some (rs_mtvec s)
     else if csr = 0x340 then Some (rs_mscratch s)
     else if csr = 0x341 then Some (rs_mepc s)
     else if csr = 0x342 then Some (rs_mcause s)
     else if csr = 0x343 then Some (rs_mtval s)
     else if csr = 0x7a0 then Some (rs_tselect s)
     else if csr = 0x7a1 then Some (rs_tdata1 s (unat (rs_tselect s AND 7)))
     else if csr = 0x7a2 then Some (rs_tdata2 s (unat (rs_tselect s AND 7)))
     else if csr = 0x7a5 then Some (rs_tcontrol s)
     else if csr = 0x7e0 then Some (rs_mpcer s)
     else if csr = 0x7e1 then Some (rs_mpcmr s)
     else if csr = 0x7e2 then Some (mpccr_now s)
     else if csr = 0x803 then Some (rs_gpio_oen s)
     else if csr = 0x804 then Some 0
     else if csr = 0x805 then Some (rs_gpio_out s)
     else None)"

definition esp_csr_wr :: "u32 \<Rightarrow> u64 \<Rightarrow> 'd rv_state \<Rightarrow> 'd rv_state" where
  "esp_csr_wr csr v0 s =
    (let v = ucast (ucast v0 :: u32) :: u64
     in if csr \<ge> 0x3a0 \<and> csr \<le> 0x3a3 then s\<lparr>rs_pmpcfg := (rs_pmpcfg s)(unat (csr - 0x3a0) := v)\<rparr>
        else if csr \<ge> 0x3b0 \<and> csr \<le> 0x3bf then s\<lparr>rs_pmpaddr := (rs_pmpaddr s)(unat (csr - 0x3b0) := v)\<rparr>
        else if csr = 0x300 then
          (let m = MSTATUS_MIE OR MSTATUS_MPIE OR MSTATUS_TW;
               mpp = (if drop_bit 11 v AND 1 \<noteq> 0 then MSTATUS_MPP else 0)
           in s\<lparr>rs_mstatus := (rs_mstatus s AND NOT (m OR MSTATUS_MPP)) OR (v AND m) OR mpp\<rparr>)
        else if csr = 0x305 then s\<lparr>rs_mtvec := (v AND NOT 0xff) OR 1\<rparr>
        else if csr = 0x340 then s\<lparr>rs_mscratch := v\<rparr>
        else if csr = 0x341 then s\<lparr>rs_mepc := v AND NOT 1\<rparr>
        else if csr = 0x342 then s\<lparr>rs_mcause := v AND 0x8000001f\<rparr>
        else if csr = 0x343 then s\<lparr>rs_mtval := v\<rparr>
        else if csr = 0x7a0 then s\<lparr>rs_tselect := v AND 7\<rparr>
        else if csr = 0x7a1 then s\<lparr>rs_tdata1 := (rs_tdata1 s)(unat (rs_tselect s AND 7) := v)\<rparr>
        else if csr = 0x7a2 then s\<lparr>rs_tdata2 := (rs_tdata2 s)(unat (rs_tselect s AND 7) := v)\<rparr>
        else if csr = 0x7a5 then s\<lparr>rs_tcontrol := v\<rparr>
        else if csr = 0x7e0 \<or> csr = 0x7e1 \<or> csr = 0x7e2 then
          (let s1 = s\<lparr>rs_mpccr := (if csr = 0x7e2 then v else mpccr_now s), rs_mpc_cyc := sim_cycles s,
                      rs_mpc_ins := sim_insns s, rs_mpc_idle := rs_idle s\<rparr>;
               s2 = (if csr = 0x7e0 then s1\<lparr>rs_mpcer := v AND 0x7ff\<rparr> else s1)
           in if csr = 0x7e1 then s2\<lparr>rs_mpcmr := v AND 3\<rparr> else s2)
        else if csr = 0x803 then s\<lparr>rs_gpio_oen := v AND 0xff\<rparr>
        else if csr = 0x805 then s\<lparr>rs_gpio_out := v AND 0xff\<rparr>
        else s)"

definition csr_rd :: "u32 \<Rightarrow> bool \<Rightarrow> 'd rv_state \<Rightarrow> u64 option" where
  "csr_rd csr debug s =
    (if rs_esp s then esp_csr_rd csr s
     else
       (let x32 = (rs_xlen s = 32);
            cyc = rs_cyc_now s + rs_mcycle_off s;
            ins = rs_insn_now s + rs_minstret_off s
        in if csr \<ge> 1 \<and> csr \<le> 3 then
             (if \<not> fs_on s \<and> \<not> debug then None
              else Some (ucast (if csr = 1 then rs_fflags s else if csr = 2 then rs_frm s
                                else push_bit 5 (rs_frm s) OR rs_fflags s)))
           else if csr \<ge> 0x323 \<and> csr \<le> 0x33f then Some 0
           else if csr \<ge> 0x3a0 \<and> csr \<le> 0x3af then
             (if \<not> x32 \<and> csr AND 1 \<noteq> 0 then None else Some (rv_xl s (rs_pmpcfg s (unat (csr - 0x3a0)))))
           else if csr \<ge> 0x3b0 \<and> csr \<le> 0x3ef then Some (rv_xl s (rs_pmpaddr s (unat (csr - 0x3b0))))
           else if (csr \<ge> 0xb03 \<and> csr \<le> 0xb1f) \<or> (csr \<ge> 0xc03 \<and> csr \<le> 0xc1f) \<or>
                   (x32 \<and> ((csr \<ge> 0xb83 \<and> csr \<le> 0xb9f) \<or> (csr \<ge> 0xc83 \<and> csr \<le> 0xc9f))) then Some 0
           else if csr = 0x300 then Some (mstatus_rd s)
           else if csr = 0x301 then Some (misa s)
           else if csr = 0x302 then Some (rs_medeleg s)
           else if csr = 0x303 then Some (rs_mideleg s)
           else if csr = 0x304 then Some (rs_mie s)
           else if csr = 0x305 then Some (rs_mtvec s)
           else if csr = 0x306 then Some (rs_mcounteren s)
           else if csr = 0x30a then Some (rv_xl s (rs_menvcfg s))
           else if csr = 0x310 then (if \<not> x32 then None else Some 0)
           else if csr = 0x31a then (if \<not> x32 then None else Some (drop_bit 32 (rs_menvcfg s)))
           else if csr = 0x320 then Some (rs_mcountinhibit s)
           else if csr = 0x340 then Some (rs_mscratch s)
           else if csr = 0x341 then Some (rs_mepc s)
           else if csr = 0x342 then Some (rs_mcause s)
           else if csr = 0x343 then Some (rs_mtval s)
           else if csr = 0x344 then Some (rv_mip s)
           else if csr = 0xb00 \<or> csr = 0xc00 then Some (rv_xl s cyc)
           else if csr = 0xb02 \<or> csr = 0xc02 then Some (rv_xl s ins)
           else if csr = 0xc01 then Some (rv_xl s (rv_mtime s))
           else if csr = 0xb80 \<or> csr = 0xc80 then (if \<not> x32 then None else Some (drop_bit 32 cyc))
           else if csr = 0xb82 \<or> csr = 0xc82 then (if \<not> x32 then None else Some (drop_bit 32 ins))
           else if csr = 0xc81 then (if \<not> x32 then None else Some (drop_bit 32 (rv_mtime s)))
           else if csr = 0xf11 \<or> csr = 0xf12 \<or> csr = 0xf13 \<or> csr = 0xf14 \<or> csr = 0xf15 then Some 0
           else None))"

definition set_lo :: "u64 \<Rightarrow> u64 \<Rightarrow> u64" where
  "set_lo old v = (old AND NOT 0xffffffff) OR ucast (ucast v :: u32)"

definition set_hi :: "u64 \<Rightarrow> u64 \<Rightarrow> u64" where
  "set_hi old v = (old AND 0xffffffff) OR push_bit 32 v"

definition csr_wr :: "u32 \<Rightarrow> u64 \<Rightarrow> 'd rv_state \<Rightarrow> 'd rv_state" where
  "csr_wr csr v s0 =
    (if rs_esp s0 then esp_csr_wr csr v s0
     else
       (let x32 = (rs_xlen s0 = 32);
            s = s0\<lparr>bus_touched := True\<rparr>;
            cyc = rs_cyc_now s + rs_mcycle_off s;
            ins = rs_insn_now s + rs_minstret_off s
        in if csr = 1 then rv_fp_dirty (s\<lparr>rs_fflags := ucast v AND 31\<rparr>)
           else if csr = 2 then rv_fp_dirty (s\<lparr>rs_frm := ucast v AND 7\<rparr>)
           else if csr = 3 then rv_fp_dirty (s\<lparr>rs_fflags := ucast v AND 31, rs_frm := ucast (drop_bit 5 v) AND 7\<rparr>)
           else if csr = 0x300 then
             (let mask0 = MSTATUS_MIE OR MSTATUS_MPIE OR MSTATUS_FS OR MSTATUS_MPRV OR MSTATUS_TW;
                  mpp = drop_bit 11 v AND 3;
                  mask = (if mpp = of_nat PRV_U \<or> mpp = of_nat PRV_M then mask0 OR MSTATUS_MPP else mask0)
              in s\<lparr>rs_mstatus := (rs_mstatus s AND NOT mask) OR (v AND mask)\<rparr>)
           else if csr = 0x304 then s\<lparr>rs_mie := v AND (MIP_MSIP OR MIP_MTIP OR push_bit 11 1)\<rparr>
           else if csr = 0x305 then (if v AND 3 < 2 then s\<lparr>rs_mtvec := rv_xl s v\<rparr> else s)
           else if csr = 0x306 then s\<lparr>rs_mcounteren := ucast (ucast v :: u32)\<rparr>
           else if csr = 0x30a then s\<lparr>rs_menvcfg := (if x32 then set_lo (rs_menvcfg s) v else v)\<rparr>
           else if csr = 0x31a then s\<lparr>rs_menvcfg := set_hi (rs_menvcfg s) v\<rparr>
           else if csr = 0x320 then s\<lparr>rs_mcountinhibit := ucast ((ucast v :: u32) AND NOT 2)\<rparr>
           else if csr = 0x340 then s\<lparr>rs_mscratch := rv_xl s v\<rparr>
           else if csr = 0x341 then s\<lparr>rs_mepc := rv_xl s v AND NOT 1\<rparr>
           else if csr = 0x342 then s\<lparr>rs_mcause := rv_xl s v\<rparr>
           else if csr = 0x343 then s\<lparr>rs_mtval := rv_xl s v\<rparr>
           else if csr = 0xb00 then s\<lparr>rs_mcycle_off := rs_mcycle_off s + ((if x32 then set_lo cyc v else v) - cyc)\<rparr>
           else if csr = 0xb80 then s\<lparr>rs_mcycle_off := rs_mcycle_off s + (set_hi cyc v - cyc)\<rparr>
           else if csr = 0xb02 then
             s\<lparr>rs_minstret_off := rs_minstret_off s + ((if x32 then set_lo (ins + 1) v else v) - (ins + 1))\<rparr>
           else if csr = 0xb82 then s\<lparr>rs_minstret_off := rs_minstret_off s + (set_hi (ins + 1) v - (ins + 1))\<rparr>
           else if csr \<ge> 0x3a0 \<and> csr \<le> 0x3af then s\<lparr>rs_pmpcfg := (rs_pmpcfg s)(unat (csr - 0x3a0) := rv_xl s v)\<rparr>
           else if csr \<ge> 0x3b0 \<and> csr \<le> 0x3ef then
             s\<lparr>rs_pmpaddr := (rs_pmpaddr s)(unat (csr - 0x3b0) :=
                 rv_xl s v AND (if x32 then 0xffffffff else 0x3fffffffffffff))\<rparr>
           else s))"

definition csr_insn :: "u32 \<Rightarrow> 'd rv_state \<Rightarrow> 'd rv_state" where
  "csr_insn i s =
    (let csr = drop_bit 20 i; rd = unat (drop_bit 7 i AND 31); rs1 = unat (drop_bit 15 i AND 31);
         f3 = drop_bit 12 i AND 7;
         src = (if f3 AND 4 \<noteq> 0 then of_nat rs1 else rs_x s rs1);
         write = (f3 AND 3 = 1 \<or> rs1 \<noteq> 0)
     in if unat (drop_bit 8 csr AND 3) > rs_priv s \<or>
           (write \<and> (drop_bit 10 csr = 3 \<or> (rs_esp s \<and> csr = 0x804))) then rv_illegal s
        else case csr_rd csr False s of
          None \<Rightarrow> rv_illegal s
        | Some old \<Rightarrow>
           (if rs_priv s < PRV_M \<and> csr \<ge> 0xc00 \<and> csr \<le> 0xc1f \<and>
               drop_bit (unat (csr AND 31)) (rs_mcounteren s) AND 1 = 0 then rv_illegal s
            else
              (let s1 = (if write then
                           csr_wr csr (if f3 AND 3 = 1 then src else if f3 AND 3 = 2 then old OR src
                                       else old AND NOT src) s
                         else s)
               in rv_wx rd old s1)))"

end
