(* ===== verification/Ieee754.thy ===== *)
theory Ieee754
  imports Limbs
begin

text \<open>
  IEEE 754 binary32 and binary64 arithmetic in integers
  (\<^verbatim>\<open>tools/embsim/ieee754.c\<close>), which the simulator's FPUs share.  The format \<open>d\<close> is
  true for binary64.  A C function that ORs into \<open>*fl\<close> returns the flags it raises
  beside its result.
\<close>

section \<open>Formats\<close>

abbreviation (input) IEEE_RNE :: u32 where "IEEE_RNE \<equiv> 0"
abbreviation (input) IEEE_RTZ :: u32 where "IEEE_RTZ \<equiv> 1"
abbreviation (input) IEEE_RDN :: u32 where "IEEE_RDN \<equiv> 2"
abbreviation (input) IEEE_RUP :: u32 where "IEEE_RUP \<equiv> 3"
abbreviation (input) IEEE_RMM :: u32 where "IEEE_RMM \<equiv> 4"

abbreviation (input) IEEE_NX :: u32 where "IEEE_NX \<equiv> 1"
abbreviation (input) IEEE_UF :: u32 where "IEEE_UF \<equiv> 2"
abbreviation (input) IEEE_OF :: u32 where "IEEE_OF \<equiv> 4"
abbreviation (input) IEEE_DZ :: u32 where "IEEE_DZ \<equiv> 8"
abbreviation (input) IEEE_NV :: u32 where "IEEE_NV \<equiv> 16"

definition mbits :: "bool \<Rightarrow> nat" where "mbits d = (if d then 52 else 23)"
definition bias :: "bool \<Rightarrow> int" where "bias d = (if d then 1023 else 127)"
definition emask :: "bool \<Rightarrow> u64" where "emask d = (if d then 0x7ff else 0xff)"
definition mmask :: "bool \<Rightarrow> u64" where "mmask d = push_bit (mbits d) 1 - 1"

text \<open>The number of the sign bit.\<close>

definition sbit :: "bool \<Rightarrow> nat" where "sbit d = (if d then 63 else 31)"

definition fsgn :: "bool \<Rightarrow> u64 \<Rightarrow> bool" where
  "fsgn d a \<longleftrightarrow> drop_bit (sbit d) a AND 1 \<noteq> 0"

definition exp_field :: "bool \<Rightarrow> u64 \<Rightarrow> u64" where
  "exp_field d a = drop_bit (mbits d) a AND emask d"

definition pack :: "bool \<Rightarrow> bool \<Rightarrow> u64 \<Rightarrow> u64 \<Rightarrow> u64" where
  "pack d s e m = push_bit (sbit d) (of_bool s) OR push_bit (mbits d) e OR m"

definition canon :: "bool \<Rightarrow> u64" where
  "canon d = (if d then 0x7ff8000000000000 else 0x7fc00000)"

definition ieee_inf :: "bool \<Rightarrow> bool \<Rightarrow> u64" where
  "ieee_inf d s = pack d s (emask d) 0"

definition isnan :: "bool \<Rightarrow> u64 \<Rightarrow> bool" where
  "isnan d a \<longleftrightarrow> exp_field d a = emask d \<and> a AND mmask d \<noteq> 0"

definition issnan :: "bool \<Rightarrow> u64 \<Rightarrow> bool" where
  "issnan d a \<longleftrightarrow> isnan d a \<and> drop_bit (mbits d - 1) a AND 1 = 0"

definition isinf :: "bool \<Rightarrow> u64 \<Rightarrow> bool" where
  "isinf d a \<longleftrightarrow> exp_field d a = emask d \<and> a AND mmask d = 0"

definition iszero :: "bool \<Rightarrow> u64 \<Rightarrow> bool" where
  "iszero d a \<longleftrightarrow> a AND (if d then NOT (push_bit 63 1) else 0x7fffffff) = 0"

section \<open>128-bit integers\<close>

record ie128 =
  ie_hi :: u64
  ie_lo :: u64

definition ie_mul64 :: "u64 \<Rightarrow> u64 \<Rightarrow> ie128" where
  "ie_mul64 a b =
    (let al = ucast (ucast a :: u32); ah = drop_bit 32 a; bl = ucast (ucast b :: u32); bh = drop_bit 32 b;
         ll = al * bl; lh = al * bh; hl = ah * bl; hh = ah * bh;
         mid = drop_bit 32 ll + ucast (ucast lh :: u32) + ucast (ucast hl :: u32)
     in \<lparr>ie_hi = hh + drop_bit 32 lh + drop_bit 32 hl + drop_bit 32 mid,
         ie_lo = push_bit 32 mid OR ucast (ucast ll :: u32)\<rparr>)"

function bitlen64 :: "u64 \<Rightarrow> nat" where
  "bitlen64 v = (if v = 0 then 0 else Suc (bitlen64 (drop_bit 1 v)))"
  by pat_completeness auto
termination
  by (relation "measure unat") (auto simp: unat_drop_bit unat_gt_0 intro!: div_less_dividend)

declare bitlen64.simps [simp del]

definition bitlen128 :: "ie128 \<Rightarrow> nat" where
  "bitlen128 v = (if ie_hi v \<noteq> 0 then 64 + bitlen64 (ie_hi v) else bitlen64 (ie_lo v))"

definition shl128 :: "ie128 \<Rightarrow> nat \<Rightarrow> ie128" where
  "shl128 v n =
    (if n = 0 then v
     else if n \<ge> 128 then \<lparr>ie_hi = 0, ie_lo = 0\<rparr>
     else if n \<ge> 64 then \<lparr>ie_hi = push_bit (n - 64) (ie_lo v), ie_lo = 0\<rparr>
     else \<lparr>ie_hi = push_bit n (ie_hi v) OR drop_bit (64 - n) (ie_lo v), ie_lo = push_bit n (ie_lo v)\<rparr>)"

definition shr128_jam :: "ie128 \<Rightarrow> nat \<Rightarrow> ie128" where
  "shr128_jam v n =
    (if n = 0 then v
     else if n \<ge> 128 then \<lparr>ie_hi = 0, ie_lo = of_bool (ie_hi v OR ie_lo v \<noteq> 0)\<rparr>
     else if n \<ge> 64 then
       (let lost = (ie_lo v \<noteq> 0 \<or> (n > 64 \<and> push_bit (128 - n) (ie_hi v) \<noteq> 0))
        in \<lparr>ie_hi = 0, ie_lo = (if n = 64 then ie_hi v else drop_bit (n - 64) (ie_hi v)) OR of_bool lost\<rparr>)
     else
       (let lost = (push_bit (64 - n) (ie_lo v) \<noteq> 0)
        in \<lparr>ie_hi = drop_bit n (ie_hi v),
            ie_lo = drop_bit n (ie_lo v) OR push_bit (64 - n) (ie_hi v) OR of_bool lost\<rparr>))"

definition ge128 :: "ie128 \<Rightarrow> ie128 \<Rightarrow> bool" where
  "ge128 a b \<longleftrightarrow> ie_hi a > ie_hi b \<or> (ie_hi a = ie_hi b \<and> ie_lo a \<ge> ie_lo b)"

definition add128 :: "ie128 \<Rightarrow> ie128 \<Rightarrow> ie128" where
  "add128 a b =
    (let lo = ie_lo a + ie_lo b in \<lparr>ie_hi = ie_hi a + ie_hi b + of_bool (lo < ie_lo a), ie_lo = lo\<rparr>)"

definition sub128 :: "ie128 \<Rightarrow> ie128 \<Rightarrow> ie128" where
  "sub128 a b =
    \<lparr>ie_hi = ie_hi a - ie_hi b - of_bool (ie_lo a < ie_lo b), ie_lo = ie_lo a - ie_lo b\<rparr>"

section \<open>Rounding\<close>

text \<open>\<open>rnd\<close> returns the rounded quotient and whether bits were lost.\<close>

definition rnd_up :: "u64 \<Rightarrow> u64 \<Rightarrow> u64 \<Rightarrow> bool \<Rightarrow> u32 \<Rightarrow> bool" where
  "rnd_up r rb half s rm \<longleftrightarrow>
    (if rm = IEEE_RNE then rb > half \<or> (rb = half \<and> r AND 1 \<noteq> 0)
     else if rm = IEEE_RTZ then False
     else if rm = IEEE_RDN then s \<and> rb \<noteq> 0
     else if rm = IEEE_RUP then \<not> s \<and> rb \<noteq> 0
     else rb \<ge> half)"

definition rnd :: "u64 \<Rightarrow> nat \<Rightarrow> bool \<Rightarrow> u32 \<Rightarrow> u64 \<times> bool" where
  "rnd sig sh s rm =
    (let r = drop_bit sh sig; rb = sig AND (push_bit sh 1 - 1); half = push_bit (sh - 1) 1
     in (r + of_bool (rnd_up r rb half s rm), rb \<noteq> 0))"

lemma unat_lt_if_top_clear:
  fixes sig :: u64
  assumes "drop_bit 62 sig = 0"
  shows "unat sig < 2 ^ 62"
proof -
  have "unat sig div 2 ^ 62 = 0"
    using assms unat_drop_bit [of 62 sig] by simp
  then show ?thesis by (simp add: div_eq_0_iff)
qed

lemma norm_sig_grows:
  fixes sig :: u64
  assumes "drop_bit 62 sig = 0" "sig \<noteq> 0"
  shows "unat sig < unat (push_bit (Suc 0) sig)" "unat sig < 18446744073709551616"
proof -
  have b: "unat sig < 2 ^ 62" using assms(1) by (rule unat_lt_if_top_clear)
  then have "unat (push_bit (Suc 0) sig) = unat sig * 2 ^ Suc 0"
    by (intro unat_push_bit_lt) simp
  then show "unat sig < unat (push_bit (Suc 0) sig)"
    using assms(2) by (simp add: unat_gt_0)
  show "unat sig < 18446744073709551616" using b by simp
qed

text \<open>The loop that brings the top bit up to bit 62; \<open>round_pack\<close> runs it on a nonzero
  significand only.\<close>

function norm_sig :: "u64 \<Rightarrow> int \<Rightarrow> u64 \<times> int" where
  "norm_sig sig e =
    (if drop_bit 62 sig = 0 \<and> sig \<noteq> 0 then norm_sig (push_bit 1 sig) (e - 1) else (sig, e))"
  by pat_completeness auto
termination
  by (relation "measure (\<lambda>(sig, e). 2 ^ 64 - unat sig)") (use norm_sig_grows in \<open>auto intro!: diff_less_mono2\<close>)

declare norm_sig.simps [simp del]

definition to_inf :: "bool \<Rightarrow> u32 \<Rightarrow> bool" where
  "to_inf s rm \<longleftrightarrow> rm = IEEE_RNE \<or> rm = IEEE_RMM \<or> (rm = IEEE_RUP \<and> \<not> s) \<or> (rm = IEEE_RDN \<and> s)"

definition pack_subnormal :: "bool \<Rightarrow> bool \<Rightarrow> int \<Rightarrow> u64 \<Rightarrow> u32 \<Rightarrow> u64 \<times> u32" where
  "pack_subnormal d s e sig rm =
    (let p = mbits d + 1; sh = 63 - p; emin = 1 - bias d;
         tiny = \<not> (e = emin - 1 \<and> drop_bit p (fst (rnd sig sh s rm)) \<noteq> 0);
         dd = nat (emin - e);
         sig' = (if dd \<ge> 63 then of_bool (sig \<noteq> 0)
                 else drop_bit dd sig OR of_bool (sig AND (push_bit dd 1 - 1) \<noteq> 0));
         (r, ix) = rnd sig' sh s rm;
         fl = (if ix then IEEE_NX OR (if tiny then IEEE_UF else 0) else 0)
     in if drop_bit (p - 1) r \<noteq> 0 then (pack d s 1 (r AND mmask d), fl) else (pack d s 0 r, fl))"

definition pack_normal :: "bool \<Rightarrow> bool \<Rightarrow> int \<Rightarrow> u64 \<Rightarrow> u32 \<Rightarrow> u64 \<times> u32" where
  "pack_normal d s e0 sig rm =
    (let p = mbits d + 1; sh = 63 - p;
         (r0, ix) = rnd sig sh s rm;
         (r, e) = (if drop_bit p r0 \<noteq> 0 then (drop_bit 1 r0, e0 + 1) else (r0, e0));
         fl = (if ix then IEEE_NX else 0)
     in if e > bias d then
          (if to_inf s rm then ieee_inf d s else pack d s (emask d - 1) (mmask d), fl OR IEEE_OF OR IEEE_NX)
        else (pack d s (word_of_int (e + bias d)) (r AND mmask d), fl))"

definition round_pack :: "bool \<Rightarrow> bool \<Rightarrow> int \<Rightarrow> u64 \<Rightarrow> u32 \<Rightarrow> u64 \<times> u32" where
  "round_pack d s e0 sig0 rm =
    (if sig0 = 0 then (pack d s 0 0, 0)
     else
       (let (sig1, e1) = norm_sig sig0 e0;
            (sig, e) = (if drop_bit 63 sig1 \<noteq> 0 then (drop_bit 1 sig1 OR (sig1 AND 1), e1 + 1) else (sig1, e1))
        in if e < 1 - bias d then pack_subnormal d s e sig rm else pack_normal d s e sig rm))"

definition round128 :: "bool \<Rightarrow> bool \<Rightarrow> ie128 \<Rightarrow> int \<Rightarrow> u32 \<Rightarrow> u64 \<times> u32" where
  "round128 d s v e2 rm =
    (let n = bitlen128 v; sh = (if n > 63 then n - 63 else 0); t = shr128_jam v sh
     in round_pack d s (e2 + int sh + 62) (ie_lo t) rm)"

definition unpack :: "bool \<Rightarrow> u64 \<Rightarrow> u64 \<times> int" where
  "unpack d a =
    (let x = exp_field d a; m = a AND mmask d
     in if x \<noteq> 0 then (m OR push_bit (mbits d) 1, uint x - bias d - int (mbits d))
        else (m, 1 - bias d - int (mbits d)))"

section \<open>The operations\<close>

definition nan_result :: "bool \<Rightarrow> u64 list \<Rightarrow> u64 \<times> u32" where
  "nan_result d ops = (canon d, if \<exists>a \<in> set ops. issnan d a then IEEE_NV else 0)"

definition ie_w128 :: "u64 \<Rightarrow> ie128" where
  "ie_w128 v = \<lparr>ie_hi = 0, ie_lo = v\<rparr>"

definition add_core :: "bool \<Rightarrow> bool \<Rightarrow> ie128 \<Rightarrow> int \<Rightarrow> bool \<Rightarrow> ie128 \<Rightarrow> int \<Rightarrow> u32 \<Rightarrow> u64 \<times> u32" where
  "add_core d sa A0 ea0 sb B0 eb0 rm =
    (let na = bitlen128 A0; nb = bitlen128 B0;
         A1 = shl128 A0 (126 - na); ea = ea0 - (126 - int na);
         B1 = shl128 B0 (126 - nb); eb = eb0 - (126 - int nb);
         (A, B, e) =
           (if ea \<ge> eb then (A1, shr128_jam B1 (if ea - eb > 127 then 128 else nat (ea - eb)), ea)
            else (shr128_jam A1 (if eb - ea > 127 then 128 else nat (eb - ea)), B1, eb));
         (r, s) = (if sa = sb then (add128 A B, sa)
                   else if ge128 A B then (sub128 A B, sa) else (sub128 B A, sb))
     in if ie_hi r = 0 \<and> ie_lo r = 0 then (pack d (rm = IEEE_RDN) 0 0, 0)
        else round128 d s r e rm)"

definition ieee_add :: "bool \<Rightarrow> u64 \<Rightarrow> u64 \<Rightarrow> bool \<Rightarrow> u32 \<Rightarrow> u64 \<times> u32" where
  "ieee_add d a b sub rm =
    (if isnan d a \<or> isnan d b then nan_result d [a, b]
     else
       (let sa = fsgn d a; sb = (fsgn d b \<noteq> sub)
        in if isinf d a \<or> isinf d b then
             (if isinf d a \<and> isinf d b \<and> sa \<noteq> sb then (canon d, IEEE_NV)
              else if isinf d a then (ieee_inf d sa, 0) else (ieee_inf d sb, 0))
           else if iszero d a \<and> iszero d b then (pack d (if sa = sb then sa else rm = IEEE_RDN) 0 0, 0)
           else if iszero d b then (a, 0)
           else if iszero d a then (b XOR push_bit (sbit d) (of_bool sub), 0)
           else
             (let (ma, ea) = unpack d a; (mb, eb) = unpack d b
              in add_core d sa (ie_w128 ma) ea sb (ie_w128 mb) eb rm)))"

definition ieee_mul :: "bool \<Rightarrow> u64 \<Rightarrow> u64 \<Rightarrow> u32 \<Rightarrow> u64 \<times> u32" where
  "ieee_mul d a b rm =
    (let s = (fsgn d a \<noteq> fsgn d b)
     in if isnan d a \<or> isnan d b then nan_result d [a, b]
        else if isinf d a \<or> isinf d b then
          (if iszero d a \<or> iszero d b then (canon d, IEEE_NV) else (ieee_inf d s, 0))
        else if iszero d a \<or> iszero d b then (pack d s 0 0, 0)
        else
          (let (ma, ea) = unpack d a; (mb, eb) = unpack d b
           in round128 d s (ie_mul64 ma mb) (ea + eb) rm))"

definition ieee_fma :: "bool \<Rightarrow> u64 \<Rightarrow> u64 \<Rightarrow> u64 \<Rightarrow> bool \<Rightarrow> bool \<Rightarrow> u32 \<Rightarrow> u64 \<times> u32" where
  "ieee_fma d a b c negp negc rm =
    (let inval = ((isinf d a \<and> iszero d b) \<or> (iszero d a \<and> isinf d b))
     in if isnan d a \<or> isnan d b \<or> isnan d c then
          (let (r, fl) = nan_result d [a, b, c] in (r, if inval then fl OR IEEE_NV else fl))
        else if inval then (canon d, IEEE_NV)
        else
          (let sp = ((fsgn d a \<noteq> fsgn d b) \<noteq> negp); sc = (fsgn d c \<noteq> negc)
           in if isinf d a \<or> isinf d b then
                (if isinf d c \<and> sc \<noteq> sp then (canon d, IEEE_NV) else (ieee_inf d sp, 0))
              else if isinf d c then (ieee_inf d sc, 0)
              else
                (let cc = (if negc then c XOR push_bit (sbit d) 1 else c)
                 in if iszero d a \<or> iszero d b then
                      (if iszero d c then (pack d (if sp = sc then sp else rm = IEEE_RDN) 0 0, 0) else (cc, 0))
                    else
                      (let (ma, ea) = unpack d a; (mb, eb) = unpack d b
                       in if iszero d c then round128 d sp (ie_mul64 ma mb) (ea + eb) rm
                          else
                            (let (mc, ec) = unpack d c
                             in add_core d sp (ie_mul64 ma mb) (ea + eb) sc (ie_w128 mc) ec rm)))))"

text \<open>One turn of the division loop, and its 63 turns.\<close>

definition fdiv_step :: "u64 \<Rightarrow> u64 \<times> u64 \<Rightarrow> u64 \<times> u64" where
  "fdiv_step mb = (\<lambda>(q, r).
    (let q1 = push_bit 1 q; (q2, r2) = (if r \<ge> mb then (q1 OR 1, r - mb) else (q1, r))
     in (q2, push_bit 1 r2)))"

definition ieee_div :: "bool \<Rightarrow> u64 \<Rightarrow> u64 \<Rightarrow> u32 \<Rightarrow> u64 \<times> u32" where
  "ieee_div d a b rm =
    (let s = (fsgn d a \<noteq> fsgn d b)
     in if isnan d a \<or> isnan d b then nan_result d [a, b]
        else if isinf d a then (if isinf d b then (canon d, IEEE_NV) else (ieee_inf d s, 0))
        else if isinf d b then (pack d s 0 0, 0)
        else if iszero d b then (if iszero d a then (canon d, IEEE_NV) else (ieee_inf d s, IEEE_DZ))
        else if iszero d a then (pack d s 0 0, 0)
        else
          (let (ma0, ea0) = unpack d a; (mb0, eb0) = unpack d b;
               la = bitlen64 ma0; lb = bitlen64 mb0;
               ma1 = push_bit (62 - la) ma0; ea1 = ea0 - (62 - int la);
               mb = push_bit (62 - lb) mb0; eb = eb0 - (62 - int lb);
               (ma, ea) = (if ma1 < mb then (push_bit 1 ma1, ea1 - 1) else (ma1, ea1));
               (q, r) = (fdiv_step mb ^^ 63) (0, ma)
           in round_pack d s (ea - eb) (q OR of_bool (r \<noteq> 0)) rm))"

text \<open>The radicand's two bits of turn \<open>i\<close>, one turn of the square root's loop, and the loop.\<close>

definition sqrt_two :: "ie128 \<Rightarrow> nat \<Rightarrow> u64" where
  "sqrt_two R i =
    (let pos = 122 - 2 * i
     in if pos \<ge> 64 then drop_bit (pos - 64) (ie_hi R) AND 3
        else if pos = 63 then push_bit 1 (ie_hi R AND 1) OR drop_bit 63 (ie_lo R)
        else drop_bit pos (ie_lo R) AND 3)"

definition sqrt_step :: "ie128 \<Rightarrow> nat \<Rightarrow> u64 \<times> u64 \<Rightarrow> u64 \<times> u64" where
  "sqrt_step R i = (\<lambda>(root, rem0).
    (let rem = push_bit 2 rem0 OR sqrt_two R i; trial = push_bit 2 root OR 1; root1 = push_bit 1 root
     in if rem \<ge> trial then (root1 OR 1, rem - trial) else (root1, rem)))"

definition ieee_sqrt :: "bool \<Rightarrow> u64 \<Rightarrow> u32 \<Rightarrow> u64 \<times> u32" where
  "ieee_sqrt d a rm =
    (if isnan d a then nan_result d [a]
     else if iszero d a then (a, 0)
     else if fsgn d a then (canon d, IEEE_NV)
     else if isinf d a then (a, 0)
     else
       (let (m0, e0) = unpack d a;
            (m, e) = (if odd e0 then (push_bit 1 m0, e0 - 1) else (m0, e0));
            L = bitlen64 m; sh0 = 124 - L; sh = (if odd sh0 then sh0 - 1 else sh0);
            R = shl128 (ie_w128 m) sh;
            (root, rem) = fold (sqrt_step R) [0..<62] (0, 0)
        in round_pack d False ((e - int sh) div 2 + 62) (root OR of_bool (rem \<noteq> 0)) rm))"

definition int_max :: "nat \<Rightarrow> bool \<Rightarrow> u64" where
  "int_max bits uns =
    (if uns then (if bits = 64 then NOT 0 else 0xffffffff)
     else (if bits = 64 then 0x7fffffffffffffff else 0x7fffffff))"

definition int_min :: "nat \<Rightarrow> bool \<Rightarrow> u64" where
  "int_min bits uns = (if uns then 0 else if bits = 64 then push_bit 63 1 else 0xffffffff80000000)"

text \<open>The magnitude rounded to an integer, with whether it is inexact; \<open>None\<close> is the jump
  to \<open>range\<close>.\<close>

definition int_mag :: "u64 \<Rightarrow> int \<Rightarrow> bool \<Rightarrow> u32 \<Rightarrow> (u64 \<times> bool) option" where
  "int_mag m e s rm =
    (if e \<ge> 0 then (if e + int (bitlen64 m) > 64 then None else Some (push_bit (nat e) m, False))
     else if - e > 64 then Some (fst (rnd (if m = 0 then 0 else 1) 2 s rm), True)
     else if - e = 64 then Some (fst (rnd 1 2 s rm), True)
     else Some (rnd m (nat (- e)) s rm))"

definition ieee_to_int :: "bool \<Rightarrow> u64 \<Rightarrow> nat \<Rightarrow> bool \<Rightarrow> u32 \<Rightarrow> u64 \<times> u32" where
  "ieee_to_int d a bits uns rm =
    (let s = fsgn d a; mx = int_max bits uns; mn = int_min bits uns
     in if isnan d a then (mx, IEEE_NV)
        else if isinf d a then (if s then mn else mx, IEEE_NV)
        else if iszero d a then (0, 0)
        else
          (let (m, e) = unpack d a
           in case int_mag m e s rm of
                None \<Rightarrow> (if s then mn else mx, IEEE_NV)
              | Some (mag, ix) \<Rightarrow>
                  (if (if uns then (s \<and> mag \<noteq> 0) \<or> (bits = 32 \<and> mag > mx)
                       else (\<not> s \<and> mag > mx) \<or> (s \<and> mag > (if bits = 64 then push_bit 63 1 else 0x80000000)))
                   then (if s then mn else mx, IEEE_NV)
                   else (if s then 0 - mag else mag, if ix then IEEE_NX else 0))))"

definition ieee_from_int :: "bool \<Rightarrow> u64 \<Rightarrow> nat \<Rightarrow> bool \<Rightarrow> u32 \<Rightarrow> u64 \<times> u32" where
  "ieee_from_int d v0 bits uns rm =
    (let v1 = (if bits = 32 then (if uns then ucast (ucast v0 :: u32) else scast (ucast v0 :: u32)) else v0);
         s = (\<not> uns \<and> v1 <s 0);
         v = (if s then 0 - v1 else v1)
     in if v = 0 then (0, 0) else round_pack d s 62 v rm)"

definition ieee_convert :: "bool \<Rightarrow> u64 \<Rightarrow> u32 \<Rightarrow> u64 \<times> u32" where
  "ieee_convert to_d a rm =
    (let from = (\<not> to_d); s = fsgn from a
     in if isnan from a then (canon to_d, if issnan from a then IEEE_NV else 0)
        else if isinf from a then (ieee_inf to_d s, 0)
        else if iszero from a then (pack to_d s 0 0, 0)
        else (let (m, e) = unpack from a in round_pack to_d s (e + 62) m rm))"

definition ieee_lt :: "bool \<Rightarrow> u64 \<Rightarrow> u64 \<Rightarrow> bool" where
  "ieee_lt d a b \<longleftrightarrow>
    (let sa = fsgn d a; sb = fsgn d b;
         ma = a AND NOT (push_bit (sbit d) 1); mb = b AND NOT (push_bit (sbit d) 1)
     in if sa \<noteq> sb then sa else if sa then ma > mb else ma < mb)"

definition ieee_cmp :: "bool \<Rightarrow> u64 \<Rightarrow> u64 \<Rightarrow> u32 \<Rightarrow> bool \<times> u32" where
  "ieee_cmp d a b op =
    (if isnan d a \<or> isnan d b then (False, if op \<noteq> 2 \<or> issnan d a \<or> issnan d b then IEEE_NV else 0)
     else if iszero d a \<and> iszero d b then (op \<noteq> 1, 0)
     else if op = 2 then (a = b, 0)
     else if op = 1 then (ieee_lt d a b, 0)
     else (ieee_lt d a b \<or> a = b, 0))"

definition ieee_minmax :: "bool \<Rightarrow> u64 \<Rightarrow> u64 \<Rightarrow> bool \<Rightarrow> u64 \<times> u32" where
  "ieee_minmax d a b mx =
    (let na = isnan d a; nb = isnan d b; fl = (if issnan d a \<or> issnan d b then IEEE_NV else 0)
     in if na \<and> nb then (canon d, fl)
        else if na then (b, fl)
        else if nb then (a, fl)
        else
          (let lt0 = fst (ieee_cmp d a b 1);
               lt = (if iszero d a \<and> iszero d b \<and> fsgn d a \<noteq> fsgn d b then fsgn d a else lt0)
           in (if lt \<noteq> mx then a else b, fl)))"

definition ieee_class :: "bool \<Rightarrow> u64 \<Rightarrow> u64" where
  "ieee_class d a =
    (let s = fsgn d a
     in if isinf d a then (if s then 1 else push_bit 7 1)
        else if isnan d a then (if issnan d a then push_bit 8 1 else push_bit 9 1)
        else if iszero d a then (if s then push_bit 3 1 else push_bit 4 1)
        else if exp_field d a = 0 then (if s then push_bit 2 1 else push_bit 5 1)
        else (if s then push_bit 1 1 else push_bit 6 1))"

definition ieee_isnan :: "bool \<Rightarrow> u64 \<Rightarrow> bool" where "ieee_isnan d a = isnan d a"
definition ieee_issnan :: "bool \<Rightarrow> u64 \<Rightarrow> bool" where "ieee_issnan d a = issnan d a"
definition ieee_default_nan :: "bool \<Rightarrow> u64" where "ieee_default_nan d = canon d"

end
