(* ===== verification/Rv_Fpu.thy ===== *)
theory Rv_Fpu
  imports Rv_Csr Ieee754
begin

text \<open>
  The registers and the instructions of the F and D extensions
  (\<^verbatim>\<open>tools/embsim/riscv-fpu.c\<close>); the arithmetic is \<open>Ieee754\<close>'s.
\<close>

definition rd_s :: "'d rv_state \<Rightarrow> nat \<Rightarrow> u64" where
  "rd_s s r = (let v = rs_f s r in if drop_bit 32 v = 0xffffffff then zext32 v else 0x7fc00000)"

definition rd_f :: "bool \<Rightarrow> nat \<Rightarrow> 'd rv_state \<Rightarrow> u64" where
  "rd_f d r s = (if d then rs_f s r else rd_s s r)"

definition wr_f :: "bool \<Rightarrow> nat \<Rightarrow> u64 \<Rightarrow> 'd rv_state \<Rightarrow> 'd rv_state" where
  "wr_f d r v s = rv_fp_dirty (s\<lparr>rs_f := (rs_f s)(r := if d then v else 0xffffffff00000000 OR zext32 v)\<rparr>)"

definition rmode :: "u32 \<Rightarrow> 'd rv_state \<Rightarrow> u32 option" where
  "rmode f3 s = (let rm = (if f3 = 7 then rs_frm s else f3) in if rm > 4 then None else Some rm)"

definition fp_flags :: "u32 \<Rightarrow> 'd rv_state \<Rightarrow> 'd rv_state" where
  "fp_flags fl s = (if fl \<noteq> 0 then rv_fp_dirty (s\<lparr>rs_fflags := rs_fflags s OR fl\<rparr>) else s)"

text \<open>A result with the flags the operation raised.\<close>

definition fp_result :: "bool \<Rightarrow> nat \<Rightarrow> u64 \<times> u32 \<Rightarrow> 'd rv_state \<Rightarrow> 'd rv_state" where
  "fp_result d rd = (\<lambda>(r, fl) s. fp_flags fl (wr_f d rd r s))"

definition fp_mem :: "'d rv_env \<Rightarrow> u32 \<Rightarrow> 'd rv_state \<Rightarrow> 'd rv_state" where
  "fp_mem E i s =
    (let op = i AND 0x7f; rd = unat (drop_bit 7 i AND 31); f3 = drop_bit 12 i AND 7;
         r1 = unat (drop_bit 15 i AND 31); r2 = unat (drop_bit 20 i AND 31);
         n = (if f3 = 2 then 4 else 8) :: nat
     in if f3 \<noteq> 2 \<and> f3 \<noteq> 3 then rv_illegal s
        else if op = 0x07 then
          (let (v, s1) = rv_load_sim E (rv_xl s (rs_x s r1 + scast (signed_drop_bit 20 i))) n s
           in if \<not> rs_trap s1 then wr_f (f3 = 3) rd v s1 else s1)
        else
          (let imm = (scast (push_bit 5 (signed_drop_bit 25 i)) OR ucast (drop_bit 7 i AND 31)) :: u64
           in rv_store_sim E (rv_xl s (rs_x s r1 + imm)) n (rs_f s r2) s))"

definition fp_op :: "'d rv_env \<Rightarrow> u32 \<Rightarrow> 'd rv_state \<Rightarrow> 'd rv_state" where
  "fp_op E i s =
    (let rd = unat (drop_bit 7 i AND 31); f3 = drop_bit 12 i AND 7;
         r1 = unat (drop_bit 15 i AND 31); r2 = drop_bit 20 i AND 31; f7 = drop_bit 25 i;
         rv64 = (rs_xlen s = 64); d = (f7 AND 3 = 1);
         a = rd_f d r1 s; b = rd_f d (unat r2) s; f5 = drop_bit 2 f7
     in if f5 = 0x00 \<or> f5 = 0x01 \<or> f5 = 0x02 \<or> f5 = 0x03 \<or> f5 = 0x0b then
          (case rmode f3 s of
             None \<Rightarrow> rv_illegal s
           | Some rm \<Rightarrow>
              (if f5 = 0x0b \<and> r2 \<noteq> 0 then rv_illegal s
               else fp_result d rd
                 (if f5 = 0x00 then ieee_add d a b False rm
                  else if f5 = 0x01 then ieee_add d a b True rm
                  else if f5 = 0x02 then ieee_mul d a b rm
                  else if f5 = 0x03 then ieee_div d a b rm
                  else ieee_sqrt d a rm) s))
        else if f5 = 0x04 then
          (let sb = push_bit (if d then 63 else 31) 1
           in if f3 > 2 then rv_illegal s
              else wr_f d rd ((a AND NOT sb) OR
                (if f3 = 0 then b AND sb else if f3 = 1 then NOT b AND sb else (a XOR b) AND sb)) s)
        else if f5 = 0x05 then
          (if f3 > 1 then rv_illegal s else fp_result d rd (ieee_minmax d a b (f3 = 1)) s)
        else if f5 = 0x08 then
          (case rmode f3 s of
             None \<Rightarrow> rv_illegal s
           | Some rm \<Rightarrow>
              (if r2 \<noteq> (if d then 0 else 1) then rv_illegal s
               else fp_result d rd (ieee_convert d (rd_f (\<not> d) r1 s) rm) s))
        else if f5 = 0x14 then
          (if f3 > 2 then rv_illegal s
           else (let (r, fl) = ieee_cmp d a b f3 in fp_flags fl (rv_wx rd (if r then 1 else 0) s)))
        else if f5 = 0x18 then
          (case rmode f3 s of
             None \<Rightarrow> rv_illegal s
           | Some rm \<Rightarrow>
              (if r2 > 3 \<or> (r2 > 1 \<and> \<not> rv64) then rv_illegal s
               else (let (r, fl) = ieee_to_int d a (if r2 > 1 then 64 else 32) (r2 AND 1 \<noteq> 0) rm
                     in fp_flags fl (rv_wx rd (if r2 > 1 then r else sext32 r) s))))
        else if f5 = 0x1a then
          (case rmode f3 s of
             None \<Rightarrow> rv_illegal s
           | Some rm \<Rightarrow>
              (if r2 > 3 \<or> (r2 > 1 \<and> \<not> rv64) then rv_illegal s
               else fp_result d rd
                 (ieee_from_int d (rs_x s r1) (if r2 > 1 then 64 else 32) (r2 AND 1 \<noteq> 0) rm) s))
        else if f5 = 0x1c then
          (if r2 \<noteq> 0 \<or> f3 > 1 \<or> (f3 = 0 \<and> d \<and> \<not> rv64) then rv_illegal s
           else if f3 = 1 then rv_wx rd (ieee_class d a) s
           else rv_wx rd (if d then rs_f s r1 else sext32 (rs_f s r1)) s)
        else if f5 = 0x1e then
          (if r2 \<noteq> 0 \<or> f3 \<noteq> 0 \<or> (d \<and> \<not> rv64) then rv_illegal s else wr_f d rd (rs_x s r1) s)
        else rv_illegal s)"

text \<open>\<open>None\<close> when the opcode is not a floating-point one.\<close>

definition rv_fp_exec :: "'d rv_env \<Rightarrow> u32 \<Rightarrow> 'd rv_state \<Rightarrow> 'd rv_state option" where
  "rv_fp_exec E i s =
    (let op = i AND 0x7f; rd = unat (drop_bit 7 i AND 31); f3 = drop_bit 12 i AND 7;
         r1 = unat (drop_bit 15 i AND 31); r2 = unat (drop_bit 20 i AND 31);
         fmt = drop_bit 25 i AND 3; d = (fmt = 1)
     in if op \<noteq> 0x07 \<and> op \<noteq> 0x27 \<and> op \<noteq> 0x43 \<and> op \<noteq> 0x47 \<and> op \<noteq> 0x4b \<and> op \<noteq> 0x4f \<and> op \<noteq> 0x53 then None
        else if rs_mstatus s AND MSTATUS_FS = 0 then Some (rv_illegal s)
        else if op = 0x07 \<or> op = 0x27 then Some (fp_mem E i s)
        else if fmt > 1 then Some (rv_illegal s)
        else if op \<noteq> 0x53 then
          (case rmode f3 s of
             None \<Rightarrow> Some (rv_illegal s)
           | Some rm \<Rightarrow>
               Some (fp_result d rd
                 (ieee_fma d (rd_f d r1 s) (rd_f d r2 s) (rd_f d (unat (drop_bit 27 i)) s)
                   (op = 0x4b \<or> op = 0x4f) (op = 0x47 \<or> op = 0x4f) rm) s))
        else Some (fp_op E i s))"

end
