(* ===== verification/Rv_Exec.thy ===== *)
theory Rv_Exec
  imports Rv_Fpu "HOL-Library.Signed_Division"
begin

text \<open>
  The instructions of the RISC-V core: the base set with M and A
  (\<^verbatim>\<open>tools/embsim/riscv.c\<close>): the integer instructions, the system
  instructions with the waiting for events they need, and the dispatch.
\<close>

section \<open>Integer instructions\<close>

definition jump :: "u64 \<Rightarrow> 'd rv_state \<Rightarrow> 'd rv_state" where
  "jump t s = s\<lparr>rs_npc := rv_xl s t\<rparr>"

definition mulhu64 :: "u64 \<Rightarrow> u64 \<Rightarrow> u64" where
  "mulhu64 a b =
    (let al = ucast (ucast a :: u32); ah = drop_bit 32 a; bl = ucast (ucast b :: u32); bh = drop_bit 32 b;
         ll = al * bl; lh = al * bh; hl = ah * bl; hh = ah * bh;
         mid = drop_bit 32 ll + ucast (ucast lh :: u32) + ucast (ucast hl :: u32)
     in hh + drop_bit 32 lh + drop_bit 32 hl + drop_bit 32 mid)"

definition mulh :: "nat \<Rightarrow> u32 \<Rightarrow> u64 \<Rightarrow> u64 \<Rightarrow> u64" where
  "mulh xlen f3 a b =
    (if xlen = 32 then
       (let sa = sext32 a; sb = sext32 b; ua = zext32 a; ub = zext32 b
        in if f3 = 1 then signed_drop_bit 32 (sa * sb)
           else if f3 = 2 then signed_drop_bit 32 (sa * ub)
           else drop_bit 32 (ua * ub))
     else
       (let h0 = mulhu64 a b;
            h1 = (if (f3 = 1 \<or> f3 = 2) \<and> a <s 0 then h0 - b else h0)
        in if f3 = 1 \<and> b <s 0 then h1 - a else h1))"

definition divrem :: "u32 \<Rightarrow> u64 \<Rightarrow> u64 \<Rightarrow> nat \<Rightarrow> u64" where
  "divrem f3 a b w =
    (let m = (if w = 32 then 0xffffffff else NOT 0);
         sa = (if w = 32 then sext32 a else a);
         sb = (if w = 32 then sext32 b else b);
         ua = a AND m; ub = b AND m;
         smin = (if w = 32 then - (2 ^ 31) else - (2 ^ 63) :: u64)
     in if f3 = 4 then
          (if sb = 0 then NOT 0 else if sa = smin \<and> sb = - 1 then sa
           else word_of_int (sint sa sdiv sint sb))
        else if f3 = 5 then (if ub \<noteq> 0 then ua div ub else NOT 0)
        else if f3 = 6 then
          (if sb = 0 then sa else if sa = smin \<and> sb = - 1 then 0
           else word_of_int (sint sa smod sint sb))
        else (if ub \<noteq> 0 then ua mod ub else sa))"

definition op_imm :: "u32 \<Rightarrow> nat \<Rightarrow> u32 \<Rightarrow> u64 \<Rightarrow> u64 \<Rightarrow> 'd rv_state \<Rightarrow> 'd rv_state" where
  "op_imm i rd f3 a imm s =
    (let sh = (if rs_xlen s = 64 then 63 else 31) :: u32;
         shamt = unat (drop_bit 20 i AND sh);
         top = (if rs_xlen s = 64 then drop_bit 26 i else drop_bit 25 i)
     in if f3 = 0 then rv_wx rd (a + imm) s
        else if f3 = 2 then rv_wx rd (if rv_sx s a <s imm then 1 else 0) s
        else if f3 = 3 then rv_wx rd (if rv_xl s a < rv_xl s imm then 1 else 0) s
        else if f3 = 4 then rv_wx rd (a XOR imm) s
        else if f3 = 6 then rv_wx rd (a OR imm) s
        else if f3 = 7 then rv_wx rd (a AND imm) s
        else if f3 = 1 then (if top \<noteq> 0 then rv_illegal s else rv_wx rd (push_bit shamt a) s)
        else
          (if top AND NOT (if rs_xlen s = 64 then 0x10 else 0x20) \<noteq> 0 then rv_illegal s
           else if i AND push_bit 30 1 \<noteq> 0 then rv_wx rd (signed_drop_bit shamt (rv_sx s a)) s
           else rv_wx rd (drop_bit shamt (rv_xl s a)) s))"

definition op_reg :: "nat \<Rightarrow> u32 \<Rightarrow> u32 \<Rightarrow> u64 \<Rightarrow> u64 \<Rightarrow> 'd rv_state \<Rightarrow> 'd rv_state" where
  "op_reg rd f3 f7 a b s =
    (let sh = (if rs_xlen s = 64 then 63 else 31) :: u64; n = unat (b AND sh)
     in if f7 = 1 then
          (if f3 = 0 then rv_wx rd (a * b) s
           else if f3 < 4 then rv_wx rd (mulh (rs_xlen s) f3 a b) s
           else rv_wx rd (divrem f3 a b (rs_xlen s)) s)
        else if f7 = 0x20 \<and> f3 \<noteq> 0 \<and> f3 \<noteq> 5 then rv_illegal s
        else if f7 \<noteq> 0 \<and> f7 \<noteq> 0x20 then rv_illegal s
        else if f3 = 0 then rv_wx rd (if f7 \<noteq> 0 then a - b else a + b) s
        else if f3 = 1 then rv_wx rd (push_bit n a) s
        else if f3 = 2 then rv_wx rd (if rv_sx s a <s rv_sx s b then 1 else 0) s
        else if f3 = 3 then rv_wx rd (if a < b then 1 else 0) s
        else if f3 = 4 then rv_wx rd (a XOR b) s
        else if f3 = 5 then
          (if f7 \<noteq> 0 then rv_wx rd (signed_drop_bit n (rv_sx s a)) s else rv_wx rd (drop_bit n a) s)
        else if f3 = 6 then rv_wx rd (a OR b) s
        else rv_wx rd (a AND b) s)"

text \<open>The arithmetic shift of a 32-bit value, sign-extended.\<close>

definition sraw :: "u64 \<Rightarrow> nat \<Rightarrow> u64" where
  "sraw a n = scast (signed_drop_bit n (ucast a :: u32))"

definition op_w :: "u32 \<Rightarrow> nat \<Rightarrow> u32 \<Rightarrow> u32 \<Rightarrow> u64 \<Rightarrow> u64 \<Rightarrow> bool \<Rightarrow> 'd rv_state \<Rightarrow> 'd rv_state" where
  "op_w i rd f3 f7 a b imm_form s =
    (if rs_xlen s \<noteq> 64 then rv_illegal s
     else if imm_form then
       (let shamt = unat (drop_bit 20 i AND 31); imm = scast (signed_drop_bit 20 i) :: u64
        in if f3 = 0 then rv_wx rd (sext32 (a + imm)) s
           else if f3 = 1 \<and> f7 = 0 then rv_wx rd (sext32 (ucast (push_bit shamt (ucast a :: u32)))) s
           else if f3 = 5 \<and> f7 = 0 then rv_wx rd (sext32 (ucast (drop_bit shamt (ucast a :: u32)))) s
           else if f3 = 5 \<and> f7 = 0x20 then rv_wx rd (sraw a shamt) s
           else rv_illegal s)
     else
       (let sh = unat ((ucast b :: u32) AND 31)
        in if f7 = 1 then
             (if f3 = 0 then rv_wx rd (sext32 (ucast ((ucast a :: u32) * ucast b))) s
              else if f3 \<ge> 4 then rv_wx rd (sext32 (divrem f3 a b 32)) s
              else rv_illegal s)
           else if f3 = 0 \<and> f7 = 0 then rv_wx rd (sext32 (a + b)) s
           else if f3 = 0 \<and> f7 = 0x20 then rv_wx rd (sext32 (a - b)) s
           else if f3 = 1 \<and> f7 = 0 then rv_wx rd (sext32 (ucast (push_bit sh (ucast a :: u32)))) s
           else if f3 = 5 \<and> f7 = 0 then rv_wx rd (sext32 (ucast (drop_bit sh (ucast a :: u32)))) s
           else if f3 = 5 \<and> f7 = 0x20 then rv_wx rd (sraw a sh) s
           else rv_illegal s))"

text \<open>An AMO's or SC's failing load is a store's fault.\<close>

definition store_fault :: "'d rv_state \<Rightarrow> 'd rv_state" where
  "store_fault s = (if rs_cause s = EXC_LOAD_ACCESS then s\<lparr>rs_cause := EXC_STORE_ACCESS\<rparr> else s)"

definition amo_value :: "u32 \<Rightarrow> nat \<Rightarrow> u64 \<Rightarrow> u64 \<Rightarrow> u64 option" where
  "amo_value f5 n old b =
    (let m = (if n = 4 then 0xffffffff else NOT 0);
         so = (if n = 4 then sext32 old else old);
         sb = (if n = 4 then sext32 b else b);
         uo = old AND m; ub = b AND m
     in if f5 = 0x01 then Some b
        else if f5 = 0x00 then Some (old + b)
        else if f5 = 0x04 then Some (old XOR b)
        else if f5 = 0x0c then Some (old AND b)
        else if f5 = 0x08 then Some (old OR b)
        else if f5 = 0x10 then Some (if so <s sb then old else b)
        else if f5 = 0x14 then Some (if sb <s so then old else b)
        else if f5 = 0x18 then Some (if uo < ub then old else b)
        else if f5 = 0x1c then Some (if ub < uo then old else b)
        else None)"

definition amo :: "'d rv_env \<Rightarrow> u32 \<Rightarrow> nat \<Rightarrow> u32 \<Rightarrow> u64 \<Rightarrow> u64 \<Rightarrow> 'd rv_state \<Rightarrow> 'd rv_state" where
  "amo E i rd f3 a b s =
    (let n = (if f3 = 2 then 4 else if f3 = 3 \<and> rs_xlen s = 64 then 8 else 0) :: nat;
         f5 = drop_bit 27 i;
         m = (if n = 4 then 0xffffffff else NOT 0) :: u64
     in if n = 0 then rv_illegal s
        else if f5 = 2 then
          (if drop_bit 20 i AND 31 \<noteq> 0 then rv_illegal s
           else if a AND of_nat (n - 1) \<noteq> 0 then rv_trap EXC_LOAD_ALIGN a s
           else
             (let (v, s1) = rv_load_sim E a n s
              in if rs_trap s1 then s1
                 else rv_wx rd (if n = 4 then sext32 v else v)
                        (s1\<lparr>rs_resv := True, rs_resv_addr := a, rs_resv_val := v\<rparr>)))
        else if a AND of_nat (n - 1) \<noteq> 0 then rv_trap EXC_STORE_ALIGN a s
        else if f5 = 3 then
          (if rs_resv s \<and> rs_resv_addr s = a then
             (let (cur, s1) = rv_load_sim E a n s
              in if rs_trap s1 then store_fault s1
                 else if cur = rs_resv_val s1 then
                   (let s2 = rv_store_sim E a n (b AND m) s1
                    in if rs_trap s2 then s2 else rv_wx rd 0 (s2\<lparr>rs_resv := False\<rparr>))
                 else rv_wx rd 1 (s1\<lparr>rs_resv := False\<rparr>))
           else if rs_trap s then s else rv_wx rd 1 (s\<lparr>rs_resv := False\<rparr>))
        else
          (let (old, s1) = rv_load_sim E a n s
           in if rs_trap s1 then store_fault s1
              else case amo_value f5 n old b of
                     None \<Rightarrow> rv_illegal s1
                   | Some nv \<Rightarrow>
                       (let s2 = rv_store_sim E a n (nv AND m) s1
                        in if rs_trap s2 then s2 else rv_wx rd (if n = 4 then sext32 old else old) s2)))"

section \<open>Events, semihosting and the system instructions\<close>

fun advance_all :: "'d rv_env \<Rightarrow> u32 \<Rightarrow> nat list \<Rightarrow> 'd rv_state \<Rightarrow> 'd rv_state" where
  "advance_all E cycles [] s = s"
| "advance_all E cycles (c # cs) s =
    advance_all E cycles cs (case dev_tick (env_bus E) c of Some h \<Rightarrow> h cycles s | None \<Rightarrow> s)"

definition sim_advance :: "'d rv_env \<Rightarrow> u32 \<Rightarrow> 'd rv_state \<Rightarrow> 'd rv_state" where
  "sim_advance E cycles s = advance_all E cycles (sim_tick s) s"

fun next_event_scan :: "'d rv_env \<Rightarrow> nat list \<Rightarrow> u32 option \<Rightarrow> 'd rv_state \<Rightarrow> u32 option" where
  "next_event_scan E [] best s = best"
| "next_event_scan E (c # cs) best s =
    next_event_scan E cs
      (case dev_next_event (env_bus E) c of
         None \<Rightarrow> best
       | Some h \<Rightarrow>
          (case h s of
             None \<Rightarrow> best
           | Some n \<Rightarrow> (case best of None \<Rightarrow> Some n | Some m \<Rightarrow> if n < m then Some n else Some m))) s"

definition sim_next_event :: "'d rv_env \<Rightarrow> 'd rv_state \<Rightarrow> u32 option" where
  "sim_next_event E s = next_event_scan E (sim_tick s) None s"

definition sim_end :: "run_state \<Rightarrow> 'd rv_state \<Rightarrow> 'd rv_state" where
  "sim_end st s = s\<lparr>sim_state := st\<rparr>"

definition sim_event_coming :: "'d rv_env \<Rightarrow> 'd rv_state \<Rightarrow> bool \<times> 'd rv_state" where
  "sim_event_coming E s =
    (if \<not> sim_ev_known s \<or> bus_touched s \<or> (sim_ev_any s \<and> sim_cycles s \<ge> sim_ev_at s) then
       (let e = sim_next_event E s;
            s1 = s\<lparr>sim_ev_any := (e \<noteq> None),
                   sim_ev_at := sim_cycles s + (case e of None \<Rightarrow> 0 | Some left \<Rightarrow> ucast left),
                   sim_ev_known := True, bus_touched := False\<rparr>
        in (sim_ev_any s1, s1))
     else (sim_ev_any s, s))"

definition wfi :: "'d rv_env \<Rightarrow> 'd rv_state \<Rightarrow> 'd rv_state" where
  "wfi E s =
    (if rs_priv s < PRV_M \<and> rs_mstatus s AND MSTATUS_TW \<noteq> 0 then rv_illegal s
     else if (case eic_pending E of Some p \<Rightarrow> p s \<noteq> 0 | None \<Rightarrow> False) then s
     else if rs_mie s AND rv_mip s \<noteq> 0 then s
     else
       (case (if rs_mie s \<noteq> 0 \<or> eic_pending E \<noteq> None then sim_next_event E s else None) of
          Some left \<Rightarrow>
            sim_advance E left (s\<lparr>sim_cycles := sim_cycles s + ucast left, rs_idle := rs_idle s + ucast left\<rparr>)
        | None \<Rightarrow> sim_end END_IDLE s))"

definition fetch16 :: "'d rv_env \<Rightarrow> u32 \<Rightarrow> 'd rv_state \<Rightarrow> u32 option \<times> 'd rv_state" where
  "fetch16 E a s =
    (case bus_region s a 2 of
       Some r \<Rightarrow>
         (let m = bus_buf s (rg_mem r); p = a - rg_base r
          in (Some (ucast (m p) OR push_bit 8 (ucast (m (p + 1)))), s))
     | None \<Rightarrow> bus_read (env_bus E) a 2 s)"

definition word_at :: "'d rv_env \<Rightarrow> u32 \<Rightarrow> 'd rv_state \<Rightarrow> u32 \<times> 'd rv_state" where
  "word_at E a s =
    (case fetch16 E a s of
       (None, s1) \<Rightarrow> (0, s1)
     | (Some lo, s1) \<Rightarrow>
        (case fetch16 E (a + 2) s1 of
           (None, s2) \<Rightarrow> (0, s2)
         | (Some hi, s2) \<Rightarrow> (lo OR push_bit 16 hi, s2)))"

definition rv_semihost :: "'d rv_env \<Rightarrow> 'd rv_state \<Rightarrow> bool \<times> 'd rv_state" where
  "rv_semihost E s =
    (let pc = ucast (rs_pc s) :: u32
     in if \<not> sim_semihosting s \<or> rs_xlen s \<noteq> 32 then (False, s)
        else
          (let (w0, s1) = word_at E (pc - 4) s
           in if w0 \<noteq> 0x01f01013 then (False, s1)
              else
                (let (w1, s2) = word_at E (pc + 4) s1
                 in if w1 \<noteq> 0x40705013 then (False, s2)
                    else
                      (let (r, s3) = env_semihost E (ucast (rs_x s2 10)) (ucast (rs_x s2 11)) s2
                       in (True, case r of
                             Some v \<Rightarrow> (if \<not> rs_trap s3 then s3\<lparr>rs_x := (rs_x s3)(10 := ucast v)\<rparr> else s3)
                           | None \<Rightarrow> s3)))))"

definition mret :: "'d rv_state \<Rightarrow> 'd rv_state" where
  "mret s =
    (if rs_priv s \<noteq> PRV_M then rv_illegal s
     else
       (let st0 = rs_mstatus s;
            mpp = unat (drop_bit 11 st0 AND 3);
            st1 = (st0 AND NOT MSTATUS_MIE) OR (if st0 AND MSTATUS_MPIE \<noteq> 0 then MSTATUS_MIE else 0);
            st2 = st1 OR MSTATUS_MPIE;
            st3 = st2 AND NOT MSTATUS_MPP;
            st4 = (if mpp \<noteq> PRV_M then st3 AND NOT MSTATUS_MPRV else st3)
        in jump (rs_mepc s) (s\<lparr>rs_mstatus := st4, rs_priv := mpp\<rparr>)))"

definition sys_insn :: "'d rv_env \<Rightarrow> u32 \<Rightarrow> u32 \<Rightarrow> 'd rv_state \<Rightarrow> 'd rv_state" where
  "sys_insn E i f3 s =
    (if f3 \<noteq> 0 then (if f3 = 4 then rv_illegal s else csr_insn i s)
     else if i = 0x00000073 then rv_trap (if rs_priv s = PRV_M then EXC_ECALL_M else EXC_ECALL_U) 0 s
     else if i = 0x00100073 then
       (let (h, s1) = rv_semihost E s in if h then s1 else rv_trap EXC_BREAKPOINT (rs_pc s1) s1)
     else if i = 0x30200073 then mret s
     else if i = 0x10500073 then wfi E s
     else rv_illegal s)"

section \<open>An instruction\<close>

definition jal_off :: "u32 \<Rightarrow> u64" where
  "jal_off i = scast (signed_drop_bit 11 (i AND 0x80000000)) OR ucast (i AND 0xff000) OR
    ucast (drop_bit 9 i AND 0x800) OR ucast (drop_bit 20 i AND 0x7fe)"

definition branch_off :: "u32 \<Rightarrow> u64" where
  "branch_off i = scast (signed_drop_bit 19 (i AND 0x80000000)) OR ucast (push_bit 4 i AND 0x800) OR
    ucast (drop_bit 20 i AND 0x7e0) OR ucast (drop_bit 7 i AND 0x1e)"

definition branch_taken :: "u32 \<Rightarrow> u64 \<Rightarrow> u64 \<Rightarrow> 'd rv_state \<Rightarrow> bool option" where
  "branch_taken f3 a b s =
    (if f3 = 0 then Some (a = b)
     else if f3 = 1 then Some (a \<noteq> b)
     else if f3 = 4 then Some (rv_sx s a <s rv_sx s b)
     else if f3 = 5 then Some (\<not> rv_sx s a <s rv_sx s b)
     else if f3 = 6 then Some (a < b)
     else if f3 = 7 then Some (a \<ge> b)
     else None)"

definition load_extend :: "u32 \<Rightarrow> nat \<Rightarrow> u64 \<Rightarrow> u64" where
  "load_extend f3 n v =
    (if f3 AND 4 = 0 \<and> n < 8 then
       (if n = 1 then scast (ucast v :: u8) else if n = 2 then scast (ucast v :: u16) else scast (ucast v :: u32))
     else v)"

definition exec32 :: "'d rv_env \<Rightarrow> u32 \<Rightarrow> 'd rv_state \<Rightarrow> 'd rv_state" where
  "exec32 E i s =
    (let op = i AND 0x7f; rd = unat (drop_bit 7 i AND 31); f3 = drop_bit 12 i AND 7;
         rs1 = unat (drop_bit 15 i AND 31); rs2 = unat (drop_bit 20 i AND 31); f7 = drop_bit 25 i;
         a = rs_x s rs1; b = rs_x s rs2;
         immi = scast (signed_drop_bit 20 i) :: u64
     in if op = 0x37 then rv_wx rd (scast (i AND 0xfffff000)) s
        else if op = 0x17 then rv_wx rd (rs_pc s + scast (i AND 0xfffff000)) s
        else if op = 0x6f then rv_wx rd (rs_npc s) (jump (rs_pc s + jal_off i) s)
        else if op = 0x67 then
          (if f3 \<noteq> 0 then rv_illegal s else rv_wx rd (rs_npc s) (jump ((a + immi) AND NOT 1) s))
        else if op = 0x63 then
          (case branch_taken f3 a b s of
             None \<Rightarrow> rv_illegal s
           | Some t \<Rightarrow> (if t then jump (rs_pc s + branch_off i) s else s))
        else if op = 0x03 then
          (let ad = rv_xl s (a + immi); n = 2 ^ unat (f3 AND 3)
           in if f3 = 7 \<or> (f3 = 3 \<and> rs_xlen s = 32) \<or> (f3 = 6 \<and> rs_xlen s = 32) then rv_illegal s
              else
                (let (v, s1) = rv_load_sim E ad n s
                 in if rs_trap s1 then s1 else rv_wx rd (load_extend f3 n v) s1))
        else if op = 0x23 then
          (let imm = (scast (push_bit 5 (signed_drop_bit 25 i)) OR ucast (drop_bit 7 i AND 31)) :: u64
           in if f3 > 3 \<or> (f3 = 3 \<and> rs_xlen s = 32) then rv_illegal s
              else rv_store_sim E (rv_xl s (a + imm)) (2 ^ unat f3) b s)
        else if op = 0x13 then op_imm i rd f3 a immi s
        else if op = 0x33 then op_reg rd f3 f7 a b s
        else if op = 0x1b then op_w i rd f3 f7 a b True s
        else if op = 0x3b then op_w i rd f3 f7 a b False s
        else if op = 0x0f then (if f3 > 1 then rv_illegal s else s)
        else if op = 0x73 then sys_insn E i f3 s
        else if op = 0x2f then (if rs_esp s then rv_illegal s else amo E i rd f3 a b s)
        else if rs_esp s then rv_illegal s
        else case rv_fp_exec E i s of None \<Rightarrow> rv_illegal s | Some s1 \<Rightarrow> s1)"

end
