(* ===== verification/Rv_Run.thy ===== *)
theory Rv_Run
  imports Rv_Exec Rvc_Expand
begin

text \<open>
  A step of the simulator's RISC-V core (the last part of \<^verbatim>\<open>tools/embsim/riscv.c\<close>), the
  cycle estimate it charges (\<^verbatim>\<open>src/arch/cost.h\<close>), the core's local interrupt controller
  (\<^verbatim>\<open>tools/embsim/clint.c\<close>) and the run (\<^verbatim>\<open>tools/embsim/run.c\<close>).
\<close>

section \<open>Cost\<close>

text \<open>The cycles of an instruction of \<open>n\<close> bytes and whether it may branch.\<close>

definition rv_cost16 :: "u32 \<Rightarrow> nat \<times> bool" where
  "rv_cost16 h =
    (let q = h AND 3; f3 = drop_bit 13 h
     in if q = 0 then (if f3 \<ge> 1 \<and> f3 \<le> 3 then 2 else 1, False)
        else if q = 1 then (1, f3 = 1 \<or> f3 = 5 \<or> f3 = 6 \<or> f3 = 7)
        else if f3 \<ge> 1 \<and> f3 \<le> 3 then (2, False)
        else (1, f3 = 4 \<and> drop_bit 2 h AND 0x1f = 0 \<and> drop_bit 7 h AND 0x1f \<noteq> 0))"

definition rv_cost32 :: "u32 \<Rightarrow> nat \<times> bool" where
  "rv_cost32 w =
    (let op = w AND 0x7f
     in if op = 0x03 \<or> op = 0x07 then (2, False)
        else if op = 0x63 \<or> op = 0x6f \<or> op = 0x67 then (1, True)
        else if (op = 0x33 \<or> op = 0x3b) \<and> drop_bit 25 w = 1 \<and> drop_bit 12 w AND 7 \<ge> 4 then (16, False)
        else if op = 0x53 \<and> (drop_bit 27 w = 0x03 \<or> drop_bit 27 w = 0x0b) then (16, False)
        else (1, False))"

definition rv_cost :: "u8 list \<Rightarrow> nat \<times> bool" where
  "rv_cost p =
    (let h = ucast (p ! 0) OR push_bit 8 (ucast (p ! 1))
     in if length p = 2 then rv_cost16 h
        else rv_cost32 (h OR push_bit 16 (ucast (p ! 2)) OR push_bit 24 (ucast (p ! 3))))"

section \<open>A step\<close>

definition take_interrupt :: "'d rv_env \<Rightarrow> 'd rv_state \<Rightarrow> bool \<times> 'd rv_state" where
  "take_interrupt E s =
    (if rs_priv s = PRV_M \<and> rs_mstatus s AND MSTATUS_MIE = 0 then (False, s)
     else case eic_pending E of
       Some pending \<Rightarrow>
         (let id = pending s
          in if id = 0 then (False, s)
             else
               (let s1 = trap_enter (of_nat id) 0 True s
                in (True, case eic_claim E of Some claim \<Rightarrow> claim id s1 | None \<Rightarrow> s1)))
     | None \<Rightarrow>
         (let p = rs_mie s AND rv_mip s
          in if p = 0 then (False, s)
             else
               (let n = (if p AND push_bit 11 1 \<noteq> 0 then 11 else if p AND MIP_MSIP \<noteq> 0 then IRQ_MSI else IRQ_MTI)
                in (True, trap_enter (of_nat n) 0 True s))))"

text \<open>The two halfwords at the pc: \<open>None\<close> when there is nothing to fetch.\<close>

definition fetch_insn :: "'d rv_env \<Rightarrow> 'd rv_state \<Rightarrow> (u32 \<times> u32) option \<times> 'd rv_state" where
  "fetch_insn E s =
    (let pc = ucast (rs_pc s) :: u32
     in if drop_bit 32 (rs_pc s) \<noteq> 0 then (None, s)
        else case fetch16 E pc s of
          (None, s1) \<Rightarrow> (None, s1)
        | (Some h0, s1) \<Rightarrow>
            (if h0 AND 3 = 3 then
               (case fetch16 E (pc + 2) s1 of
                  (None, s2) \<Rightarrow> (None, s2)
                | (Some h1, s2) \<Rightarrow> (Some (h0, h1), s2))
             else (Some (h0, 0), s1)))"

definition insn_bytes :: "u32 \<Rightarrow> u32 \<Rightarrow> u8 list" where
  "insn_bytes h0 h1 =
    take (if h0 AND 3 = 3 then 4 else 2) [ucast h0, ucast (drop_bit 8 h0), ucast h1, ucast (drop_bit 8 h1)]"

text \<open>Counting the instruction, running it, and what follows it.\<close>

definition step_begin :: "u32 \<Rightarrow> nat \<Rightarrow> nat \<Rightarrow> 'd rv_state \<Rightarrow> 'd rv_state" where
  "step_begin insn len cost s =
    s\<lparr>rs_cyc_now := sim_cycles s, rs_insn_now := sim_insns s,
      sim_insns := sim_insns s + 1, sim_cycles := sim_cycles s + of_nat cost,
      rs_npc := rv_xl s (rs_pc s + of_nat len), rs_trap := False, rs_changed := False, rs_insn := insn\<rparr>"

definition exec_insn :: "'d rv_env \<Rightarrow> u32 \<Rightarrow> nat \<Rightarrow> 'd rv_state \<Rightarrow> 'd rv_state" where
  "exec_insn E insn len s =
    (if len = 4 then exec32 E insn s
     else (let x = rvc_expand insn (rs_xlen s) in if x \<noteq> 0 then exec32 E x s else rv_illegal s))"

definition step_end :: "'d rv_env \<Rightarrow> nat \<Rightarrow> nat \<Rightarrow> bool \<Rightarrow> 'd rv_state \<Rightarrow> 'd rv_state" where
  "step_end E len cost0 br s0 =
    (let taken = (br \<and> rs_npc s0 \<noteq> rs_pc s0 + of_nat len);
         s1 = (if taken then s0\<lparr>sim_cycles := sim_cycles s0 + 2\<rparr> else s0);
         cost = (if taken \<and> rs_esp s0 then cost0 + 2 else cost0);
         s2 = (if sim_counting s1 \<noteq> 0 then sim_advance E (of_nat cost) s1 else s1)
     in if rs_npc s2 = rs_pc s2 \<and> \<not> rs_changed s2 \<and> sim_state s2 = RUN then
          (let on = (rs_priv s2 < PRV_M \<or> rs_mstatus s2 AND MSTATUS_MIE \<noteq> 0);
               src = (rs_mie s2 \<noteq> 0 \<or> eic_pending E \<noteq> None);
               now = (rs_mie s2 AND rv_mip s2 \<noteq> 0 \<or>
                      (case eic_pending E of Some p \<Rightarrow> p s2 \<noteq> 0 | None \<Rightarrow> False))
           in if \<not> on \<or> \<not> src then sim_end END_IDLE s2
              else if now then s2\<lparr>rs_pc := rs_npc s2\<rparr>
              else
                (let (coming, s3) = sim_event_coming E s2
                 in if \<not> coming then sim_end END_IDLE s3 else s3\<lparr>rs_pc := rs_npc s3\<rparr>))
        else s2\<lparr>rs_pc := rs_npc s2\<rparr>)"

definition step_insn :: "'d rv_env \<Rightarrow> u32 \<Rightarrow> u32 \<Rightarrow> 'd rv_state \<Rightarrow> 'd rv_state" where
  "step_insn E h0 h1 s0 =
    (let len = (if h0 AND 3 = 3 then 4 else 2);
         (cost, br) = rv_cost (insn_bytes h0 h1);
         insn = (if len = 4 then h0 OR push_bit 16 h1 else h0);
         s = exec_insn E insn len (step_begin insn len cost s0)
     in if rs_trap s then
          (if rs_cause s = TRAP_WATCH
           then s\<lparr>sim_insns := sim_insns s - 1, sim_cycles := sim_cycles s - of_nat cost\<rparr>
           else trap_enter (rs_cause s) (rs_tval s) False s)
        else step_end E len cost br s)"

definition step :: "'d rv_env \<Rightarrow> 'd rv_state \<Rightarrow> 'd rv_state" where
  "step E s0 =
    (let (taken, s1) = (if rs_mie s0 \<noteq> 0 \<or> eic_pending E \<noteq> None then take_interrupt E s0 else (False, s0))
     in if taken then s1
        else case fetch_insn E s1 of
          (None, s) \<Rightarrow>
            (if rs_pc s = rs_mtvec s AND NOT 3 then sim_end END_LOCKUP s
             else trap_enter EXC_IFETCH_ACCESS (rs_pc s) False s)
        | (Some (h0, h1), s) \<Rightarrow> step_insn E h0 h1 s)"

section \<open>The CPU interface\<close>

text \<open>\<open>None\<close> is \<open>die\<close>: an image of the other width.\<close>

definition cpu_reset :: "'d rv_state \<Rightarrow> 'd rv_state option" where
  "cpu_reset k =
    (let mx = rs_model_xlen k; esp = rs_esp k
     in do {
       require (\<not> (mx \<noteq> 0 \<and> (mx = 64) \<noteq> sim_elf64 k));
       Some (k\<lparr>rs_xlen := (if mx \<noteq> 0 then mx else if sim_elf64 k then 64 else 32),
         rs_x := (\<lambda>_. 0), rs_pc := (if esp then sim_entry k else 0x1000), rs_npc := 0, rs_f := (\<lambda>_. 0),
         rs_fflags := 0, rs_frm := 0, rs_priv := PRV_M, rs_mstatus := 0, rs_mie := 0,
         rs_mtvec := (if esp then 1 else 0), rs_mepc := 0, rs_mcause := 0, rs_mtval := 0, rs_mscratch := 0,
         rs_medeleg := 0, rs_mideleg := 0, rs_mcounteren := 0, rs_mcountinhibit := 0, rs_menvcfg := 0,
         rs_pmpcfg := (\<lambda>_. 0), rs_pmpaddr := (\<lambda>_. 0), rs_mcycle_off := 0, rs_minstret_off := 0,
         rs_cyc_now := 0, rs_insn_now := 0, rs_resv := False, rs_resv_addr := 0, rs_resv_val := 0,
         rs_trap := False, rs_cause := 0, rs_tval := 0, rs_insn := 0, rs_changed := False,
         rs_msip := 0, rs_mtimecmp := 0, rs_mtime_off := 0, rs_mpcer := 0,
         rs_mpcmr := (if esp then 3 else 0), rs_mpccr := 0, rs_mpc_cyc := 0, rs_mpc_ins := 0, rs_mpc_idle := 0,
         rs_idle := 0, rs_tselect := 0, rs_tdata1 := (\<lambda>_. 0), rs_tdata2 := (\<lambda>_. 0), rs_tcontrol := 0,
         rs_gpio_oen := 0, rs_gpio_out := 0\<rparr>) })"

definition cpu_pc :: "'d rv_state \<Rightarrow> u32" where
  "cpu_pc s = ucast (rs_pc s)"

definition cpu_interrupt :: "nat \<Rightarrow> 'd rv_state \<Rightarrow> 'd rv_state" where
  "cpu_interrupt n s = (if n = IRQ_MSI then s\<lparr>rs_msip := 1\<rparr> else s)"

text \<open>The registers as a debugger numbers them; a value's bytes are little-endian.\<close>

abbreviation (input) GR_PC :: nat where "GR_PC \<equiv> 32"
abbreviation (input) GR_F0 :: nat where "GR_F0 \<equiv> 33"
abbreviation (input) GR_PRIV :: nat where "GR_PRIV \<equiv> 65"
abbreviation (input) GR_CSR :: nat where "GR_CSR \<equiv> 66"

definition put :: "u64 \<Rightarrow> nat \<Rightarrow> u8 list" where
  "put v n = map (\<lambda>i. ucast (drop_bit (8 * i) v)) [0..<n]"

definition get :: "u8 list \<Rightarrow> nat \<Rightarrow> u64" where
  "get b n = fold (\<lambda>i v. push_bit 8 v OR ucast (b ! i)) (rev [0..<n]) 0"

text \<open>An empty result is a register the core does not have.\<close>

definition cpu_reg_read :: "nat \<Rightarrow> 'd rv_state \<Rightarrow> u8 list" where
  "cpu_reg_read n s =
    (let w = rs_xlen s div 8
     in if n < 32 then put (rs_x s n) w
        else if n = GR_PC then put (rs_pc s) w
        else if n \<ge> GR_F0 \<and> n < GR_F0 + 32 then put (rs_f s (n - GR_F0)) 8
        else if n = GR_PRIV then put (of_nat (rs_priv s)) w
        else if n \<ge> GR_CSR \<and> n < GR_CSR + 4096 then
          (case csr_rd (of_nat (n - GR_CSR)) True s of Some v \<Rightarrow> put v w | None \<Rightarrow> [])
        else [])"

text \<open>The bytes written, 0 for a register the core does not have.\<close>

definition cpu_reg_write :: "nat \<Rightarrow> u8 list \<Rightarrow> 'd rv_state \<Rightarrow> nat \<times> 'd rv_state" where
  "cpu_reg_write n buf s =
    (let w = rs_xlen s div 8; v = get buf (if n \<ge> GR_F0 \<and> n < GR_F0 + 32 then 8 else w)
     in if n < 32 then (w, if n \<noteq> 0 then s\<lparr>rs_x := (rs_x s)(n := rv_xl s v)\<rparr> else s)
        else if n = GR_PC then (w, s\<lparr>rs_pc := rv_xl s v AND NOT 1\<rparr>)
        else if n \<ge> GR_F0 \<and> n < GR_F0 + 32 then (8, s\<lparr>rs_f := (rs_f s)(n - GR_F0 := v)\<rparr>)
        else if n = GR_PRIV then (w, s\<lparr>rs_priv := (if v = of_nat PRV_U then PRV_U else PRV_M)\<rparr>)
        else if n \<ge> GR_CSR \<and> n < GR_CSR + 4096 then
          (let csr = of_nat (n - GR_CSR) :: u32
           in case csr_rd csr True s of
                None \<Rightarrow> (0, s)
              | Some _ \<Rightarrow>
                  (let s1 = csr_wr csr v s
                   in (w, if csr \<le> 3 then s1\<lparr>rs_mstatus := rs_mstatus s\<rparr> else s1)))
        else (0, s))"

section \<open>The CLINT\<close>

definition half :: "u64 \<Rightarrow> u32 \<Rightarrow> u32" where
  "half v off = (if off AND 4 \<noteq> 0 then ucast (drop_bit 32 v) else ucast v)"

definition set_half :: "u64 \<Rightarrow> u32 \<Rightarrow> u32 \<Rightarrow> u64" where
  "set_half old off v =
    (if off AND 4 \<noteq> 0 then (old AND 0xffffffff) OR push_bit 32 (ucast v)
     else (old AND NOT 0xffffffff) OR ucast v)"

definition clint_read :: "u32 \<Rightarrow> nat \<Rightarrow> 'd rv_state \<Rightarrow> u32 \<times> 'd rv_state" where
  "clint_read off n s =
    (let v = (if off < 4 then rs_msip s
              else if off \<ge> 0x4000 \<and> off < 0x4008 then half (rs_mtimecmp s) off
              else if off \<ge> 0xbff8 \<and> off < 0xc000 then half (rv_mtime s) off
              else 0)
     in (drop_bit (8 * unat (off AND 3)) v, s))"

definition clint_write :: "u32 \<Rightarrow> nat \<Rightarrow> u32 \<Rightarrow> 'd rv_state \<Rightarrow> 'd rv_state" where
  "clint_write off n v0 s =
    (let sh = 8 * unat (off AND 3);
         m = (if n = 4 then 0xffffffff else push_bit sh (push_bit (8 * n) 1 - 1));
         v = push_bit sh v0
     in if off < 4 then s\<lparr>rs_msip := (rs_msip s AND NOT m) OR (v AND m AND 1)\<rparr>
        else if off \<ge> 0x4000 \<and> off < 0x4008 then
          (let old = half (rs_mtimecmp s) off
           in s\<lparr>rs_mtimecmp := set_half (rs_mtimecmp s) off ((old AND NOT m) OR (v AND m))\<rparr>)
        else if off \<ge> 0xbff8 \<and> off < 0xc000 then
          (let t = rv_mtime s; old = half t off; nt = set_half t off ((old AND NOT m) OR (v AND m))
           in s\<lparr>rs_mtime_off := rs_mtime_off s + (nt - t)\<rparr>)
        else s)"

definition clint_next :: "'d rv_state \<Rightarrow> u32 option" where
  "clint_next s =
    (if rs_msip s AND 1 \<noteq> 0 then Some 0
     else if rs_mie s AND MIP_MTIP \<noteq> 0 then
       (let t = rv_mtime s; left = (if rs_mtimecmp s > t then rs_mtimecmp s - t else 0)
        in Some (if left > 0xffffffff then 0xffffffff else ucast left))
     else None)"

section \<open>The run\<close>

text \<open>A byte of output.  \<open>None\<close> is a read beyond the end of the string to stop at.\<close>

definition until_byte :: "u8 list \<Rightarrow> nat \<Rightarrow> u8 option" where
  "until_byte u k = (if k < length u then Some (u ! k) else if k = length u then Some 0 else None)"

definition sim_out :: "u8 \<Rightarrow> 'd rv_state \<Rightarrow> 'd rv_state option" where
  "sim_out c s0 =
    (let s = s0\<lparr>sim_output := sim_output s0 @ [c]\<rparr>
     in case sim_until s of
          None \<Rightarrow> Some s
        | Some u \<Rightarrow> do {
            b \<leftarrow> until_byte u (sim_until_at s);
            b0 \<leftarrow> until_byte u 0;
            let at = (if b = c then sim_until_at s + 1 else of_bool (b0 = c));
            let s1 = s\<lparr>sim_until_at := at\<rparr>;
            Some (if at = length u \<and> sim_state s1 = RUN then sim_end END_UNTIL s1 else s1) })"

definition sim_clock :: "bool \<Rightarrow> bool \<Rightarrow> 'd rv_state \<Rightarrow> bool \<times> 'd rv_state" where
  "sim_clock running on s =
    (on, if running \<noteq> on
         then s\<lparr>sim_counting := sim_counting s + (if on then 1 else - 1), bus_touched := True\<rparr> else s)"

definition SIM_TICKERS :: nat where "SIM_TICKERS = 8"

definition sim_add_dev :: "'d rv_env \<Rightarrow> u32 \<Rightarrow> u32 \<Rightarrow> nat \<Rightarrow> 'd rv_state \<Rightarrow> 'd rv_state option" where
  "sim_add_dev E base sz ctx s = do {
     s1 \<leftarrow> bus_add_device base sz ctx s;
     (if dev_tick (env_bus E) ctx \<noteq> None \<or> dev_next_event (env_bus E) ctx \<noteq> None then do {
        require (length (sim_tick s1) \<noteq> SIM_TICKERS);
        Some (s1\<lparr>sim_tick := sim_tick s1 @ [ctx]\<rparr>) }
      else Some s1) }"

text \<open>Reset without reloading the image.\<close>

fun reset_devices :: "'d rv_env \<Rightarrow> device list \<Rightarrow> 'd rv_state \<Rightarrow> 'd rv_state" where
  "reset_devices E [] s = s"
| "reset_devices E (d # ds) s =
    reset_devices E ds (case dev_reset (env_bus E) (dev_ctx d) of Some h \<Rightarrow> h s | None \<Rightarrow> s)"

definition sim_reset :: "'d rv_env \<Rightarrow> 'd rv_state \<Rightarrow> 'd rv_state option" where
  "sim_reset E s =
    cpu_reset ((reset_devices E (bus_dev s) s)\<lparr>sim_insns := 0, sim_cycles := 0, sim_counting := 0,
      sim_ev_known := False, sim_state := RUN, sim_exit_status := 0, sim_until_at := 0, bus_watch_hit := False\<rparr>)"

definition budget_check :: "'d rv_state \<Rightarrow> 'd rv_state" where
  "budget_check s =
    (if sim_max_insns s \<noteq> 0 \<and> sim_insns s \<ge> sim_max_insns s \<and> sim_state s = RUN then sim_end END_BUDGET s else s)"

definition sim_step :: "'d rv_env \<Rightarrow> 'd rv_state \<Rightarrow> 'd rv_state" where
  "sim_step E s = budget_check (step E s)"

text \<open>The loop of \<open>sim_run\<close>: \<open>None\<close> is a run that does not end.\<close>

partial_function (option) sim_run :: "'d rv_env \<Rightarrow> 'd rv_state \<Rightarrow> 'd rv_state option" where
  "sim_run E s = (if sim_state s = RUN then sim_run E (budget_check (step E s)) else Some s)"

end
