(* ===== verification/Rv_Compress.thy ===== *)
theory Rv_Compress
  imports Rv_Expand Rv_Run
begin

text \<open>
  The compressor of the RISC-V emitter against the simulator's core: what
  \<open>rv_compress\<close> shortens runs as the 32-bit instruction it stands for, so code emitted
  with compression on does what it does with compression off.
\<close>

section \<open>Running the instructions the compressor rewrites\<close>

lemma enc_r_fields:
  "enc_r (take_bit 7 op) (take_bit 5 rd) (take_bit 3 f3) (take_bit 5 rs1) (take_bit 5 rs2) (take_bit 7 f7) AND 0x7f = take_bit 7 op"
  "drop_bit 7 (enc_r (take_bit 7 op) (take_bit 5 rd) (take_bit 3 f3) (take_bit 5 rs1) (take_bit 5 rs2) (take_bit 7 f7)) AND 31 = take_bit 5 rd"
  "drop_bit 12 (enc_r (take_bit 7 op) (take_bit 5 rd) (take_bit 3 f3) (take_bit 5 rs1) (take_bit 5 rs2) (take_bit 7 f7)) AND 7 = take_bit 3 f3"
  "drop_bit 15 (enc_r (take_bit 7 op) (take_bit 5 rd) (take_bit 3 f3) (take_bit 5 rs1) (take_bit 5 rs2) (take_bit 7 f7)) AND 31 = take_bit 5 rs1"
  "drop_bit 20 (enc_r (take_bit 7 op) (take_bit 5 rd) (take_bit 3 f3) (take_bit 5 rs1) (take_bit 5 rs2) (take_bit 7 f7)) AND 31 = take_bit 5 rs2"
  "drop_bit 25 (enc_r (take_bit 7 op) (take_bit 5 rd) (take_bit 3 f3) (take_bit 5 rs1) (take_bit 5 rs2) (take_bit 7 f7)) = take_bit 7 f7"
  by (simp_all only: enc_r_def word32_bits bit_or_iff bit_and_iff bit_push32 bit_drop_bit_eq o_def bit_take_bit_iff)
    (simp_all add: bit_numeral_rec)

lemma enc_i_fields:
  "enc_i (take_bit 7 op) (take_bit 5 rd) (take_bit 3 f3) (take_bit 5 rs1) imm AND 0x7f = take_bit 7 op"
  "drop_bit 7 (enc_i (take_bit 7 op) (take_bit 5 rd) (take_bit 3 f3) (take_bit 5 rs1) imm) AND 31 = take_bit 5 rd"
  "drop_bit 12 (enc_i (take_bit 7 op) (take_bit 5 rd) (take_bit 3 f3) (take_bit 5 rs1) imm) AND 7 = take_bit 3 f3"
  "drop_bit 15 (enc_i (take_bit 7 op) (take_bit 5 rd) (take_bit 3 f3) (take_bit 5 rs1) imm) AND 31 = take_bit 5 rs1"
  "signed_drop_bit 20 (enc_i (take_bit 7 op) (take_bit 5 rd) (take_bit 3 f3) (take_bit 5 rs1) imm) = sign_from 20 imm"
  by (simp_all only: enc_i_def word32_bits bit_or_iff bit_and_iff bit_push32 bit_drop_bit_eq o_def bit_take_bit_iff
      bit_signed_drop_bit_iff)
    (simp_all add: bit_numeral_rec bit_sign_from)

lemma and_31_eq: "x AND 31 = take_bit 5 (x :: u32)"
  by (simp add: take_bit_eq_mask mask_eq_exp_minus_1)

lemma exec_add:
  assumes "i AND 0x7f = 0x33" "drop_bit 12 i AND 7 = 0" "drop_bit 25 i = 0"
  shows "exec32 E i s = rv_wx (unat (drop_bit 7 i AND 31))
    (rs_x s (unat (drop_bit 15 i AND 31)) + rs_x s (unat (drop_bit 20 i AND 31))) s"
  using assms by (simp add: exec32_def op_reg_def Let_def)

lemma exec_addi:
  assumes "i AND 0x7f = 0x13" "drop_bit 12 i AND 7 = 0"
  shows "exec32 E i s = rv_wx (unat (drop_bit 7 i AND 31))
    (rs_x s (unat (drop_bit 15 i AND 31)) + scast (signed_drop_bit 20 i)) s"
  using assms by (simp add: exec32_def op_imm_def Let_def)

lemma exec_addiw:
  assumes "i AND 0x7f = 0x1b" "drop_bit 12 i AND 7 = 0" "rs_xlen s = 64"
  shows "exec32 E i s = rv_wx (unat (drop_bit 7 i AND 31))
    (sext32 (rs_x s (unat (drop_bit 15 i AND 31)) + scast (signed_drop_bit 20 i))) s"
  using assms by (simp add: exec32_def op_w_def Let_def)

text \<open>\<open>add rd, x0, rs\<close> moves \<open>rs\<close>.\<close>

lemma exec_mv:
  assumes "rs_x s 0 = 0"
  shows "exec32 E (enc_r 0x33 (drop_bit 7 i AND 31) 0 0 (drop_bit 15 i AND 31) 0) s =
    rv_wx (unat (drop_bit 7 i AND 31)) (rs_x s (unat (drop_bit 15 i AND 31))) s"
proof -
  note f = enc_r_fields [of "0x33" _ 0 0 _ 0, simplified]
  show ?thesis
    unfolding and_31_eq by (subst exec_add) (simp_all add: f f [unfolded and_31_eq] assms)
qed

section \<open>The compressor's cases\<close>

text \<open>A short form that is none, or that the core runs as the instruction \<open>i\<close>.\<close>

definition shortens :: "'d rv_env \<Rightarrow> 'd rv_state \<Rightarrow> u32 \<Rightarrow> u32 \<Rightarrow> bool" where
  "shortens E s i c \<longleftrightarrow> c = 0 \<or> take_bit 16 c = c \<and> rvc_expand c (rs_xlen s) \<noteq> 0 \<and>
    exec32 E (rvc_expand c (rs_xlen s)) s = exec32 E i s"

lemma shortens_0: "shortens E s i 0"
  by (simp add: shortens_def)

lemma shortens_if:
  "(P \<Longrightarrow> shortens E s i a) \<Longrightarrow> (\<not> P \<Longrightarrow> shortens E s i b) \<Longrightarrow> shortens E s i (if P then a else b)"
  by simp

lemma shortens_expands: "bit i 0 \<Longrightarrow> expands c (rs_xlen s) i \<Longrightarrow> shortens E s i c"
  by (auto simp: expands_def shortens_def)

lemma op_odd: "fld (ucast (i :: u32)) 0 0x7f = v \<Longrightarrow> bit v 0 \<Longrightarrow> bit i 0"
  by (simp only: op_bits(1))

lemma field_word:
  "fld (ucast (i :: u32)) 0 0x7f = uint (i AND 0x7f)" "fld (ucast i) 12 7 = uint (drop_bit 12 i AND 7)"
  "fld (ucast i) 25 0x7f = uint (drop_bit 25 i)" "fld (ucast i) n 0x1f = uint (drop_bit n i AND 31)"
  by (rule bit_eqI; auto simp: bit_fld bit_simps bit_masks dest: bit_imp_le_length)+

text \<open>\<open>addi rd, rs, 0\<close> and \<open>add rd, rs, x0\<close> become the short move.\<close>

lemma shortens_mv:
  assumes mv: "exec32 E i s = rv_wx (unat (drop_bit 7 i AND 31)) (rs_x s (unat (drop_bit 15 i AND 31))) s"
    and "fld (ucast i) 7 0x1f \<noteq> 0" "fld (ucast i) 15 0x1f \<noteq> 0" "rs_x s 0 = 0"
  shows "shortens E s i (0x8002 OR push_bit 2 (cu (fld (ucast i) 15 0x1f)) OR push_bit 7 (cu (fld (ucast i) 7 0x1f)))"
proof -
  have "bit (enc_r 0x33 rd 0 0 rs2 0) 0" for rd rs2
    by (simp add: enc_r_def bit_simps bit_numeral_rec)
  then have "enc_r 0x33 rd 0 0 rs2 0 \<noteq> 0" for rd rs2
    by (metis bit_0_eq bot_apply bot_bool_def)
  then show ?thesis
    using expand_mv [OF assms(2,3)] exec_mv [OF assms(4)] mv by (simp add: expands_def shortens_def)
qed

lemma immi_zero_word:
  assumes "immi_of (ucast (i :: u32)) = 0"
  shows "signed_drop_bit 20 i = 0"
  using immi_zero_bits [OF assms] by (simp add: word32_bits bit_signed_drop_bit_iff)

lemma shortens_op_imm:
  assumes op: "fld (ucast (i :: u32)) 0 0x7f = 0x13"
    and x: "rs_xlen s = 32 \<or> rs_xlen s = 64" "rs_x s 0 = 0"
    and sh: "rs_xlen s = 32 \<Longrightarrow> drop_bit 12 i AND 3 = 1 \<Longrightarrow> \<not> bit i 25"
  shows "shortens E s i (compress_op_imm (ucast i) (int (rs_xlen s)))"
proof -
  have b: "bit i 0" using op by (rule op_odd) simp
  have o: "i AND 0x7f = 0x13" using op by (simp add: field_word word_uint_eq_iff)
  have move: "exec32 E i s = rv_wx (unat (drop_bit 7 i AND 31)) (rs_x s (unat (drop_bit 15 i AND 31))) s"
    if "fld (ucast i) 12 7 = 0" "immi_of (ucast i) = 0"
    using that o by (subst exec_addi) (simp_all add: field_word word_uint_eq_iff immi_zero_word)
  have shift: "\<not> bit i 25" if "rs_xlen s = 32" "fld (ucast i) 12 7 = 1 \<or> fld (ucast i) 12 7 = 5"
    using that(2) f3_bits [of i 1] f3_bits [of i 5] by (intro sh that(1)) (auto simp: word32_bits bit_simps bit_numeral_rec)
  have nop: "shortens E s i 0x0001"
    if "fld (ucast i) 12 7 = 0" "fld (ucast i) 7 0x1f = 0" "fld (ucast i) 15 0x1f = 0" "immi_of (ucast i) = 0"
  proof -
    have "i = 0x13"
      using op_bits [OF op] f3_bits [OF that(1)] rd_bits [OF that(2)] rs1_bits [OF that(3)] immi_zero_bits [OF that(4)]
      by (simp add: word32_bits bit_numeral_rec)
    then show ?thesis
      by (simp add: shortens_def rvc_expand_def rvc_expand1_def rvc_ci_def hbit_def sign_from_def enc_i_def Let_def)
  qed
  have slli: "shortens E s i (shift_form 0x0002 (fld (ucast i) 20 (if int (rs_xlen s) = 64 then 0x3f else 0x1f)) (fld (ucast i) 7 0x1f))"
    if "fld (ucast i) 12 7 = 1" "fld (ucast i) 7 0x1f \<noteq> 0" "fld (ucast i) 15 0x1f = fld (ucast i) 7 0x1f" "fld (ucast i) 25 0x7f \<le> 1"
    using x(1) that shift by (auto intro!: shortens_expands [OF b] expand_slli64 expand_slli32 op)
  have sri: "shortens E s i (shift_form 0x8001 (fld (ucast i) 20 (if int (rs_xlen s) = 64 then 0x3f else 0x1f))
      (creg (fld (ucast i) 7 0x1f)) OR push_bit 10 (if fld (ucast i) 25 0x7f AND 0x20 \<noteq> 0 then 1 else 0))"
    if "fld (ucast i) 12 7 = 5" "0 \<le> creg (fld (ucast i) 7 0x1f)" "fld (ucast i) 15 0x1f = fld (ucast i) 7 0x1f"
      "fld (ucast i) 25 0x7f AND NOT 1 = 0 \<or> fld (ucast i) 25 0x7f AND NOT 1 = 0x20"
    using x(1) shortens_expands [OF b expand_sri64 [OF op that]] shortens_expands [OF b expand_sri32 [OF op that shift]] that(1)
    by auto
  show ?thesis
    unfolding compress_op_imm_def Let_def
    by (intro shortens_if shortens_0 nop slli sri shortens_mv [OF move] shortens_expands [OF b] expand_addi expand_li
        expand_addi16sp expand_addi4spn expand_andi; (elim conjE)?; (assumption | simp add: op x)?)
qed

text \<open>\<open>addiw rd, x0, imm\<close> becomes the short load of a constant, which adds in full width: the
  constant has six bits and needs no truncation.\<close>

lemma shortens_li_word:
  assumes "fld (ucast (i :: u32)) 0 0x7f = 0x1b" "fld (ucast i) 12 7 = 0" "fld (ucast i) 15 0x1f = 0"
    "- 32 \<le> immi_of (ucast i)" "immi_of (ucast i) < 32" "rs_xlen s = 64" "rs_x s 0 = 0"
  shows "shortens E s i (ci_form 0x4001 (immi_of (ucast i)) (fld (ucast i) 7 0x1f))"
proof -
  let ?j = "enc_i 0x13 (drop_bit 7 i AND 31) 0 0 (drop_bit 20 i)"
  note f = enc_i_fields [of "0x13" "drop_bit 7 i" 0 0 "drop_bit 20 i", simplified, folded and_31_eq]
  have r: "i AND 0x7f = 0x1b" "drop_bit 12 i AND 7 = 0" "drop_bit 15 i AND 31 = 0"
    using assms(1-3) by (simp_all add: field_word word_uint_eq_iff)
  have i: "sign_from 20 (drop_bit 20 i) = (signed_drop_bit 20 i :: u32)"
    by (simp add: word32_bits bit_signed_drop_bit_iff bit_sign_from bit_simps)
  have w: "sext32 (scast (signed_drop_bit 20 i :: u32)) = (scast (signed_drop_bit 20 i :: u32) :: u64)"
    unfolding sext32_def by (rule arg_cong [where f = scast], rule bit_word_eqI) (simp add: bit_simps)
  have "bit ?j 0"
    by (simp add: enc_i_def bit_simps bit_numeral_rec)
  then have "?j \<noteq> 0"
    by auto
  moreover have "exec32 E ?j s = exec32 E i s"
    using assms(6,7) by (subst exec_addi, simp_all add: f) (subst exec_addiw, simp_all add: f r i w)
  ultimately show ?thesis
    using expand_li_word [OF assms(3-5)] by (simp add: expands_def shortens_def)
qed

lemma shortens_op_imm32:
  assumes op: "fld (ucast (i :: u32)) 0 0x7f = 0x1b" and x: "rs_x s 0 = 0"
  shows "shortens E s i (compress_op_imm32 (ucast i) (int (rs_xlen s)))"
proof -
  have b: "bit i 0" using op by (rule op_odd) simp
  show ?thesis
    unfolding compress_op_imm32_def Let_def
    by (intro shortens_if shortens_0 shortens_li_word shortens_expands [OF b] expand_addiw; (elim conjE)?;
        (assumption | simp add: op x)?)
qed

lemma shortens_lui:
  assumes op: "fld (ucast (i :: u32)) 0 0x7f = 0x37"
  shows "shortens E s i (compress_lui (ucast i))"
proof -
  have b: "bit i 0" using op by (rule op_odd) simp
  show ?thesis
    unfolding compress_lui_def Let_def upper_of_def [unfolded Let_def, symmetric]
    by (intro shortens_if shortens_0 shortens_expands [OF b] expand_lui; (elim conjE)?; (assumption | simp add: op)?)
qed

lemma shortens_op:
  assumes op: "fld (ucast (i :: u32)) 0 0x7f = 0x33" and x: "rs_x s 0 = 0"
  shows "shortens E s i (compress_op (ucast i))"
proof -
  have b: "bit i 0" using op by (rule op_odd) simp
  have move: "exec32 E i s = rv_wx (unat (drop_bit 7 i AND 31)) (rs_x s (unat (drop_bit 15 i AND 31))) s"
    if "fld (ucast i) 12 7 = 0" "fld (ucast i) 25 0x7f = 0" "fld (ucast i) 20 0x1f = 0"
  proof -
    have "drop_bit 20 i AND 31 = 0"
      using that(3) by (simp add: field_word word_uint_eq_iff)
    then show ?thesis
      using that(1,2) op by (subst exec_add) (simp_all add: x, simp_all add: field_word word_uint_eq_iff)
  qed
  show ?thesis
    unfolding compress_op_def Let_def
    by (intro shortens_if shortens_0 shortens_mv [OF move] shortens_expands [OF b] expand_add_zero expand_add
        expand_sub expand_xor expand_or expand_and; (elim conjE)?; (assumption | simp add: op x)?)
qed

lemma shortens_op32:
  assumes op: "fld (ucast (i :: u32)) 0 0x7f = 0x3b"
  shows "shortens E s i (compress_op32 (ucast i) (int (rs_xlen s)))"
proof -
  have b: "bit i 0" using op by (rule op_odd) simp
  show ?thesis
    unfolding compress_op32_def Let_def
    by (intro shortens_if shortens_0 shortens_expands [OF b] expand_addw expand_subw; (elim conjE)?;
        (assumption | simp add: op)?)
qed

lemma shortens_load:
  assumes op: "fld (ucast (i :: u32)) 0 0x7f = 0x03"
  shows "shortens E s i (compress_load (ucast i) (int (rs_xlen s)))"
proof -
  have b: "bit i 0" using op by (rule op_odd) simp
  show ?thesis
    unfolding compress_load_def Let_def
    by (intro shortens_if shortens_0 shortens_expands [OF b] expand_lwsp expand_lw expand_ldsp expand_ld;
        (elim conjE)?; (assumption | simp add: op)?)
qed

lemma shortens_store:
  assumes op: "fld (ucast (i :: u32)) 0 0x7f = 0x23"
  shows "shortens E s i (compress_store (ucast i) (int (rs_xlen s)))"
proof -
  have b: "bit i 0" using op by (rule op_odd) simp
  show ?thesis
    unfolding compress_store_def Let_def
    by (intro shortens_if shortens_0 shortens_expands [OF b] expand_swsp expand_sw expand_sdsp expand_sd;
        (elim conjE)?; (assumption | simp add: op)?)
qed

lemma shortens_load_fp:
  assumes op: "fld (ucast (i :: u32)) 0 0x7f = 0x07"
  shows "shortens E s i (compress_load_fp (ucast i) (int (rs_xlen s)))"
proof -
  have b: "bit i 0" using op by (rule op_odd) simp
  show ?thesis
    unfolding compress_load_fp_def Let_def
    by (intro shortens_if shortens_0 shortens_expands [OF b] expand_fldsp expand_fld expand_flwsp expand_flw;
        (elim conjE)?; (assumption | simp add: op)?)
qed

lemma shortens_store_fp:
  assumes op: "fld (ucast (i :: u32)) 0 0x7f = 0x27"
  shows "shortens E s i (compress_store_fp (ucast i) (int (rs_xlen s)))"
proof -
  have b: "bit i 0" using op by (rule op_odd) simp
  show ?thesis
    unfolding compress_store_fp_def Let_def
    by (intro shortens_if shortens_0 shortens_expands [OF b] expand_fsdsp expand_fsd expand_fswsp expand_fsw;
        (elim conjE)?; (assumption | simp add: op)?)
qed

lemma shortens_jalr:
  assumes op: "fld (ucast (i :: u32)) 0 0x7f = 0x67"
  shows "shortens E s i (compress_jalr (ucast i))"
proof -
  have b: "bit i 0" using op by (rule op_odd) simp
  show ?thesis
    unfolding compress_jalr_def Let_def
    by (intro shortens_if shortens_0 shortens_expands [OF b] expand_jr expand_jalr; (elim conjE)?;
        (assumption | simp add: op)?)
qed

lemma shortens_system: "shortens E s i (compress_system (ucast (i :: u32)))"
proof -
  have "i = 0x00100073" if "(ucast i :: u64) = 0x00100073"
    using that by (simp add: word_uint_eq_iff uint_up_ucast is_up)
  moreover have "rvc_expand 0x9002 n = 0x00100073" for n
    by (simp add: rvc_expand_def rvc_expand2_def Let_def hbit_def)
  ultimately show ?thesis
    unfolding compress_system_def by (intro shortens_if shortens_0) (simp add: shortens_def)
qed

lemma shortens_base:
  assumes "rs_xlen s = 32 \<or> rs_xlen s = 64" "rs_x s 0 = 0"
    and "rs_xlen s = 32 \<Longrightarrow> drop_bit 12 i AND 3 = 1 \<Longrightarrow> i AND 0x7f = 0x13 \<Longrightarrow> \<not> bit i 25"
  shows "shortens E s i (compress_base (ucast i) (int (rs_xlen s)))"
  unfolding compress_base_def Let_def
  by (intro shortens_if shortens_0 shortens_op_imm shortens_op_imm32 shortens_lui shortens_op shortens_op32
      shortens_load shortens_store shortens_load_fp shortens_store_fp shortens_jalr shortens_system assms;
      simp add: field_word word_uint_eq_iff)

lemma expand_short: "rvc_expand c n \<noteq> 0 \<Longrightarrow> c AND 3 \<noteq> 3"
  by (auto simp: rvc_expand_def Let_def)

section \<open>Emitted instructions\<close>

text \<open>The bytes \<open>bs\<close> stand in the machine's memory at \<open>a\<close>, in the region \<open>r\<close>.\<close>

definition code_at :: "'d rv_state \<Rightarrow> region \<Rightarrow> u32 \<Rightarrow> u8 list \<Rightarrow> bool" where
  "code_at s r a bs \<longleftrightarrow>
    (\<forall>k < length bs. bus_buf s (rg_mem r) (a + of_nat k - rg_base r) = bs ! k \<and>
      (even k \<longrightarrow> bus_region s (a + of_nat k) 2 = Some r))"

text \<open>What an instruction adds to the code buffer.\<close>

definition emitted :: "u64 \<Rightarrow> emitter \<Rightarrow> u8 list" where
  "emitted w c = drop (length (code_p c)) (code_p (rv_w w c))"

lemma emitted_eq:
  "emitted w c =
    (let h = rv_compress (g_rv_ext c) w (g_rvc_xlen c)
     in if g_rvc c \<and> h \<noteq> 0 then [ucast (h AND 0xff), ucast (drop_bit 8 h AND 0xff)]
        else [ucast (w AND 0xff), ucast (drop_bit 8 w AND 0xff), ucast (drop_bit 16 w AND 0xff), ucast (drop_bit 24 w AND 0xff)])"
  by (simp add: emitted_def rv_w_def code_u16_def code_u32_def code_byte_def Let_def)

lemma fetch_code_at:
  assumes "code_at s r a bs" "Suc k < length bs" "even k"
  shows "fetch16 E (a + of_nat k) s = (Some (ucast (bs ! k) OR push_bit 8 (ucast (bs ! Suc k))), s)"
proof -
  have "bus_buf s (rg_mem r) (a + of_nat k - rg_base r) = bs ! k" "bus_region s (a + of_nat k) 2 = Some r"
    "bus_buf s (rg_mem r) (a + of_nat (Suc k) - rg_base r) = bs ! Suc k"
    using assms by (auto simp: code_at_def)
  then show ?thesis
    unfolding fetch16_def by (simp add: algebra_simps)
qed

lemma low_byte: "(ucast (v AND 0xff) :: u8) = ucast v"
proof -
  have m: "(0xff :: 'a :: len word) = mask 8"
    by (simp add: mask_eq_exp_minus_1)
  show ?thesis
    unfolding m by (rule bit_word_eqI) (auto simp: bit_simps dest: bit_imp_le_length)
qed

lemma byte_pair:
  "ucast (ucast (v AND 0xff) :: u8) OR push_bit 8 (ucast (ucast (drop_bit 8 v AND 0xff) :: u8)) =
    (take_bit 16 (ucast (v :: 'a :: len word)) :: u32)"
  unfolding low_byte by (rule bit_word_eqI) (auto simp: bit_simps dest: bit_imp_le_length)

lemma fetch_emitted:
  assumes "rs_pc s = ucast a" "code_at s r a (emitted (ucast i) c)" "i AND 3 = 3"
    and "\<And>h. h = rv_compress (g_rv_ext c) (ucast i) (g_rvc_xlen c) \<Longrightarrow> h \<noteq> 0 \<Longrightarrow> take_bit 16 h = h \<and> h AND 3 \<noteq> 3"
  shows "fetch_insn E s =
    (let h = rv_compress (g_rv_ext c) (ucast i) (g_rvc_xlen c)
     in (Some (if g_rvc c \<and> h \<noteq> 0 then (h, 0) else (take_bit 16 i, drop_bit 16 i)), s))"
proof -
  let ?h = "rv_compress (g_rv_ext c) (ucast i) (g_rvc_xlen c)" and ?bs = "emitted (ucast i) c"
  have pc: "drop_bit 32 (rs_pc s) = 0" "ucast (rs_pc s) = a"
    unfolding assms(1) by (rule bit_word_eqI; auto simp: bit_simps dest: bit_imp_le_length)+
  have f0: "fetch16 E a s = (Some (ucast (?bs ! 0) OR push_bit 8 (ucast (?bs ! 1))), s)" if "2 \<le> length ?bs"
    using fetch_code_at [OF assms(2), of 0 E] that by simp
  have f2: "fetch16 E (a + 2) s = (Some (ucast (?bs ! 2) OR push_bit 8 (ucast (?bs ! 3))), s)" if "4 \<le> length ?bs"
    using fetch_code_at [OF assms(2), of 2 E] that by simp
  show ?thesis
  proof (cases "g_rvc c \<and> ?h \<noteq> 0")
    case True
    then have "fetch16 E a s = (Some ?h, s)"
      using f0 assms(4) byte_pair [of ?h] by (simp add: emitted_eq Let_def)
    with True assms(4) show ?thesis
      by (simp add: fetch_insn_def pc)
  next
    case False
    let ?w = "ucast i :: u64"
    have bs: "?bs = [ucast (?w AND 0xff), ucast (drop_bit 8 ?w AND 0xff), ucast (drop_bit 16 ?w AND 0xff), ucast (drop_bit 24 ?w AND 0xff)]"
      using False by (auto simp: emitted_eq Let_def)
    have "take_bit 16 (ucast ?w :: u32) = take_bit 16 i" "take_bit 16 (ucast (drop_bit 16 ?w) :: u32) = drop_bit 16 i"
      by (rule bit_word_eqI; auto simp: bit_simps dest: bit_imp_le_length)+
    then have "fetch16 E a s = (Some (take_bit 16 i), s)" "fetch16 E (a + 2) s = (Some (drop_bit 16 i), s)"
      using f0 f2 byte_pair [of ?w] byte_pair [of "drop_bit 16 ?w"] unfolding bs by (simp_all add: drop_bit_drop_bit)
    moreover have "take_bit 16 i AND 3 = 3"
      using assms(3) by (simp add: word32_bits bit_simps bit_numeral_rec)
    ultimately show ?thesis
      using False by (auto simp: fetch_insn_def pc Let_def)
  qed
qed

lemma shortens_compress:
  assumes "shortens E s i (compress_base (ucast i) (int (rs_xlen s)))" "ext AND RV_EXT_ZCB = 0"
    and "rv_compress ext (ucast i) (int (rs_xlen s)) \<noteq> 0"
  shows "let h = rv_compress ext (ucast i) (int (rs_xlen s))
    in take_bit 16 h = h \<and> h AND 3 \<noteq> 3 \<and> exec_insn E h 2 s = exec32 E i s"
proof -
  define h where "h = rv_compress ext (ucast i) (int (rs_xlen s))"
  have "shortens E s i h" "h \<noteq> 0"
    using assms by (simp_all add: h_def rv_compress_def)
  then show ?thesis
    unfolding h_def [symmetric] using expand_short [of h "rs_xlen s"] by (simp add: shortens_def exec_insn_def)
qed

section \<open>Properties\<close>

text \<open>C1: the 16-bit form the emitter picks for an instruction is a 16-bit instruction that
  the core decodes as such and runs to the same state as the 32-bit one, on both register
  widths, whatever the state and whatever the instruction does (traps included).  The Zcb
  forms are off, and a shift at RV32 has a 5-bit amount.\<close>

theorem rv_compress_sound:
  fixes i :: u32
  assumes "rs_xlen s = 32 \<or> rs_xlen s = 64" "rs_x s 0 = 0" "ext AND RV_EXT_ZCB = 0"
    and "rs_xlen s = 32 \<Longrightarrow> drop_bit 12 i AND 3 = 1 \<Longrightarrow> i AND 0x7f = 0x13 \<Longrightarrow> \<not> bit i 25"
    and "rv_compress ext (ucast i) (int (rs_xlen s)) \<noteq> 0"
  shows "let h = rv_compress ext (ucast i) (int (rs_xlen s))
    in take_bit 16 h = h \<and> h AND 3 \<noteq> 3 \<and> exec_insn E h 2 s = exec_insn E i 4 s"
proof -
  have "shortens E s i (compress_base (ucast i) (int (rs_xlen s)))"
    by (rule shortens_base [OF assms(1,2)]) (rule assms(4))
  from shortens_compress [OF this assms(3,5)] show ?thesis
    by (simp add: exec_insn_def [of _ i])
qed

theorem rv_compress_sound_witness:
  "rv_compress 0 0x00a50513 64 = 0x0529 \<and>
   exec_insn sample_env 0x0529 2 (sample_core 64) = exec_insn sample_env 0x00a50513 4 (sample_core 64)"
proof -
  have "rv_compress 0 0x00a50513 64 = 0x0529"
    by (simp add: rv_compress_def compress_base_def compress_op_imm_def fld_def immi_of_def ci_form_def cu_def Let_def)
  then show ?thesis
    using rv_compress_sound [of "sample_core 64" 0 "0x00a50513" sample_env] by (simp add: sample_core_simps)
qed

text \<open>C2: with the bytes the emitter wrote for an instruction in memory at the program counter,
  the core fetches exactly those bytes, two or four, and runs the instruction that was emitted,
  whether the emitter had compressed it or not.\<close>

theorem emitted_runs:
  fixes i :: u32
  assumes "rs_xlen s = 32 \<or> rs_xlen s = 64" "rs_x s 0 = 0" "i AND 3 = 3" "g_rv_ext c AND RV_EXT_ZCB = 0"
    and "rs_xlen s = 32 \<Longrightarrow> drop_bit 12 i AND 3 = 1 \<Longrightarrow> i AND 0x7f = 0x13 \<Longrightarrow> \<not> bit i 25"
    and "g_rvc_xlen c = int (rs_xlen s)" "rs_pc s = ucast a" "code_at s r a (emitted (ucast i) c)"
  shows "\<exists>h0 h1. fetch_insn E s = (Some (h0, h1), s) \<and> insn_bytes h0 h1 = emitted (ucast i) c \<and>
    (let n = length (emitted (ucast i) c)
     in n = (if h0 AND 3 = 3 then 4 else 2) \<and>
        exec_insn E (if n = 4 then h0 OR push_bit 16 h1 else h0) n s = exec32 E i s)"
proof -
  let ?h = "rv_compress (g_rv_ext c) (ucast i) (g_rvc_xlen c)"
  have sh: "take_bit 16 ?h = ?h \<and> ?h AND 3 \<noteq> 3 \<and> exec_insn E ?h 2 s = exec32 E i s" if "?h \<noteq> 0"
  proof -
    have "shortens E s i (compress_base (ucast i) (int (rs_xlen s)))"
      by (rule shortens_base [OF assms(1,2)]) (rule assms(5))
    from shortens_compress [OF this assms(4)] show ?thesis
      using assms(6) that by (simp add: Let_def)
  qed
  note f = fetch_emitted [OF assms(7,8,3), of E]
  show ?thesis
  proof (cases "g_rvc c \<and> ?h \<noteq> 0")
    case True
    then show ?thesis
      using f sh by (simp add: emitted_eq insn_bytes_def Let_def low_byte flip: numeral_2_eq_2)
  next
    case False
    have "take_bit 16 i OR push_bit 16 (drop_bit 16 i) = i"
      by (simp add: word32_bits bit_simps)
    moreover have "take_bit 16 i AND 3 = 3"
      using assms(3) by (simp add: word32_bits bit_simps bit_numeral_rec)
    moreover have "insn_bytes (take_bit 16 i) (drop_bit 16 i) = emitted (ucast i) c"
      using False \<open>take_bit 16 i AND 3 = 3\<close>
      by (auto simp: insn_bytes_def emitted_eq Let_def low_byte intro!: bit_word_eqI)
        (auto simp: bit_simps dest: bit_imp_le_length)
    moreover have "length (emitted (ucast i) c) = 4"
      using False by (auto simp: emitted_eq Let_def)
    moreover have "fetch_insn E s = (Some (take_bit 16 i, drop_bit 16 i), s)"
      using False f sh by (auto simp: Let_def)
    ultimately show ?thesis
      by (intro exI [of _ "take_bit 16 i"] exI [of _ "drop_bit 16 i"]) (simp add: exec_insn_def)
  qed
qed

theorem emitted_runs_witness:
  "let c = \<lparr>code_p = [], g_rvc = True, g_rvc_xlen = 64, g_rv_ext = 0\<rparr>;
       s = (sample_core 64)\<lparr>bus_buf := (\<lambda>_ a. if a = 0 then 0x29 else 0x05)\<rparr>
   in emitted 0x00a50513 c = [0x29, 0x05] \<and>
      (\<exists>h0 h1. fetch_insn sample_env s = (Some (h0, h1), s) \<and> insn_bytes h0 h1 = [0x29, 0x05] \<and>
        exec_insn sample_env h0 2 s = exec32 sample_env 0x00a50513 s)"
proof -
  define c where "c = \<lparr>code_p = [], g_rvc = True, g_rvc_xlen = 64, g_rv_ext = 0\<rparr>"
  define s where "s = (sample_core 64)\<lparr>bus_buf := (\<lambda>_ a. if a = 0 then 0x29 else 0x05)\<rparr>"
  define r where "r = hd (bus_rg s)"
  have e: "emitted 0x00a50513 c = [0x29, 0x05]"
    by (simp add: emitted_eq c_def rv_compress_def compress_base_def compress_op_imm_def fld_def immi_of_def
        ci_form_def cu_def Let_def)
  have "code_at s r 0x80000000 [0x29, 0x05]"
    by (auto simp: code_at_def s_def r_def sample_core_def bus_region_def in_region_def less_Suc_eq)
  then show ?thesis
    using emitted_runs [of s "0x00a50513" c "0x80000000" r sample_env] e
    unfolding c_def [symmetric] s_def [symmetric] Let_def
    by (simp add: s_def c_def sample_core_simps flip: numeral_2_eq_2) blast
qed

end
