(* ===== verification/Ieee_Facts.thy ===== *)
theory Ieee_Facts
  imports Ieee754
begin

text \<open>
  The floating-point arithmetic's properties.
\<close>

section \<open>Flags\<close>

text \<open>The five exception flags and nothing else.\<close>

definition flags_ok :: "u32 \<Rightarrow> bool" where
  "flags_ok fl \<longleftrightarrow> fl AND NOT 31 = 0"

lemma flags_ok_or: "flags_ok a \<Longrightarrow> flags_ok b \<Longrightarrow> flags_ok (a OR b)"
  by (simp add: flags_ok_def bit.conj_disj_distrib2)

lemma flags_ok_consts: "flags_ok 0" "flags_ok 1" "flags_ok 2" "flags_ok 4" "flags_ok 5" "flags_ok 8" "flags_ok 16" "flags_ok 3"
  by (simp_all add: flags_ok_def)

lemmas flags_okI = flags_ok_or flags_ok_consts

lemma flags_ok_branches:
  "(c \<Longrightarrow> flags_ok (snd x)) \<Longrightarrow> (\<not> c \<Longrightarrow> flags_ok (snd y)) \<Longrightarrow> flags_ok (snd (if c then x else y))"
  "(\<And>x. flags_ok (snd (f x))) \<Longrightarrow> flags_ok (snd (Let a f))"
  "(\<And>x y. flags_ok (snd (g x y))) \<Longrightarrow> flags_ok (snd (case p of (x, y) \<Rightarrow> g x y))"
  "flags_ok fl \<Longrightarrow> flags_ok (snd (r, fl))"
  "flags_ok fl \<Longrightarrow> flags_ok fl' \<Longrightarrow> flags_ok (if c then fl else fl')"
  by (simp_all add: Let_def split_def)

lemma flags_ok_let:
  "flags_ok v \<Longrightarrow> (\<And>fl. flags_ok fl \<Longrightarrow> flags_ok (snd (f fl))) \<Longrightarrow> flags_ok (snd (Let v f))"
  by (simp add: Let_def)

lemma flags_pack_subnormal: "flags_ok (snd (pack_subnormal d s e sig rm))"
  unfolding pack_subnormal_def by (rule flags_ok_let | assumption | rule flags_ok_branches | rule flags_okI)+

lemma flags_pack_normal: "flags_ok (snd (pack_normal d s e sig rm))"
  unfolding pack_normal_def by (rule flags_ok_let | assumption | rule flags_ok_branches | rule flags_okI)+

lemma flags_round_pack: "flags_ok (snd (round_pack d s e sig rm))"
  unfolding round_pack_def by (intro flags_ok_branches flags_okI flags_pack_subnormal flags_pack_normal)

lemma flags_round128: "flags_ok (snd (round128 d s v e rm))"
  by (simp add: round128_def Let_def flags_round_pack)

lemma flags_add_core: "flags_ok (snd (add_core d sa A ea sb B eb rm))"
  unfolding add_core_def by (intro flags_ok_branches flags_round128 flags_okI)

lemma flags_nan_result: "flags_ok (snd (nan_result d ops))"
  by (simp add: nan_result_def flags_ok_consts)

lemmas flags_rules = flags_ok_branches flags_okI flags_round_pack flags_round128 flags_add_core flags_nan_result

lemma flags_int_mag: "flags_ok (snd (case m of None \<Rightarrow> (x, 16) | Some (mag, ix) \<Rightarrow> f mag ix))"
  if "\<And>mag ix. flags_ok (snd (f mag ix))"
  using that by (auto simp: flags_okI split: option.split)

lemma ieee_flags:
  "flags_ok (snd (ieee_add d a b sub rm))" "flags_ok (snd (ieee_mul d a b rm))" "flags_ok (snd (ieee_div d a b rm))"
  "flags_ok (snd (ieee_sqrt d a rm))" "flags_ok (snd (ieee_from_int d a n uns rm))"
  "flags_ok (snd (ieee_convert d a rm))" "flags_ok (snd (ieee_cmp d a b op))"
  "flags_ok (snd (ieee_to_int d a n uns rm))"
  unfolding ieee_add_def ieee_mul_def ieee_div_def ieee_sqrt_def ieee_from_int_def ieee_convert_def ieee_cmp_def
    ieee_to_int_def
  by (intro flags_rules flags_int_mag)+

lemma ieee_flags_fma: "flags_ok (snd (ieee_fma d a b c np nc rm))"
proof -
  have n: "flags_ok (snd (let (r, fl) = nan_result d ops in (r, if i then fl OR 16 else fl)))" for ops i
    using flags_nan_result [of d ops] by (simp add: split_def Let_def flags_okI)
  show ?thesis
    unfolding ieee_fma_def by (rule n | rule flags_rules)+
qed

lemma ieee_flags_minmax: "flags_ok (snd (ieee_minmax d a b mx))"
  unfolding ieee_minmax_def by (rule flags_ok_let | assumption | rule flags_ok_branches | rule flags_okI)+

end
