(* ===== verification/Rv_Inv.thy ===== *)
theory Rv_Inv
  imports Rv_Run Ieee_Facts
begin

text \<open>
  Invariants of the simulated hart.  A predicate kept by the primitive updates of the
  core (the laws of the locale \<open>core_invariant\<close>) is kept by every instruction, and one
  kept by what a step does around an instruction as well (\<open>step_invariant\<close>) is kept by the
  whole simulation.  The device hooks, the interrupt controller's claim and the
  semihosting host are the environment's; what is asked of them is \<open>env_keeps\<close>.
\<close>

section \<open>The environment\<close>

definition hooks_keep :: "'m bus_env \<Rightarrow> ('m \<Rightarrow> bool) \<Rightarrow> bool" where
  "hooks_keep B I \<longleftrightarrow>
    (\<forall>c h off n s. dev_read B c = Some h \<longrightarrow> I s \<longrightarrow> I (snd (h off n s))) \<and>
    (\<forall>c h off n v s. dev_write B c = Some h \<longrightarrow> I s \<longrightarrow> I (h off n v s)) \<and>
    (\<forall>c h n s. dev_tick B c = Some h \<longrightarrow> I s \<longrightarrow> I (h n s)) \<and>
    (\<forall>h a s. bus_snoop B = Some h \<longrightarrow> I s \<longrightarrow> I (h a s))"

definition env_keeps :: "'d rv_env \<Rightarrow> ('d rv_state \<Rightarrow> bool) \<Rightarrow> bool" where
  "env_keeps E I \<longleftrightarrow> hooks_keep (env_bus E) I \<and>
    (\<forall>h n s. eic_claim E = Some h \<longrightarrow> I s \<longrightarrow> I (h n s)) \<and>
    (\<forall>a b s. I s \<longrightarrow> I (snd (env_semihost E a b s)))"

section \<open>What a fetch keeps\<close>

text \<open>The updates a read of the bus makes.\<close>

locale read_invariant =
  fixes I :: "'d rv_state \<Rightarrow> bool"
  assumes keeps_touch: "I s \<Longrightarrow> I (s\<lparr>bus_touched := b\<rparr>)"
    and keeps_fail: "I s \<Longrightarrow> I (s\<lparr>bus_fail_addr := a\<rparr>)"
    and keeps_fault: "I s \<Longrightarrow> I (s\<lparr>bus_dev_fault := b, bus_fail_addr := a\<rparr>)"
begin

lemma keeps_dev_result: "I s \<Longrightarrow> I (snd (dev_result a x s))"
  by (simp add: dev_result_def keeps_fault)

lemma keeps_rd_levels:
  assumes B: "hooks_keep B I"
  shows "I s \<Longrightarrow> I (snd (rd_levels k B a n s))"
proof (induction k arbitrary: a n)
  case (Suc k)
  have "I (snd (h off n (s\<lparr>bus_touched := True\<rparr>)))" if "dev_read B c = Some h" for c h off n
    using B keeps_touch [OF Suc.prems] that by (simp add: hooks_keep_def)
  then show ?case
    using Suc by (auto simp: Let_def split_def split: option.split intro!: keeps_touch keeps_fail keeps_dev_result)
qed (simp add: keeps_fail)

lemma keeps_bus_read: "env_keeps E I \<Longrightarrow> I s \<Longrightarrow> I (snd (bus_read (env_bus E) a n s))"
  by (simp add: bus_read_def bus_rd_def env_keeps_def keeps_rd_levels)

lemma keeps_fetch16:
  assumes "env_keeps E I" "I s"
  shows "I (snd (fetch16 E a s))"
  using assms by (auto simp: fetch16_def Let_def split: option.split intro!: keeps_bus_read)

lemma keeps_word_at:
  assumes "env_keeps E I" "I s"
  shows "I (snd (word_at E a s))"
proof -
  have f: "I u" if "fetch16 E b t = (x, u)" "I t" for b t x u
    using keeps_fetch16 [OF assms(1) that(2), of b] that(1) by simp
  show ?thesis
    unfolding word_at_def using assms(2) by (auto split: prod.split option.split dest: f)
qed

lemma keeps_fetch_insn:
  assumes "env_keeps E I" "I s"
  shows "I (snd (fetch_insn E s))"
proof -
  have f: "I u" if "fetch16 E b t = (x, u)" "I t" for b t x u
    using keeps_fetch16 [OF assms(1) that(2), of b] that(1) by simp
  show ?thesis
    unfolding fetch_insn_def using assms(2) by (auto simp: Let_def split: prod.split option.split dest: f)
qed

end

section \<open>What an instruction keeps\<close>

text \<open>Even targets, or targets an even distance from the pc.\<close>

definition even_target :: "u64 \<Rightarrow> 'd rv_state \<Rightarrow> bool" where
  "even_target t s \<longleftrightarrow> \<not> bit t 0 \<or> \<not> bit (t - rs_pc s) 0"

text \<open>The updates an instruction is made of.\<close>

locale core_invariant = read_invariant +
  assumes keeps_hit: "I s \<Longrightarrow> I (s\<lparr>bus_watch_hit := b, bus_watch_kind := wk, bus_watch_addr := a\<rparr>)"
    and keeps_ram: "I s \<Longrightarrow> r \<in> set (bus_rg s) \<Longrightarrow> \<not> rg_rom r \<Longrightarrow> I (upd_buf (rg_mem r) m s)"
    and keeps_trap: "I s \<Longrightarrow> (cause = TRAP_WATCH \<Longrightarrow> bus_watch s \<noteq> []) \<Longrightarrow> I (rv_trap cause tval s)"
    and keeps_store_fault: "I s \<Longrightarrow> I (store_fault s)"
    and keeps_wx: "I s \<Longrightarrow> I (rv_wx rd v s)"
    and keeps_host: "I s \<Longrightarrow> I (s\<lparr>rs_x := (rs_x s)(10 := ucast (w :: u32))\<rparr>)"
    and keeps_jump: "I s \<Longrightarrow> even_target t s \<Longrightarrow> I (jump t s)"
    and keeps_csr: "I s \<Longrightarrow> I (csr_wr csr v s)"
    and keeps_mret: "I s \<Longrightarrow> I (mret s)"
    and keeps_wr_f: "I s \<Longrightarrow> I (wr_f d rd v s)"
    and keeps_flags: "I s \<Longrightarrow> flags_ok fl \<Longrightarrow> I (fp_flags fl s)"
    and keeps_resv: "I s \<Longrightarrow> I (s\<lparr>rs_resv := True, rs_resv_addr := ra, rs_resv_val := v\<rparr>)"
    and keeps_unresv: "I s \<Longrightarrow> I (s\<lparr>rs_resv := False\<rparr>)"
    and keeps_end: "I s \<Longrightarrow> I (sim_end st s)"
    and keeps_wait: "I s \<Longrightarrow> I (s\<lparr>sim_cycles := n, rs_idle := k\<rparr>)"
begin

lemmas keeps = keeps_touch keeps_fail keeps_fault keeps_hit keeps_ram keeps_store_fault keeps_wx keeps_host
  keeps_csr keeps_mret keeps_wr_f keeps_resv keeps_unresv keeps_end keeps_wait

lemma keeps_snoop: "hooks_keep B I \<Longrightarrow> I s \<Longrightarrow> I (snoop B g a s)"
  by (auto simp: snoop_def hooks_keep_def split: option.split)

lemma keeps_wr_levels:
  assumes B: "hooks_keep B I"
  shows "I s \<Longrightarrow> I (snd (wr_levels k B a n v False s))"
proof (induction k arbitrary: a n v s)
  case (Suc k)
  define t where "t = snoop B False a s"
  have t: "I t"
    using B Suc.prems by (simp add: t_def keeps_snoop)
  have "I (h off n v (t\<lparr>bus_touched := True\<rparr>))" if "dev_write B c = Some h" for c h off
    using B keeps_touch [OF t] that by (simp add: hooks_keep_def)
  moreover have "r \<in> set (bus_rg t)" if "bus_region t a m = Some r" for r m
    using that by (auto simp: bus_region_def find_Some_iff in_set_conv_nth)
  moreover have "I (snd (rd_levels (Suc k) B x 1 t))" for x
    using keeps_rd_levels [OF B t] by blast
  ultimately show ?case
    using Suc.IH t by (auto simp: Let_def split_def t_def [symmetric] simp del: rd_levels.simps split: option.split
        intro!: keeps_touch keeps_fail keeps_dev_result keeps_ram)
qed (simp add: keeps_fail)

lemma keeps_bus_write: "env_keeps E I \<Longrightarrow> I s \<Longrightarrow> I (snd (bus_write (env_bus E) a n v s))"
  by (simp add: bus_write_def bus_wr_def env_keeps_def keeps_wr_levels)

lemma keeps_illegal: "I s \<Longrightarrow> I (rv_illegal s)"
  unfolding rv_illegal_def by (rule keeps_trap) simp_all

lemma keeps_load_pieces: "env_keeps E I \<Longrightarrow> I s \<Longrightarrow> I (snd (load_pieces E a a32 n i v s))"
proof (induction E a a32 n i v s rule: load_pieces.induct)
  case (1 E a a32 n i v s)
  show ?case
    using 1 keeps_bus_read [OF 1(2,3), of "a32 + of_nat i" "piece a32 n i"]
    by (subst load_pieces.simps) (auto simp: Let_def split: prod.split option.split intro!: keeps_trap)
qed

lemma keeps_store_pieces: "env_keeps E I \<Longrightarrow> I s \<Longrightarrow> I (store_pieces E a a32 n i v s)"
proof (induction E a a32 n i v s rule: store_pieces.induct)
  case (1 E a a32 n i v s)
  let ?k = "piece a32 n i" and ?x = "ucast (drop_bit (8 * i) v) :: u32"
  define x where "x = (if ?k < 4 then ?x AND (push_bit (8 * ?k) 1 - 1) else ?x)"
  obtain ok t where w: "bus_write (env_bus E) (a32 + of_nat i) ?k x s = (ok, t)"
    by fastforce
  have "I t"
    using keeps_bus_write [OF 1(2,3), of "a32 + of_nat i" ?k x] w by simp
  then have "I (store_pieces E a a32 n (i + ?k) v t)" if "i < n" ok
    using 1(1) [OF that(1) refl refl refl _ _ 1(2)] w that(2) by (simp add: x_def)
  with \<open>I t\<close> 1(3) show ?case
    by (subst store_pieces.simps) (auto simp: Let_def w x_def [symmetric] split: bool.split intro!: keeps_trap)
qed

lemma keeps_watch_scan: "I s \<Longrightarrow> I (snd (watch_scan a n w ws s))"
  by (induction ws) (simp_all add: keeps_hit)

lemma keeps_watch: "I s \<Longrightarrow> I (snd (bus_watch_check a n w s))"
  by (simp add: bus_watch_check_def keeps_watch_scan)

lemma watch_kept: "bus_watch (snd (bus_watch_check a n w s)) = bus_watch s"
proof -
  have "bus_watch (snd (watch_scan a n w ws s)) = bus_watch s" for ws
    by (induction ws) simp_all
  then show ?thesis
    by (simp add: bus_watch_check_def)
qed

text \<open>The part the accesses share: the check of the watchpoints.\<close>

lemma keeps_watch_step:
  assumes "I s" "(if bus_watch s \<noteq> [] then bus_watch_check a n w s else (False, s)) = (hit, t)"
  shows "I t" "hit \<Longrightarrow> I (rv_trap TRAP_WATCH 0 t)"
proof -
  show "I t"
    using assms keeps_watch [of s a n w] by (auto split: if_splits)
  then show "I (rv_trap TRAP_WATCH 0 t)" if hit
    using assms(2) that watch_kept [of a n w s] by (intro keeps_trap) (auto split: if_splits)
qed

lemma keeps_load:
  assumes "env_keeps E I" "I s"
  shows "I (snd (rv_load_sim E a n s))"
  using assms keeps_watch_step [of s "ucast a" n False] keeps_load_pieces [OF assms(1)]
  by (auto simp: rv_load_sim_def Let_def split: prod.split option.split intro!: keeps_trap)

lemma keeps_store:
  assumes "env_keeps E I" "I s"
  shows "I (rv_store_sim E a n v s)"
proof -
  have r: "r \<in> set (bus_rg t)" if "bus_region t b k = Some r" for r t b k
    using that by (auto simp: bus_region_def find_Some_iff in_set_conv_nth)
  show ?thesis
    using assms keeps_watch_step [of s "ucast a" n True] keeps_store_pieces [OF assms(1)]
    by (auto simp: rv_store_sim_def Let_def split: prod.split option.split intro!: keeps_trap keeps_ram r)
qed

text \<open>Walking through a definition: a bound state keeps the invariant, other bound values are
  arbitrary.\<close>

lemma keeps_branches:
  "I (snd x) \<Longrightarrow> (\<And>v t. I t \<Longrightarrow> I (f v t)) \<Longrightarrow> I (let (v, t) = x in f v t)"
  "I s \<Longrightarrow> (\<And>t. I t \<Longrightarrow> I (g t)) \<Longrightarrow> I (Let s g)"
  "(\<And>v. I (h v)) \<Longrightarrow> I (Let y h)"
  "(b \<Longrightarrow> I t) \<Longrightarrow> (\<not> b \<Longrightarrow> I u) \<Longrightarrow> I (if b then t else u)"
  "I t \<Longrightarrow> (\<And>z. op = Some z \<Longrightarrow> I (k z)) \<Longrightarrow> I (case op of None \<Rightarrow> t | Some z \<Rightarrow> k z)"
  by (auto simp: Let_def split: prod.splits option.split)

lemmas keeps_rules = keeps_branches keeps keeps_illegal keeps_load keeps_store

lemma keeps_fault_trap: "I s \<Longrightarrow> I (rv_trap 4 a s)" "I s \<Longrightarrow> I (rv_trap 6 a s)" 
  by (rule keeps_trap; simp)+

lemma keeps_amo: "env_keeps E I \<Longrightarrow> I s \<Longrightarrow> I (amo E i rd f3 a b s)"
  unfolding amo_def by (assumption | rule keeps_fault_trap keeps_rules)+

lemma keeps_csr_insn: "I s \<Longrightarrow> I (csr_insn i s)"
  unfolding csr_insn_def by (assumption | rule keeps_rules)+

lemma keeps_fp_mem: "env_keeps E I \<Longrightarrow> I s \<Longrightarrow> I (fp_mem E i s)"
  unfolding fp_mem_def by (assumption | rule keeps_rules)+

lemma keeps_fp_result: "I s \<Longrightarrow> flags_ok (snd x) \<Longrightarrow> I (fp_result d rd x s)"
  by (simp add: fp_result_def split_def keeps_flags keeps_wr_f)

lemma keeps_let_flags: "flags_ok (snd x) \<Longrightarrow> (\<And>r fl. flags_ok fl \<Longrightarrow> I (f r fl)) \<Longrightarrow> I (let (r, fl) = x in f r fl)"
  by (simp add: split_def)

lemma keeps_fp_op: "I s \<Longrightarrow> I (fp_op E i s)"
  unfolding fp_op_def
  by (assumption | rule keeps_let_flags keeps_fp_result keeps_flags flags_ok_branches ieee_flags ieee_flags_minmax
      keeps_rules)+

lemma keeps_fp_exec: "env_keeps E I \<Longrightarrow> I s \<Longrightarrow> rv_fp_exec E i s = Some t \<Longrightarrow> I t"
  unfolding rv_fp_exec_def
  by (auto simp: Let_def split: if_split_asm option.split_asm
      intro!: keeps_illegal keeps_fp_mem keeps_fp_op keeps_fp_result ieee_flags_fma)

lemma keeps_snd_branches:
  "I (snd x) \<Longrightarrow> (\<And>v t. I t \<Longrightarrow> I (snd (f v t))) \<Longrightarrow> I (snd (let (v, t) = x in f v t))"
  "(\<And>v. I (snd (h v))) \<Longrightarrow> I (snd (Let y h))"
  "(b \<Longrightarrow> I (snd p)) \<Longrightarrow> (\<not> b \<Longrightarrow> I (snd q)) \<Longrightarrow> I (snd (if b then p else q))"
  "I t \<Longrightarrow> I (snd (v, t))"
  by (auto simp: Let_def split: prod.splits)

lemma keeps_semihost:
  assumes "env_keeps E I" "I s"
  shows "I (snd (rv_semihost E s))"
proof -
  have h: "I (snd (env_semihost E a b t))" if "I t" for a b t
    using assms(1) that by (simp add: env_keeps_def)
  show ?thesis
    unfolding rv_semihost_def
    by (assumption | rule assms keeps_word_at h keeps_snd_branches keeps_rules)+
qed

lemma keeps_advance: "env_keeps E I \<Longrightarrow> I s \<Longrightarrow> I (sim_advance E n s)"
proof -
  assume E: "env_keeps E I" and s: "I s"
  have "I s \<Longrightarrow> I (advance_all E n cs s)" for cs
    by (induction cs arbitrary: s) (use E in \<open>auto simp: env_keeps_def hooks_keep_def split: option.split\<close>)
  then show ?thesis
    using s by (simp add: sim_advance_def)
qed

lemma keeps_wfi: "env_keeps E I \<Longrightarrow> I s \<Longrightarrow> I (wfi E s)"
  unfolding wfi_def by (assumption | rule keeps_advance keeps_rules)+

lemma keeps_sys_traps: "I s \<Longrightarrow> I (rv_trap 3 a s)" "I s \<Longrightarrow> I (rv_trap (if b then 11 else 8) a s)"
  by (rule keeps_trap; simp split: if_split_asm)+

lemma keeps_sys: "env_keeps E I \<Longrightarrow> I s \<Longrightarrow> I (sys_insn E i f3 s)"
  unfolding sys_insn_def
  by (assumption | rule keeps_semihost keeps_wfi keeps_csr_insn keeps_sys_traps keeps_rules)+

lemma even_jal: "even_target (rs_pc s + jal_off i) s"
  by (simp add: even_target_def jal_off_def bit_simps bit_numeral_rec)

lemma even_branch: "even_target (rs_pc s + branch_off i) s"
  by (simp add: even_target_def branch_off_def bit_simps bit_numeral_rec)

lemma even_mask: "even_target (a AND NOT 1) s"
  by (simp add: even_target_def bit_simps)

lemma keeps_op: "I s \<Longrightarrow> I (op_imm i rd f3 a imm s)" "I s \<Longrightarrow> I (op_reg rd f3 f7 a b s)"
  "I s \<Longrightarrow> I (op_w i rd f3 f7 a b m s)"
  unfolding op_imm_def op_reg_def op_w_def by (assumption | rule keeps_rules)+

lemma keeps_exec32: "env_keeps E I \<Longrightarrow> I s \<Longrightarrow> I (exec32 E i s)"
  unfolding exec32_def
  by (assumption | rule keeps_op keeps_jump keeps_sys keeps_amo even_jal even_branch even_mask keeps_rules
      | erule (2) keeps_fp_exec)+

lemma keeps_exec: "env_keeps E I \<Longrightarrow> I s \<Longrightarrow> I (exec_insn E insn len s)"
  by (simp add: exec_insn_def Let_def keeps_exec32 keeps_illegal)

end

section \<open>What a step keeps\<close>

text \<open>The end of a step, then the whole of it.\<close>

locale end_invariant = core_invariant +
  assumes keeps_next: "I s \<Longrightarrow> I (s\<lparr>rs_pc := rs_npc s\<rparr>)"
    and keeps_cycles: "I s \<Longrightarrow> I (s\<lparr>sim_cycles := n\<rparr>)"
    and keeps_event: "I s \<Longrightarrow> I (s\<lparr>sim_ev_any := any, sim_ev_at := n, sim_ev_known := b, bus_touched := b'\<rparr>)"
begin

lemma keeps_event_coming: "I s \<Longrightarrow> I (snd (sim_event_coming E s))"
  by (auto simp: sim_event_coming_def Let_def intro!: keeps_event)

lemma keeps_step_end: "env_keeps E I \<Longrightarrow> I s \<Longrightarrow> I (step_end E len cost br s)"
  unfolding step_end_def by (assumption | rule keeps_advance keeps_cycles keeps_next keeps_event_coming keeps_rules)+

end

locale step_invariant = end_invariant +
  assumes keeps_enter: "I s \<Longrightarrow> I (trap_enter cause tval intr s)"
    and keeps_begin: "I s \<Longrightarrow> even len \<Longrightarrow> I (step_begin insn len cost s)"
    and keeps_uncount: "I s \<Longrightarrow> I (s\<lparr>sim_insns := n, sim_cycles := k\<rparr>)"
begin

lemma keeps_take_interrupt: "env_keeps E I \<Longrightarrow> I s \<Longrightarrow> I (snd (take_interrupt E s))"
  by (auto simp: take_interrupt_def Let_def env_keeps_def split: option.split intro!: keeps_enter)

lemma keeps_step_insn: "env_keeps E I \<Longrightarrow> I s \<Longrightarrow> I (step_insn E h0 h1 s)"
  by (auto simp: step_insn_def Let_def split: prod.split
      intro!: keeps_uncount keeps_enter keeps_step_end keeps_exec keeps_begin)

lemma keeps_step:
  assumes "env_keeps E I" "I s"
  shows "I (step E s)"
proof -
  define p where "p = (if rs_mie s \<noteq> 0 \<or> eic_pending E \<noteq> None then take_interrupt E s else (False, s))"
  have "I (snd p)"
    using keeps_take_interrupt [OF assms] assms(2) by (simp add: p_def)
  then show ?thesis
    using keeps_fetch_insn [OF assms(1), of "snd p"] unfolding step_def p_def [symmetric]
    by (auto simp: Let_def split: prod.split option.split intro!: keeps_end keeps_enter keeps_step_insn assms(1))
qed

lemma keeps_sim_step: "env_keeps E I \<Longrightarrow> I s \<Longrightarrow> I (sim_step E s)"
  by (simp add: sim_step_def budget_check_def keeps_step keeps_end)

lemma keeps_run:
  assumes "sim_run E s = Some t" "env_keeps E I" "I s"
  shows "I t"
proof -
  have "env_keeps E I \<longrightarrow> I s \<longrightarrow> I t"
  proof (rule sim_run.raw_induct [OF _ assms(1)])
    fix run E s t
    assume "\<And>E s t. run E s = Some t \<Longrightarrow> env_keeps E I \<longrightarrow> I s \<longrightarrow> I t"
      "(if sim_state s = RUN then run E (budget_check (step E s)) else Some s) = Some t"
    then show "env_keeps E I \<longrightarrow> I s \<longrightarrow> I t"
      using keeps_sim_step [of E s] by (auto simp: sim_step_def split: if_split_asm)
  qed
  with assms(2,3) show ?thesis by simp
qed

end

section \<open>The hart's state\<close>

text \<open>
  What the registers always hold: \<open>x0\<close> is zero and at RV32 the registers are zero-extended;
  the privilege is machine or user, the stacked one too; the pc, the next pc and the trap's
  return address are even; the trap vector's mode is one of the two there are, the enabled
  interrupts are among the three, and the floating-point state has its five flags and three
  bits of rounding mode.
\<close>

definition hart_ok :: "'d rv_state \<Rightarrow> bool" where
  "hart_ok s \<longleftrightarrow>
    (rs_xlen s = 32 \<or> rs_xlen s = 64) \<and> rs_x s 0 = 0 \<and> (\<forall>r < 32. rv_xl s (rs_x s r) = rs_x s r) \<and>
    (rs_priv s = PRV_U \<or> rs_priv s = PRV_M) \<and> (bit (rs_mstatus s) 11 \<longleftrightarrow> bit (rs_mstatus s) 12) \<and>
    \<not> bit (rs_pc s) 0 \<and> \<not> bit (rs_npc s) 0 \<and> \<not> bit (rs_mepc s) 0 \<and> \<not> bit (rs_mtvec s) 1 \<and>
    rs_mie s AND NOT 0x888 = 0 \<and> flags_ok (rs_fflags s) \<and> rs_frm s AND NOT 7 = 0"

lemma ucast_32_twice: "ucast (ucast (ucast (ucast (v :: u64) :: u32) :: u64) :: u32) = (ucast (ucast v :: u32) :: u64)"
  by (rule bit_word_eqI) (simp add: bit_simps)

lemma hart_ok_if: "(b \<Longrightarrow> hart_ok s) \<Longrightarrow> (\<not> b \<Longrightarrow> hart_ok t) \<Longrightarrow> hart_ok (if b then s else t)"
  by simp

lemma hart_ok_dirty: "hart_ok s \<Longrightarrow> hart_ok (rv_fp_dirty s)"
  by (auto simp: hart_ok_def rv_fp_dirty_def bit_simps bit_numeral_rec rv_xl_def)

lemma even_vector: "\<not> bit ((x AND - 4) + 4 * c :: u64) 0"
  by (simp add: bit_0 even_and_iff)

lemma previous_mode:
  fixes m :: u64
  assumes "bit m 11 \<longleftrightarrow> bit m 12"
  shows "drop_bit 11 m AND 3 = (if bit m 11 then 3 else 0)"
proof -
  have m: "(3 :: u64) = mask 2"
    by (simp add: mask_eq_exp_minus_1)
  show ?thesis
    unfolding m using assms by (intro bit_word_eqI) (auto simp: bit_simps less_Suc_eq numeral_2_eq_2)
qed

lemma hart_ok_wx: "hart_ok s \<Longrightarrow> hart_ok (rv_wx rd v s)"
  by (auto simp: hart_ok_def rv_wx_def Let_def rv_xl_def xl_def ucast_32_twice)

lemma hart_ok_mret: "hart_ok s \<Longrightarrow> hart_ok (mret s)"
  by (auto simp: hart_ok_def mret_def rv_illegal_def rv_trap_def jump_def Let_def rv_xl_def xl_def bit_simps
      bit_numeral_rec previous_mode)

lemma hart_ok_enter: "hart_ok s \<Longrightarrow> hart_ok (trap_enter cause tval intr s)"
  by (auto simp: hart_ok_def trap_enter_def Let_def rv_xl_def xl_def bit_simps bit_numeral_rec even_vector)

lemma low_two_bits:
  fixes v :: u64
  shows "drop_bit 11 v AND 3 = 0 \<Longrightarrow> \<not> bit v 11 \<and> \<not> bit v 12" "drop_bit 11 v AND 3 = 3 \<Longrightarrow> bit v 11 \<and> bit v 12"
    "v AND 3 < 2 \<Longrightarrow> \<not> bit v (Suc 0)"
proof -
  have b: "bit (drop_bit 11 v AND 3) 0 \<longleftrightarrow> bit v 11" "bit (drop_bit 11 v AND 3) (Suc 0) \<longleftrightarrow> bit v 12"
    by (simp_all add: bit_simps bit_numeral_rec)
  show "drop_bit 11 v AND 3 = 0 \<Longrightarrow> \<not> bit v 11 \<and> \<not> bit v 12"
    using b by simp
  show "drop_bit 11 v AND 3 = 3 \<Longrightarrow> bit v 11 \<and> bit v 12"
    using b by (simp add: bit_numeral_rec)
  assume "v AND 3 < 2"
  then have "unat (v AND 3) < 2"
    by (simp add: word_less_nat_alt)
  then have "v AND 3 = 0 \<or> v AND 3 = 1"
    by (simp add: word_unat_eq_iff less_2_cases_iff)
  moreover have "bit (v AND 3) (Suc 0) \<longleftrightarrow> bit v (Suc 0)"
    by (simp add: bit_simps bit_numeral_rec)
  ultimately show "\<not> bit v (Suc 0)"
    by auto
qed

lemma hart_ok_csr_wr: "hart_ok s \<Longrightarrow> hart_ok (csr_wr csr v s)"
  unfolding csr_wr_def esp_csr_wr_def Let_def
  by (intro hart_ok_if hart_ok_dirty; (simp add: hart_ok_def rv_xl_def; fail)?)
    (auto simp: hart_ok_def rv_xl_def xl_def flags_ok_def and.assoc bit_simps bit_numeral_rec low_two_bits)

lemma hart_ok_jump: "hart_ok s \<Longrightarrow> even_target t s \<Longrightarrow> hart_ok (jump t s)"
proof -
  have "\<not> bit t 0" if "\<not> bit (t - rs_pc s) 0" "\<not> bit (rs_pc s) 0"
    using that by (simp add: bit_0)
  then show "hart_ok s \<Longrightarrow> even_target t s \<Longrightarrow> hart_ok (jump t s)"
    by (auto simp: hart_ok_def jump_def even_target_def rv_xl_def xl_def bit_simps)
qed

lemma bit_xl_0: "bit (rv_xl s v) 0 \<longleftrightarrow> bit v 0"
  by (simp add: rv_xl_def xl_def bit_simps)

lemma hart_ok_begin: "hart_ok s \<Longrightarrow> even len \<Longrightarrow> hart_ok (step_begin insn len cost s)"
proof -
  have "\<not> bit (rs_pc s + of_nat len) 0" if "even len" "\<not> bit (rs_pc s) 0"
    using that by (simp add: bit_0)
  then show "hart_ok s \<Longrightarrow> even len \<Longrightarrow> hart_ok (step_begin insn len cost s)"
    by (simp add: hart_ok_def step_begin_def bit_xl_0 rv_xl_def [of "_\<lparr>rs_insn := _\<rparr>"]) (simp add: rv_xl_def)
qed

lemma hart_ok_host: "hart_ok s \<Longrightarrow> hart_ok (s\<lparr>rs_x := (rs_x s)(10 := ucast (w :: u32))\<rparr>)"
proof -
  have "ucast (ucast (ucast w :: u64) :: u32) = (ucast w :: u64)"
    by (rule bit_word_eqI) (auto simp: bit_simps dest: bit_imp_le_length)
  then show "hart_ok s \<Longrightarrow> hart_ok (s\<lparr>rs_x := (rs_x s)(10 := ucast w)\<rparr>)"
    by (auto simp: hart_ok_def rv_xl_def xl_def)
qed

lemma hart_ok_fp: "hart_ok s \<Longrightarrow> hart_ok (wr_f d rd v s)" "hart_ok s \<Longrightarrow> flags_ok fl \<Longrightarrow> hart_ok (fp_flags fl s)"
  unfolding wr_f_def fp_flags_def
  by (intro hart_ok_if hart_ok_dirty; simp add: hart_ok_def rv_xl_def flags_ok_or)+

interpretation hart: step_invariant hart_ok
  by standard
    ((rule hart_ok_wx hart_ok_host hart_ok_jump hart_ok_csr_wr hart_ok_mret hart_ok_fp hart_ok_enter hart_ok_begin; assumption)
    | (simp add: hart_ok_def rv_xl_def upd_buf_def rv_trap_def store_fault_def sim_end_def; fail))+

end
