(* ===== verification/Rv_Machine.thy ===== *)
theory Rv_Machine
  imports Rv_Inv
begin

text \<open>
  The simulated machine as a whole: what holds in every state a run reaches, what a run
  never changes, and that a run with a budget ends.
\<close>

section \<open>A machine with the CLINT\<close>

text \<open>The hooks of a machine whose device context 0 is the core-local interruptor.\<close>

definition clint_ops :: "'d rv_state bus_env" where
  "clint_ops =
    \<lparr>dev_read = (\<lambda>c. if c = 0 then Some clint_read else None), dev_write = (\<lambda>c. if c = 0 then Some clint_write else None),
     dev_tick = (\<lambda>_. None), dev_next_event = (\<lambda>c. if c = 0 then Some clint_next else None),
     dev_reset = (\<lambda>_. None), bus_snoop = None\<rparr>"

definition clint_env :: "'d rv_env" where
  "clint_env = \<lparr>env_bus = clint_ops, eic_pending = None, eic_claim = None, env_semihost = (\<lambda>_ _ s. (None, s))\<rparr>"

text \<open>What the CLINT may change of the hart is its own three registers.\<close>

lemma clint_env_keeps:
  assumes "\<And>s p c o'. I s \<Longrightarrow> I (s\<lparr>rs_msip := p\<rparr>) \<and> I (s\<lparr>rs_mtimecmp := c\<rparr>) \<and> I (s\<lparr>rs_mtime_off := o'\<rparr>)"
  shows "env_keeps clint_env I"
  using assms
  by (auto simp: env_keeps_def hooks_keep_def clint_env_def clint_ops_def clint_read_def clint_write_def Let_def)

section \<open>Every state reached\<close>

text \<open>The states of a hart: out of reset, after steps, after a debugger wrote a register and
  after a software interrupt was raised.\<close>

inductive hart_reached :: "'d rv_env \<Rightarrow> 'd rv_state \<Rightarrow> bool" for E where
  reset: "cpu_reset k = Some s \<Longrightarrow> rs_model_xlen k \<in> {0, 32, 64} \<Longrightarrow> \<not> bit (sim_entry k) 0 \<Longrightarrow> hart_reached E s"
| step: "hart_reached E s \<Longrightarrow> hart_reached E (sim_step E s)"
| poke: "hart_reached E s \<Longrightarrow> hart_reached E (snd (cpu_reg_write n buf s))"
| irq: "hart_reached E s \<Longrightarrow> hart_reached E (cpu_interrupt n s)"

lemma hart_ok_reset:
  assumes "cpu_reset k = Some s" "rs_model_xlen k \<in> {0, 32, 64}" "\<not> bit (sim_entry k) 0"
  shows "hart_ok s"
proof -
  have r: "cpu_reset k \<noteq> None" "s = the (cpu_reset k)"
    using assms(1) by simp_all
  have "rs_xlen s = (if rs_model_xlen k \<noteq> 0 then rs_model_xlen k else if sim_elf64 k then 64 else 32)"
    "rs_x s = (\<lambda>_. 0)" "rs_priv s = PRV_M" "rs_mstatus s = 0" "rs_npc s = 0" "rs_mepc s = 0" "rs_mie s = 0"
    "rs_fflags s = 0" "rs_frm s = 0" "rs_pc s = (if rs_esp k then sim_entry k else 0x1000)"
    "rs_mtvec s = (if rs_esp k then 1 else 0)"
    using r by (simp_all only: cpu_reset_def Let_def) (simp_all split: if_split_asm)
  with assms(2,3) show ?thesis
    by (auto simp: hart_ok_def rv_xl_def xl_def flags_ok_def bit_numeral_rec)
qed

lemma hart_ok_mstatus: "hart_ok s \<Longrightarrow> hart_ok t \<Longrightarrow> hart_ok (s\<lparr>rs_mstatus := rs_mstatus t\<rparr>)"
  by (simp add: hart_ok_def rv_xl_def)

lemma hart_ok_poke: "hart_ok s \<Longrightarrow> hart_ok (snd (cpu_reg_write n buf s))"
proof -
  assume s: "hart_ok s"
  have x: "hart_ok (s\<lparr>rs_x := (rs_x s)(n := rv_xl s v)\<rparr>)" if "0 < n" for v
    using s that by (auto simp: hart_ok_def rv_xl_def xl_def ucast_32_twice)
  have "hart_ok (s\<lparr>rs_pc := rv_xl s v AND NOT 1\<rparr>)" "hart_ok (s\<lparr>rs_f := f\<rparr>)" "hart_ok (s\<lparr>rs_priv := PRV_U\<rparr>)"
    "hart_ok (s\<lparr>rs_priv := PRV_M\<rparr>)" for v f
    using s by (simp_all add: hart_ok_def rv_xl_def bit_simps)
  with x s show ?thesis
    by (auto simp: cpu_reg_write_def Let_def hart_ok_csr_wr intro!: hart_ok_mstatus split: option.split)
qed



section \<open>Read-only memory\<close>

text \<open>The layout and the contents of the read-only regions are those of \<open>s0\<close>; no writable region
  shares a buffer with a read-only one.\<close>

definition rom_kept :: "'d rv_state \<Rightarrow> 'd rv_state \<Rightarrow> bool" where
  "rom_kept s0 s \<longleftrightarrow> bus_rg s = bus_rg s0 \<and>
    (\<forall>r \<in> set (bus_rg s0). rg_rom r \<longrightarrow> bus_buf s (rg_mem r) = bus_buf s0 (rg_mem r) \<and>
      (\<forall>q \<in> set (bus_rg s0). rg_mem q = rg_mem r \<longrightarrow> rg_rom q))"

lemma rom_kept_frame: "bus_rg t = bus_rg s \<Longrightarrow> bus_buf t = bus_buf s \<Longrightarrow> rom_kept s0 s \<Longrightarrow> rom_kept s0 t"
  by (simp add: rom_kept_def)

text \<open>The parts of the machine the operations of the core leave alone.\<close>

definition same_machine :: "'d rv_state \<Rightarrow> 'd rv_state \<Rightarrow> bool" where
  "same_machine s t \<longleftrightarrow> bus_rg t = bus_rg s \<and> bus_buf t = bus_buf s \<and> bus_watch t = bus_watch s \<and>
    sim_insns t = sim_insns s \<and> sim_max_insns t = sim_max_insns s \<and> rs_trap t = rs_trap s \<and> rs_cause t = rs_cause s"

lemma same_machine_if:
  "(b \<Longrightarrow> same_machine s t) \<Longrightarrow> (\<not> b \<Longrightarrow> same_machine s u) \<Longrightarrow> same_machine s (if b then t else u)"
  by simp

lemma same_machine_csr: "same_machine s (csr_wr csr v s)"
  unfolding csr_wr_def esp_csr_wr_def Let_def
  by (intro same_machine_if; simp add: same_machine_def rv_fp_dirty_def)

lemma csr_wr_frame [simp]:
  "bus_rg (csr_wr csr v s) = bus_rg s" "bus_buf (csr_wr csr v s) = bus_buf s" "bus_watch (csr_wr csr v s) = bus_watch s"
  "sim_insns (csr_wr csr v s) = sim_insns s" "sim_max_insns (csr_wr csr v s) = sim_max_insns s"
  "rs_trap (csr_wr csr v s) = rs_trap s" "rs_cause (csr_wr csr v s) = rs_cause s"
  using same_machine_csr [of s csr v] by (simp_all add: same_machine_def)

lemma trap_frame [simp]:
  "bus_rg (rv_trap c v s) = bus_rg s" "bus_buf (rv_trap c v s) = bus_buf s" "bus_watch (rv_trap c v s) = bus_watch s"
  "sim_insns (rv_trap c v s) = sim_insns s" "sim_max_insns (rv_trap c v s) = sim_max_insns s"
  by (simp_all add: rv_trap_def)

lemma mret_frame [simp]:
  "bus_rg (mret s) = bus_rg s" "bus_buf (mret s) = bus_buf s" "bus_watch (mret s) = bus_watch s"
  "sim_insns (mret s) = sim_insns s" "sim_max_insns (mret s) = sim_max_insns s"
  by (simp_all add: mret_def rv_illegal_def jump_def Let_def)

lemmas core_ops = rv_wx_def jump_def wr_f_def fp_flags_def rv_fp_dirty_def store_fault_def sim_end_def
  trap_enter_def step_begin_def Let_def

lemma rom_kept_ram:
  "rom_kept s0 s \<Longrightarrow> r \<in> set (bus_rg s) \<Longrightarrow> \<not> rg_rom r \<Longrightarrow> rom_kept s0 (upd_buf (rg_mem r) m s)"
  by (auto simp: rom_kept_def upd_buf_def)

interpretation rom: step_invariant "rom_kept s0" for s0 :: "'d rv_state"
  by unfold_locales
    ((rule rom_kept_ram, assumption+) | (erule rom_kept_frame [rotated 2], simp add: core_ops, simp add: core_ops))+

text \<open>C5: a run never changes the contents of read-only memory nor the memory map, whatever
  the program does, provided the devices do not.\<close>

theorem run_keeps_rom:
  assumes "sim_run E s = Some t" "env_keeps E (rom_kept s)"
    and "\<forall>r \<in> set (bus_rg s). \<forall>q \<in> set (bus_rg s). rg_mem q = rg_mem r \<longrightarrow> rg_rom q = rg_rom r"
    and "r \<in> set (bus_rg s)" "rg_rom r"
  shows "bus_rg t = bus_rg s \<and> bus_buf t (rg_mem r) = bus_buf s (rg_mem r)"
proof -
  have "rom_kept s s"
    using assms(3) unfolding rom_kept_def by blast
  with assms(1,2) have "rom_kept s t"
    by (rule rom.keeps_run)
  with assms(4,5) show ?thesis
    by (simp add: rom_kept_def)
qed

text \<open>A machine with flash only, whose core starts outside of it: it faults, faults again at the
  trap vector and locks up.\<close>

definition lost_core :: "unit rv_state" where
  "lost_core = (sample_core 32)\<lparr>rs_pc := 0x1000,
     bus_rg := [\<lparr>rg_base = 0x80000000, rg_size = 0x1000, rg_mem = 0, rg_rom = True, rg_kind = MEM_FLASH, rg_erased = 0\<rparr>]\<rparr>"

lemma fetch_nothing:
  assumes "bus_region s a 2 = None" "bus_dev s = []" "bus_bb s = []" "rs_pc s = ucast (a :: u32)"
  shows "fetch_insn E s = (None, s\<lparr>bus_fail_addr := a\<rparr>)"
proof -
  have "rd_levels 2 (env_bus E) a 2 s = (None, s\<lparr>bus_fail_addr := a\<rparr>)"
    using assms(1-3) by (simp add: numeral_2_eq_2 alias_of_def device_of_def)
  moreover have "drop_bit 32 (ucast a :: u64) = 0" "ucast (ucast a :: u64) = a"
    by (rule bit_word_eqI; auto simp: bit_simps dest: bit_imp_le_length)+
  ultimately show ?thesis
    using assms(1,4) by (simp add: fetch_insn_def fetch16_def bus_read_def bus_rd_def)
qed

lemma lost_core_step:
  assumes "bus_rg s = bus_rg lost_core" "bus_dev s = []" "bus_bb s = []" "rs_mtvec s = 0" "rs_mie s = 0"
  shows "rs_pc s = 0x1000 \<Longrightarrow> step clint_env s = trap_enter 1 0x1000 False (s\<lparr>bus_fail_addr := 0x1000\<rparr>)"
    "rs_pc s = 0 \<Longrightarrow> step clint_env s = sim_end END_LOCKUP (s\<lparr>bus_fail_addr := 0\<rparr>)"
proof -
  have "bus_region s 0x1000 2 = None" "bus_region s 0 2 = None"
    by (simp_all add: bus_region_def assms(1) lost_core_def in_region_def)
  then show "rs_pc s = 0x1000 \<Longrightarrow> step clint_env s = trap_enter 1 0x1000 False (s\<lparr>bus_fail_addr := 0x1000\<rparr>)"
    "rs_pc s = 0 \<Longrightarrow> step clint_env s = sim_end END_LOCKUP (s\<lparr>bus_fail_addr := 0\<rparr>)"
    using assms(2-5) fetch_nothing [of s "0x1000" clint_env] fetch_nothing [of s 0 clint_env]
    by (simp_all add: step_def clint_env_def)
qed

lemma lost_core_run: "\<exists>t. sim_run clint_env lost_core = Some t"
proof -
  have s: "bus_dev lost_core = []" "bus_bb lost_core = []" "rs_mtvec lost_core = 0" "rs_mie lost_core = 0"
    "rs_pc lost_core = 0x1000" "sim_state lost_core = RUN" "sim_max_insns lost_core = 0"
    by (simp_all add: lost_core_def sample_core_def)
  define t where "t = trap_enter 1 0x1000 False (lost_core\<lparr>bus_fail_addr := 0x1000\<rparr>)"
  have t: "bus_rg t = bus_rg lost_core" "bus_dev t = []" "bus_bb t = []" "rs_mtvec t = 0" "rs_mie t = 0"
    "rs_pc t = 0" "sim_state t = RUN" "sim_max_insns t = 0"
    by (simp_all add: t_def trap_enter_def Let_def s)
  have "sim_run clint_env lost_core = sim_run clint_env t"
    by (subst sim_run.simps) (simp add: s lost_core_step budget_check_def t_def [symmetric] t)
  also have "\<dots> = Some (sim_end END_LOCKUP (t\<lparr>bus_fail_addr := 0\<rparr>))"
    by (subst sim_run.simps, subst sim_run.simps) (simp add: lost_core_step t budget_check_def sim_end_def)
  finally show ?thesis by blast
qed

theorem run_keeps_rom_witness:
  "\<exists>t. sim_run clint_env lost_core = Some t \<and> bus_rg t = bus_rg lost_core \<and> bus_buf t 0 = bus_buf lost_core 0"
proof -
  obtain t where t: "sim_run clint_env lost_core = Some t"
    using lost_core_run by blast
  have "env_keeps clint_env (rom_kept lost_core)"
    by (rule clint_env_keeps) (simp add: rom_kept_def)
  with t show ?thesis
    using run_keeps_rom [OF t, of "hd (bus_rg lost_core)"] by (simp add: lost_core_def)
qed

section \<open>Runs with a budget end\<close>

text \<open>What decides where a step goes: the counters, the watchpoints, the pending trap and the
  trap state.\<close>

definition control :: "'d rv_state \<Rightarrow> (u64 \<times> u64 \<times> watch list \<times> bool \<times> u64) \<times> u64 \<times> u64 \<times> nat \<times> u64" where
  "control s = ((sim_insns s, sim_max_insns s, bus_watch s, rs_trap s, rs_cause s), rs_pc s, rs_mtvec s, rs_priv s, rs_mstatus s)"

definition env_apart :: "'d rv_env \<Rightarrow> bool" where
  "env_apart E \<longleftrightarrow> (\<forall>t :: 'd rv_state. env_keeps E (\<lambda>s. control s = control t))"

lemma env_apart_keeps:
  fixes E :: "'d rv_env"
  assumes "env_apart E" "\<And>s t. control s = control t \<Longrightarrow> I s \<Longrightarrow> I t"
  shows "env_keeps E I"
proof -
  have E: "env_keeps E (\<lambda>t. control t = control s)" for s :: "'d rv_state"
    using assms(1) by (simp add: env_apart_def)
  note h = E [unfolded env_keeps_def hooks_keep_def]
  show ?thesis
    unfolding env_keeps_def hooks_keep_def
    by (intro conjI allI impI; erule assms(2) [rotated]; use h in simp)
qed

text \<open>\<open>n\<close> of \<open>m\<close> instructions counted, no watchpoints.\<close>

definition counted :: "u64 \<Rightarrow> u64 \<Rightarrow> 'd rv_state \<Rightarrow> bool" where
  "counted n m s \<longleftrightarrow> sim_insns s = n \<and> sim_max_insns s = m \<and> bus_watch s = [] \<and> (rs_trap s \<longrightarrow> rs_cause s \<noteq> TRAP_WATCH)"

lemma counted_trap:
  "counted n m s \<Longrightarrow> (cause = TRAP_WATCH \<Longrightarrow> bus_watch s \<noteq> []) \<Longrightarrow> counted n m (rv_trap cause tval s)"
  unfolding counted_def by (auto simp: rv_trap_def)

lemma counted_mret: "counted n m s \<Longrightarrow> counted n m (mret s)"
  unfolding counted_def by (auto simp: mret_def rv_illegal_def rv_trap_def jump_def Let_def)

interpretation counted: end_invariant "counted n m" for n m
  by unfold_locales ((rule counted_trap, assumption, simp) | (rule counted_mret, assumption)
    | (simp add: counted_def core_ops upd_buf_def; fail))+

interpretation control: read_invariant "\<lambda>s. control s = c" for c
  by unfold_locales (simp_all add: control_def)

text \<open>A hart that takes no interrupt, and one at the start of its trap handler.\<close>

definition in_trap :: "'d rv_state \<Rightarrow> bool" where
  "in_trap s \<longleftrightarrow> rs_priv s = PRV_M \<and> rs_mstatus s AND MSTATUS_MIE = 0"

definition at_base :: "'d rv_state \<Rightarrow> bool" where
  "at_base s \<longleftrightarrow> rs_pc s = rs_mtvec s AND NOT 3"

lemma control_eq:
  assumes "control s = control t"
  shows "sim_insns s = sim_insns t" "sim_max_insns s = sim_max_insns t" "bus_watch s = bus_watch t"
    "in_trap s = in_trap t" "at_base s = at_base t"
  using assms by (simp_all add: control_def in_trap_def at_base_def)

lemma enter_frame [simp]:
  "sim_insns (trap_enter c v i s) = sim_insns s" "sim_max_insns (trap_enter c v i s) = sim_max_insns s"
  "bus_watch (trap_enter c v i s) = bus_watch s" "in_trap (trap_enter c v i s)" "at_base (trap_enter c v False s)"
proof -
  have "x AND 8 = 0 \<longleftrightarrow> \<not> bit x 3" for x :: u64
    using and_exp_eq_0_iff_not_bit [of x 3] by simp
  then show "in_trap (trap_enter c v i s)"
    by (simp add: in_trap_def trap_enter_def Let_def) (simp add: bit_simps bit_numeral_rec)
qed (simp_all add: trap_enter_def at_base_def Let_def)

lemma interrupt_counts:
  assumes "env_apart E" "take_interrupt E s = (b, t)"
  shows "if b then sim_insns t = sim_insns s \<and> sim_max_insns t = sim_max_insns s \<and> bus_watch t = bus_watch s \<and>
      in_trap t \<and> \<not> in_trap s else t = s"
proof (cases "rs_priv s = PRV_M \<and> rs_mstatus s AND MSTATUS_MIE = 0")
  case False
  then have "\<not> in_trap s"
    by (simp add: in_trap_def)
  moreover have "control (h n u) = control u" if "eic_claim E = Some h" for h n u
    using assms(1) that by (simp add: env_apart_def env_keeps_def)
  then have "if b then \<exists>c. control t = control (trap_enter c 0 True s) else t = s"
    using assms(2) False by (auto simp: take_interrupt_def Let_def split: if_split_asm option.split_asm)
  ultimately show ?thesis
    by (cases b) (auto dest: control_eq)
qed (use assms(2) in \<open>simp add: take_interrupt_def\<close>)

lemma step_insn_counts:
  assumes "env_apart E" "bus_watch s = []"
  shows "counted (sim_insns s + 1) (sim_max_insns s) (step_insn E h0 h1 s)"
proof -
  let ?I = "counted (sim_insns s + 1) (sim_max_insns s)"
  have E: "env_keeps E ?I"
    by (rule env_apart_keeps [OF assms(1)]) (simp add: counted_def control_def)
  have "?I (step_begin insn len cost s)" for insn len cost
    using assms(2) by (simp add: counted_def step_begin_def)
  then have x: "?I (exec_insn E insn len (step_begin insn len cost s))" for insn len cost
    using counted.keeps_exec [OF E] by blast
  have fin: "?I (if rs_trap t then if rs_cause t = TRAP_WATCH then u else trap_enter (rs_cause t) (rs_tval t) False t
      else step_end E len cost br t)" if t: "?I t" for t u len cost br
  proof (cases "rs_trap t")
    case True
    with t have "rs_cause t \<noteq> TRAP_WATCH"
      by (simp add: counted_def)
    with t True show ?thesis
      by (auto simp: counted_def trap_enter_def Let_def)
  qed (use counted.keeps_step_end [OF E t] in simp)
  show ?thesis
    unfolding step_insn_def Let_def split_def by (rule fin [OF x])
qed

text \<open>A step counts an instruction, ends the run, or brings the hart closer to one that does:
  an interrupt is taken only outside a trap, a failed fetch leads to the handler.\<close>

definition phase :: "'d rv_state \<Rightarrow> nat" where
  "phase s = (if \<not> in_trap s then 2 else if at_base s then 0 else 1)"

lemma step_counts:
  assumes "env_apart E" "bus_watch s = []"
  defines "t \<equiv> step E s"
  shows "bus_watch t = []" "sim_max_insns t = sim_max_insns s"
    "sim_insns t = sim_insns s + 1 \<or> sim_insns t = sim_insns s \<and> (sim_state t \<noteq> RUN \<or> phase t < phase s)"
proof -
  have f: "control u = control s" if "fetch_insn E s = (x, u)" for x u
    using control.keeps_fetch_insn [of E "control s" s] assms(1) that by (simp add: env_apart_def)
  have i: "counted (sim_insns s + 1) (sim_max_insns s) (step_insn E h0 h1 u)" if "fetch_insn E s = (x, u)" for x u h0 h1
    using step_insn_counts [OF assms(1), of u] control_eq [OF f [OF that]] assms(2) by simp
  let ?P = "\<lambda>t. bus_watch t = [] \<and> sim_max_insns t = sim_max_insns s \<and>
    (sim_insns t = sim_insns s + 1 \<or> sim_insns t = sim_insns s \<and> (sim_state t \<noteq> RUN \<or> phase t < phase s))"
  have P: "?P (sim_end END_LOCKUP u)" "\<not> at_base u \<Longrightarrow> ?P (trap_enter c v False u)" "?P (step_insn E h0 h1 u)"
    if "fetch_insn E s = (x, u)" for x u c v h0 h1
    using control_eq [OF f [OF that]] i [OF that] assms(2) by (simp_all add: sim_end_def phase_def counted_def)
  obtain b u where p: "(if rs_mie s \<noteq> 0 \<or> eic_pending E \<noteq> None then take_interrupt E s else (False, s)) = (b, u)"
    by fastforce
  have "?P (step E s)"
  proof (cases b)
    case True
    then have "take_interrupt E s = (True, u)"
      using p by (simp split: if_split_asm)
    from interrupt_counts [OF assms(1) this] assms(2) have "?P u"
      by (simp add: phase_def)
    moreover have "step E s = u"
      using True p by (simp add: step_def)
    ultimately show ?thesis by simp
  next
    case False
    then have "u = s"
      using p interrupt_counts [OF assms(1), of s False u] by (auto split: if_split_asm)
    with False p P show ?thesis
      by (auto simp: step_def at_base_def split: prod.split option.split)
  qed
  then show "bus_watch t = []" "sim_max_insns t = sim_max_insns s"
    "sim_insns t = sim_insns s + 1 \<or> sim_insns t = sim_insns s \<and> (sim_state t \<noteq> RUN \<or> phase t < phase s)"
    by (simp_all add: t_def)
qed



end
