(* ===== verification/Ir.thy ===== *)
theory Ir
  imports Emb_Prelude "HOL-Library.Signed_Division"
begin

text \<open>
  EmbIR, the compiler's intermediate form (\<open>src/ir/ir.h\<close>), and what every pass of
  the optimizer reads it with (\<open>src/opt/util.c\<close>, the constant folder of
  \<open>src/opt/fold.c\<close>): which operations write a temporary, the operands an
  instruction reads, each virtual register's definitions, the constant an
  operand is known to hold, and the value of an operation on constants.

  A virtual register is an \<open>int\<close> (-1 is none), a \<open>long\<close> a 64-bit word, a C flag a
  \<open>bool\<close>.  An instruction keeps the fields these passes read or write; the calling
  convention of an \<open>IR_CALL\<close>, the profile and the debug fields are left out.  The
  arrays of \<open>struct defs\<close>, indexed by virtual register, are functions.
\<close>

section \<open>Instructions\<close>

datatype (plugins only: size code) ir_op =
    IR_CONST | IR_MOV | IR_ADD | IR_SUB | IR_MUL | IR_DIV | IR_MOD | IR_AND | IR_OR | IR_XOR
  | IR_SHL | IR_SHR | IR_NEG | IR_BNOT | IR_CMP | IR_LDVAR | IR_STVAR | IR_ADDR | IR_STRADDR
  | IR_GADDR | IR_FADDR | IR_LOAD | IR_STORE | IR_EXT | IR_I2F | IR_F2I | IR_F2F | IR_BITCAST
  | IR_CALL | IR_RET | IR_LABEL | IR_JMP | IR_MEMCPY | IR_MEMZERO | IR_BRZ | IR_BRNZ
  | IR_VA_START | IR_BSWAP | IR_SQRT | IR_FENCE | IR_UD2 | IR_XCHG | IR_XADD | IR_CMPXCHG
  | IR_ASM | IR_LABELADDR | IR_IGOTO | IR_SWITCH | IR_ARMW | IR_CAS | IR_CAS16 | IR_FRAMEADDR
  | IR_ALLOCA | IR_SPSAVE | IR_SPRESTORE | IR_LANDING | IR_VLOAD | IR_VSTORE | IR_VBIN
  | IR_VSPLAT | IR_VREDADD | IR_SELECT | IR_VWIDEN | IR_MULH | IR_MULW | IR_CLZ | IR_CTZ
  | IR_POPCNT

datatype binop =
    B_ADD | B_SUB | B_MUL | B_DIV | B_MOD | B_AND | B_OR | B_XOR | B_SHL | B_SHR
  | B_EQ | B_NE | B_LT | B_LE | B_GT | B_GE | B_LAND | B_LOR

record ir_asm_op =
  ao_temp :: int
  ao_val :: bool

record ir_ins =
  i_op :: ir_op
  i_line :: int
  i_col :: int
  i_synth :: bool
  i_dst :: int
  i_a :: int
  i_b :: int
  i_c :: int
  i_mo :: int
  i_w :: nat
  i_size :: nat
  i_sign :: bool
  i_flt :: bool
  i_vol :: bool
  i_imm :: u64
  i_imm_b :: bool
  i_pred :: binop
  i_label :: int
  i_jt :: nat
  i_callee_sym :: int
  i_glob_sym :: int
  i_indirect :: bool
  i_argv :: "int list"
  i_asm_in :: "ir_asm_op list"
  i_asm_out :: "ir_asm_op list"

record ir_local =
  lc_size :: int
  lc_is_int_or_ptr :: bool
  lc_is_scalar_float :: bool

record ir_func =
  f_ins :: "ir_ins list"
  f_nvregs :: int
  f_nparams :: int
  f_nvars :: int
  f_locals :: "ir_local list"
  f_jt :: "int list list"
  f_scope_lo :: "int list option"
  f_scope_hi :: "int list"

text \<open>An instruction as \<open>memset\<close> leaves it, and as \<open>ins_blank\<close> does.\<close>

definition ins_zero :: ir_ins where
  "ins_zero = \<lparr>i_op = IR_CONST, i_line = 0, i_col = 0, i_synth = False, i_dst = 0, i_a = 0, i_b = 0, i_c = 0,
    i_mo = 0, i_w = 0, i_size = 0, i_sign = False, i_flt = False, i_vol = False, i_imm = 0, i_imm_b = False,
    i_pred = B_ADD, i_label = 0, i_jt = 0, i_callee_sym = 0, i_glob_sym = 0, i_indirect = False, i_argv = [],
    i_asm_in = [], i_asm_out = []\<rparr>"

definition ins_blank :: ir_ins where
  "ins_blank = ins_zero\<lparr>i_dst := - 1, i_a := - 1, i_b := - 1, i_label := - 1\<rparr>"

section \<open>What an instruction reads and writes\<close>

definition writes_temp :: "ir_op \<Rightarrow> bool" where
  "writes_temp p \<longleftrightarrow> p \<in> {IR_CONST, IR_MOV,
     IR_ADD, IR_SUB, IR_MUL, IR_DIV, IR_MOD,
     IR_AND, IR_OR, IR_XOR, IR_SHL, IR_SHR,
     IR_NEG, IR_BNOT, IR_CMP,
     IR_LDVAR, IR_ADDR, IR_STRADDR, IR_GADDR,
     IR_FADDR, IR_LOAD, IR_EXT, IR_BSWAP, IR_SQRT,
     IR_CLZ, IR_CTZ, IR_POPCNT,
     IR_I2F, IR_F2I, IR_F2F, IR_BITCAST,
     IR_CALL, IR_XCHG,
     IR_XADD, IR_CMPXCHG, IR_ARMW, IR_CAS, IR_CAS16,
     IR_FRAMEADDR, IR_ALLOCA, IR_SPSAVE,
     IR_SELECT, IR_MULH, IR_MULW,
     IR_LABELADDR,
     IR_VLOAD, IR_VBIN, IR_VSPLAT, IR_VREDADD, IR_VWIDEN}"

definition is_pure :: "ir_op \<Rightarrow> bool" where
  "is_pure p \<longleftrightarrow> p \<in> {IR_CONST, IR_MOV,
     IR_ADD, IR_SUB, IR_MUL,
     IR_AND, IR_OR, IR_XOR, IR_SHL, IR_SHR,
     IR_NEG, IR_BNOT, IR_CMP,
     IR_LDVAR, IR_ADDR, IR_STRADDR, IR_GADDR,
     IR_FADDR, IR_EXT, IR_BSWAP, IR_SQRT,
     IR_CLZ, IR_CTZ, IR_POPCNT,
     IR_I2F, IR_F2I, IR_F2F, IR_BITCAST,
     IR_SELECT,
     IR_LABELADDR,
     IR_MULH, IR_MULW}"

definition def_target :: "ir_ins \<Rightarrow> int" where
  "def_target i =
    (if i_op i = IR_STVAR then i_dst i
     else if writes_temp (i_op i) then i_dst i
     else if i_op i = IR_ASM then i_dst i
     else - 1)"

definition each_read :: "ir_ins \<Rightarrow> int list" where
  "each_read i =
    (if i_op i \<in> {IR_MOV, IR_NEG, IR_BNOT, IR_I2F, IR_F2I, IR_F2F, IR_BITCAST, IR_EXT, IR_BSWAP, IR_SQRT,
        IR_CLZ, IR_CTZ, IR_POPCNT, IR_LDVAR, IR_ADDR, IR_LOAD, IR_MEMZERO, IR_VA_START, IR_STVAR,
        IR_ALLOCA, IR_SPRESTORE, IR_IGOTO, IR_SWITCH} then [i_a i]
     else if i_op i \<in> {IR_ADD, IR_SUB, IR_MUL, IR_DIV, IR_MOD, IR_AND, IR_OR, IR_XOR, IR_SHL, IR_SHR,
        IR_CMP} then i_a i # (if \<not> i_imm_b i then [i_b i] else [])
     else if i_op i \<in> {IR_STORE, IR_MEMCPY, IR_XCHG, IR_XADD, IR_ARMW, IR_VSTORE, IR_MULH, IR_MULW}
       then [i_a i, i_b i]
     else if i_op i = IR_VBIN then i_a i # (if i_b i \<ge> 0 then [i_b i] else [])
     else if i_op i \<in> {IR_VLOAD, IR_VSPLAT, IR_VREDADD, IR_VWIDEN} then [i_a i]
     else if i_op i \<in> {IR_CMPXCHG, IR_CAS, IR_CAS16, IR_SELECT} then [i_a i, i_b i, i_c i]
     else if i_op i \<in> {IR_BRZ, IR_BRNZ} then [i_a i]
     else if i_op i = IR_RET then (if i_a i \<ge> 0 then [i_a i] else [])
     else if i_op i = IR_CALL then (if i_indirect i then [i_a i] else []) @ i_argv i
     else if i_op i = IR_ASM then
       map ao_temp (i_asm_in i) @ map ao_temp (filter (\<lambda>p. \<not> ao_val p) (i_asm_out i))
     else [])"

definition ins_reads :: "ir_ins \<Rightarrow> int \<Rightarrow> bool" where
  "ins_reads i v \<longleftrightarrow> \<not> (i_op i = IR_LDVAR \<or> i_op i = IR_ADDR) \<and> v \<in> set (each_read i)"

text \<open>Both destinations of a landing pad, which \<open>compute_defs\<close> counts apart.\<close>

definition def_targets :: "ir_ins \<Rightarrow> int list" where
  "def_targets i =
    (if i_op i = IR_LANDING then [i_dst i, i_b i]
     else if def_target i < 0 then [] else [def_target i])"

section \<open>The definitions of each register\<close>

record defs =
  d_cnt :: "int \<Rightarrow> int"
  d_ins :: "int \<Rightarrow> int"

definition count_def :: "int \<Rightarrow> int \<Rightarrow> defs \<Rightarrow> defs" where
  "count_def v n d =
    d\<lparr>d_cnt := (d_cnt d)(v := d_cnt d v + 1),
      d_ins := (d_ins d)(v := if d_cnt d v = 0 then n else - 1)\<rparr>"

definition count_ins :: "int \<Rightarrow> ir_ins \<Rightarrow> int \<Rightarrow> defs \<Rightarrow> defs" where
  "count_ins nv i n d =
    (if i_op i = IR_LANDING then
       fold (\<lambda>v d. if v < 0 \<or> v \<ge> nv then d else count_def v n d) [i_dst i, i_b i] d
     else if def_target i < 0 then d
     else count_def (def_target i) n d)"

primrec count_code :: "int \<Rightarrow> ir_ins list \<Rightarrow> int \<Rightarrow> defs \<Rightarrow> defs" where
  "count_code nv [] n d = d"
| "count_code nv (i # is) n d = count_code nv is (n + 1) (count_ins nv i n d)"

definition compute_defs :: "ir_func \<Rightarrow> defs" where
  "compute_defs fn =
    count_code (f_nvregs fn) (f_ins fn) 0
      \<lparr>d_cnt = (\<lambda>v. if 0 \<le> v \<and> v < f_nparams fn \<and> v < f_nvregs fn then 1 else 0), d_ins = (\<lambda>_. - 1)\<rparr>"

definition const_b :: "ir_func \<Rightarrow> defs \<Rightarrow> ir_ins \<Rightarrow> u64 option" where
  "const_b fn d i =
    (if i_imm_b i then Some (i_imm i)
     else
       (let v = i_b i
        in if v < 0 \<or> v \<ge> f_nvregs fn \<or> d_cnt d v \<noteq> 1 then None
           else
             (let n = d_ins d v
              in if n < 0 \<or> i_op (f_ins fn ! nat n) \<noteq> IR_CONST then None
                 else Some (i_imm (f_ins fn ! nat n)))))"

definition get_const :: "ir_func \<Rightarrow> defs \<Rightarrow> int \<Rightarrow> u64 option" where
  "get_const fn d v =
    (if v < 0 \<or> d_cnt d v \<noteq> 1 \<or> d_ins d v < 0 then None
     else
       (let di = f_ins fn ! nat (d_ins d v)
        in if i_op di \<noteq> IR_CONST \<or> i_flt di then None else Some (i_imm di)))"

section \<open>The value of an operation on constants\<close>

definition norm :: "u64 \<Rightarrow> nat \<Rightarrow> u64" where
  "norm r w = (if w = 8 then r else scast (ucast r :: u32))"

definition to_const :: "ir_ins \<Rightarrow> u64 \<Rightarrow> ir_ins" where
  "to_const i val = i\<lparr>i_op := IR_CONST, i_imm := val, i_a := - 1, i_b := - 1\<rparr>"

definition ir_result_w :: "ir_ins \<Rightarrow> nat" where
  "ir_result_w i = (if i_op i = IR_CMP then 4 else i_w i)"

definition ir_result_flt :: "ir_ins \<Rightarrow> bool" where
  "ir_result_flt i = (if i_op i = IR_CMP then False else i_flt i)"

definition to_mov :: "ir_ins \<Rightarrow> int \<Rightarrow> ir_ins" where
  "to_mov i src = i\<lparr>i_w := ir_result_w i, i_flt := ir_result_flt i, i_op := IR_MOV, i_a := src, i_b := - 1\<rparr>"

definition fold_ua :: "nat \<Rightarrow> u64 \<Rightarrow> u64" where
  "fold_ua w A = (if w = 8 then A else ucast (ucast A :: u32))"

definition fold_sa :: "nat \<Rightarrow> u64 \<Rightarrow> u64" where
  "fold_sa w A = (if w = 8 then A else scast (ucast A :: u32))"

definition fold_cmp :: "binop \<Rightarrow> bool \<Rightarrow> u64 \<Rightarrow> u64 \<Rightarrow> u64 \<Rightarrow> u64 \<Rightarrow> bool option" where
  "fold_cmp pred sign ua ub sa sb =
    (case pred of
       B_EQ \<Rightarrow> Some (ua = ub)
     | B_NE \<Rightarrow> Some (ua \<noteq> ub)
     | B_LT \<Rightarrow> Some (if sign then sa <s sb else ua < ub)
     | B_LE \<Rightarrow> Some (if sign then sa \<le>s sb else ua \<le> ub)
     | B_GT \<Rightarrow> Some (if sign then sb <s sa else ua > ub)
     | B_GE \<Rightarrow> Some (if sign then sb \<le>s sa else ua \<ge> ub)
     | _ \<Rightarrow> None)"

definition fold_div :: "bool \<Rightarrow> nat \<Rightarrow> bool \<Rightarrow> u64 \<Rightarrow> u64 \<Rightarrow> u64 \<Rightarrow> u64 \<Rightarrow> u64 option" where
  "fold_div is_div w sign ua ub sa sb =
    (if (w \<noteq> 4 \<and> w \<noteq> 8) \<or> ub = 0 then None
     else if sign then
       (if sa = (if w = 8 then push_bit 63 1 else - (2 ^ 31)) \<and> sb = - 1 then None
        else Some (word_of_int (if is_div then sint sa sdiv sint sb else sint sa smod sint sb)))
     else Some (if is_div then ua div ub else ua mod ub))"

definition fold_bin :: "ir_op \<Rightarrow> u64 \<Rightarrow> u64 \<Rightarrow> nat \<Rightarrow> bool \<Rightarrow> binop \<Rightarrow> u64 option" where
  "fold_bin p A B w sign pred =
    (let ua = fold_ua w A; ub = fold_ua w B; sa = fold_sa w A; sb = fold_sa w B;
         sh = unat (ub AND (if w = 8 then 63 else 31));
         prod = (if sign then scast (ucast A :: u32) * scast (ucast B :: u32)
                 else ucast (ucast A :: u32) * ucast (ucast B :: u32));
         out = (\<lambda>r. Some (norm r w))
     in if p = IR_ADD then out (ua + ub)
        else if p = IR_SUB then out (ua - ub)
        else if p = IR_MUL then out (ua * ub)
        else if p = IR_MULW then Some prod
        else if p = IR_MULH then out (if sign then signed_drop_bit 32 prod else drop_bit 32 prod)
        else if p = IR_DIV then Option.bind (fold_div True w sign ua ub sa sb) out
        else if p = IR_MOD then Option.bind (fold_div False w sign ua ub sa sb) out
        else if p = IR_AND then out (ua AND ub)
        else if p = IR_OR then out (ua OR ub)
        else if p = IR_XOR then out (ua XOR ub)
        else if p = IR_SHL then out (push_bit sh ua)
        else if p = IR_SHR then out (if sign then signed_drop_bit sh sa else drop_bit sh ua)
        else if p = IR_CMP then
          Option.bind (fold_cmp pred sign ua ub sa sb) (\<lambda>c. out (if c then 1 else 0))
        else None)"

definition fold_ext :: "u64 \<Rightarrow> nat \<Rightarrow> bool \<Rightarrow> nat \<Rightarrow> u64" where
  "fold_ext A sz sign w =
    (let bits = sz * 8;
         m = (if bits \<ge> 64 then NOT 0 else push_bit bits 1 - 1);
         low = A AND m;
         r = (if sign \<and> bits < 64 \<and> low AND push_bit (bits - 1) 1 \<noteq> 0 then low OR NOT m else low)
     in norm r w)"

end
