(* ===== verification/Ir_Fold.thy ===== *)
theory Ir_Fold
  imports Ir
begin

text \<open>
  What the constant folder computes, operation by operation, in terms of the low
  32-bit halves of its operands: the results at width 4 are sign-extended 32-bit
  values, those at width 8 plain 64-bit ones.
\<close>

abbreviation lo :: "u64 \<Rightarrow> u32" where
  "lo x \<equiv> ucast x"

abbreviation sx :: "u32 \<Rightarrow> u64" where
  "sx x \<equiv> scast x"

lemma norm_4: "norm r 4 = sx (lo r)"
  by (simp add: norm_def)

lemma norm_8: "norm r 8 = r"
  by (simp add: norm_def)

lemma lo_sx [simp]: "lo (sx x) = x" "lo (ucast x) = x"
  by (rule low32_ext)+

lemma unat_ucast_up: "unat (ucast (x :: u32) :: u64) = unat x"
  using unsigned_less [of x, where 'a = nat] by (simp add: unsigned_ucast_eq take_bit_nat_eq_self)

lemma uint_ucast_up: "uint (ucast (x :: u32) :: u64) = uint x"
  unfolding uint_nat unat_ucast_up ..

lemma uint_drop_div: "uint (drop_bit n w) = uint w div 2 ^ n" for w :: "'a::len word"
  unfolding uint_nat unat_drop_bit by (simp add: zdiv_int)

lemma sint_sx: "sint (sx x) = sint x"
  by (rule sint_up_scast) (simp add: is_up)

lemma lo_drop: "lo (drop_bit n (ucast x)) = drop_bit n x"
  by (rule bit_word_eqI) (auto simp: bit_simps dest: bit_imp_le_length)

lemma lo_word_of_int: "lo (word_of_int k) = word_of_int k"
  by (rule bit_word_eqI) (auto simp: bit_simps)

lemma lo_sint: "lo w = word_of_int (sint w)"
  using lo_word_of_int [of "sint w"] by simp

lemma lo_sdrop: "lo (signed_drop_bit n (sx x)) = signed_drop_bit n x"
proof -
  have "signed_drop_bit n x = word_of_int (sint (signed_drop_bit n x))"
    by simp
  then show ?thesis
    by (simp only: lo_sint sint_signed_drop_bit_eq sint_sx)
qed

lemma lo_ucast_and: "unat (ucast (x :: u32) AND (31 :: u64)) = unat (x AND 31)"
proof -
  have "ucast x AND (31 :: u64) = ucast (x AND 31)"
    by (rule bit_word_eqI) (auto simp: bit_simps dest: bit_imp_le_length)
  then show ?thesis
    by (simp add: unat_ucast_up)
qed

lemmas fold_bin_simps = fold_bin_def fold_ua_def fold_sa_def Let_def

lemma fold_bin_4:
  "fold_bin IR_ADD A B 4 s p = Some (sx (lo A + lo B))"
  "fold_bin IR_SUB A B 4 s p = Some (sx (lo A - lo B))"
  "fold_bin IR_MUL A B 4 s p = Some (sx (lo A * lo B))"
  "fold_bin IR_AND A B 4 s p = Some (sx (lo A AND lo B))"
  "fold_bin IR_OR A B 4 s p = Some (sx (lo A OR lo B))"
  "fold_bin IR_SHL A B 4 s p = Some (sx (push_bit (unat (lo B AND 31)) (lo A)))"
  "fold_bin IR_SHR A B 4 False p = Some (sx (drop_bit (unat (lo B AND 31)) (lo A)))"
  "fold_bin IR_SHR A B 4 True p = Some (sx (signed_drop_bit (unat (lo B AND 31)) (lo A)))"
  by (simp_all add: fold_bin_simps norm_4 low32_hom low32_push lo_drop lo_sdrop lo_ucast_and)

lemma fold_bin_8:
  "fold_bin IR_MUL A B 8 s p = Some (A * B)"
  "fold_bin IR_SHR A B 8 False p = Some (drop_bit (unat (B AND 63)) A)"
  "fold_bin IR_SHR A B 8 True p = Some (signed_drop_bit (unat (B AND 63)) A)"
  by (simp_all add: fold_bin_simps norm_8)

lemma fold_ext_48:
  "fold_ext A 4 True 8 = sx (lo A)"
  "fold_ext A 4 False 8 = ucast (lo A)"
proof -
  have m: "push_bit 32 (1 :: u64) - 1 = mask 32"
    by (simp add: mask_eq_exp_minus_1)
  have low: "A AND mask 32 = ucast (lo A)"
    by (rule bit_word_eqI) (auto simp: bit_simps)
  show "fold_ext A 4 False 8 = ucast (lo A)"
    by (simp add: fold_ext_def Let_def norm_8 m low del: push_bit_of_1)
  have "ucast (lo A) AND push_bit 31 (1 :: u64) \<noteq> 0 \<longleftrightarrow> bit (lo A) 31"
    by (simp only: push_bit_of_1 and_exp_eq_0_iff_not_bit not_not) (simp add: bit_simps)
  moreover have "(if bit (lo A) 31 then ucast (lo A) OR NOT (mask 32) else ucast (lo A)) = sx (lo A)"
    by (rule bit_word_eqI, rename_tac n, case_tac "n = 31") (auto simp: bit_simps min_def not_less)
  ultimately show "fold_ext A 4 True 8 = sx (lo A)"
    by (simp add: fold_ext_def Let_def norm_8 m low del: push_bit_of_1 split: if_split_asm)
qed

lemma product_exact:
  fixes a b :: u32
  shows "uint (ucast a * ucast b :: u64) = uint a * uint b" "sint (sx a * sx b) = sint a * sint b"
proof -
  have "uint a * uint b \<le> (2 ^ 32 - 1) * (2 ^ 32 - 1)"
    using uint_lt2p [of a] uint_lt2p [of b] by (intro mult_mono) auto
  then show "uint (ucast a * ucast b :: u64) = uint a * uint b"
    by (simp add: uint_word_ariths uint_ucast_up)
  have r: "\<bar>sint w\<bar> \<le> 2 ^ 31" for w :: u32
    using sint_range_size [of w] by (simp add: word_size abs_le_iff)
  have "\<bar>sint a * sint b\<bar> \<le> 2 ^ 31 * 2 ^ 31"
    unfolding abs_mult by (intro mult_mono r) auto
  then have "- (2 ^ 63) \<le> sint a * sint b" "sint a * sint b < 2 ^ 63"
    by simp_all
  moreover have "sx a * sx b = word_of_int (sint a * sint b)"
    by (simp only: scast_eq of_int_mult)
  ultimately show "sint (sx a * sx b) = sint a * sint b"
    by (simp only: int_word_sint) simp
qed

lemma fold_mulh_4:
  "fold_bin IR_MULH A B 4 False p = Some (sx (word_of_int ((uint (lo A) * uint (lo B)) div 2 ^ 32)))"
  "fold_bin IR_MULH A B 4 True p = Some (sx (word_of_int ((sint (lo A) * sint (lo B)) div 2 ^ 32)))"
proof -
  have "drop_bit 32 (ucast (lo A) * ucast (lo B) :: u64) = word_of_int (uint (drop_bit 32 (ucast (lo A) * ucast (lo B) :: u64)))"
    by simp
  also have "uint (drop_bit 32 (ucast (lo A) * ucast (lo B) :: u64)) = (uint (lo A) * uint (lo B)) div 2 ^ 32"
    by (simp only: uint_drop_div product_exact)
  finally show "fold_bin IR_MULH A B 4 False p = Some (sx (word_of_int ((uint (lo A) * uint (lo B)) div 2 ^ 32)))"
    by (simp add: fold_bin_simps norm_4 lo_word_of_int)
  show "fold_bin IR_MULH A B 4 True p = Some (sx (word_of_int ((sint (lo A) * sint (lo B)) div 2 ^ 32)))"
    using lo_sint [of "signed_drop_bit 32 (sx (lo A) * sx (lo B))"]
    by (simp add: fold_bin_simps norm_4 sint_signed_drop_bit_eq product_exact drop_bit_eq_div)
qed

lemma ucast_up_inject: "(ucast x :: u64) = ucast y \<longleftrightarrow> x = y" for x y :: u32
  by (metis lo_sx(2))

lemma sx_inject: "sx x = sx y \<longleftrightarrow> x = y"
  by (metis lo_sx(1))

lemma up_div: "lo (ucast a div ucast b) = a div b" "lo (ucast a mod ucast b) = a mod b" for a b :: u32
proof -
  have "ucast a div ucast b = (ucast (a div b) :: u64)" "ucast a mod ucast b = (ucast (a mod b) :: u64)"
    by (simp_all add: word_unat_eq_iff unat_div unat_mod unat_ucast_up)
  then show "lo (ucast a div ucast b) = a div b" "lo (ucast a mod ucast b) = a mod b"
    by simp_all
qed

lemma fold_div_4:
  "fold_bin IR_DIV A B 4 False p = (if lo B = 0 then None else Some (sx (lo A div lo B)))"
  "fold_bin IR_MOD A B 4 False p = (if lo B = 0 then None else Some (sx (lo A mod lo B)))"
  "fold_bin IR_DIV A B 4 True p = (if lo B = 0 \<or> lo A = 0x80000000 \<and> lo B = - 1 then None
     else Some (sx (word_of_int (sint (lo A) sdiv sint (lo B)))))"
  "fold_bin IR_MOD A B 4 True p = (if lo B = 0 \<or> lo A = 0x80000000 \<and> lo B = - 1 then None
     else Some (sx (word_of_int (sint (lo A) smod sint (lo B)))))"
proof -
  have z: "ucast (lo B) = (0 :: u64) \<longleftrightarrow> lo B = 0"
    using ucast_up_inject [of "lo B" 0] by simp
  have m: "sx (lo A) = - 2147483648 \<longleftrightarrow> lo A = 0x80000000" and b: "sx (lo B) = - 1 \<longleftrightarrow> lo B = - 1"
    using sx_inject [of "lo A" "0x80000000"] sx_inject [of "lo B" "- 1"] by simp_all
  show "fold_bin IR_DIV A B 4 False p = (if lo B = 0 then None else Some (sx (lo A div lo B)))"
    "fold_bin IR_MOD A B 4 False p = (if lo B = 0 then None else Some (sx (lo A mod lo B)))"
    by (simp_all add: fold_bin_simps fold_div_def z norm_4 up_div)
  show "fold_bin IR_DIV A B 4 True p = (if lo B = 0 \<or> lo A = 0x80000000 \<and> lo B = - 1 then None
     else Some (sx (word_of_int (sint (lo A) sdiv sint (lo B)))))"
    "fold_bin IR_MOD A B 4 True p = (if lo B = 0 \<or> lo A = 0x80000000 \<and> lo B = - 1 then None
     else Some (sx (word_of_int (sint (lo A) smod sint (lo B)))))"
    by (simp_all add: fold_bin_simps fold_div_def z m b norm_4 lo_word_of_int sint_sx)
qed

lemma fold_cmp_4:
  "fold_bin IR_CMP A B 4 False B_GE = Some (if lo B \<le> lo A then 1 else 0)"
  "fold_bin IR_CMP A B 4 False B_GT = Some (if lo B < lo A then 1 else 0)"
  by (simp_all add: fold_bin_simps fold_cmp_def norm_4 word_le_nat_alt word_less_nat_alt unat_ucast_up)

end
