(* ===== verification/Ir_Sem.thy ===== *)
theory Ir_Sem
  imports Ir
begin

text \<open>
  What a function in EmbIR does.  The integer operations are computed, by the same
  definitions the compiler folds constants with (\<open>ir.h\<close>: ``the folders take them by the
  same definition''); labels, jumps, branches and switches move the position; every
  other instruction -- memory, calls, floating point, vectors, assembly -- is what a
  world, the parameter \<open>W\<close>, makes of it, and depends on nothing but the
  instruction, the values of the registers it reads and the world's own state.
\<close>

type_synonym env = "int \<Rightarrow> u64"

text \<open>A world: the instruction, the values read and the state give the values of the registers the
  instruction defines, a label to go to (an unwinding call, a computed goto), and the next state.\<close>

type_synonym 'm world = "ir_ins \<Rightarrow> u64 list \<Rightarrow> 'm \<Rightarrow> (u64 list \<times> int option \<times> 'm) option"

datatype 'm ir_state = Run nat env 'm | Done "u64 list" 'm

section \<open>The step\<close>

definition opnd_b :: "env \<Rightarrow> ir_ins \<Rightarrow> u64" where
  "opnd_b \<rho> i = (if i_imm_b i then i_imm i else \<rho> (i_b i))"

definition wide_mul :: "ir_op \<Rightarrow> bool" where
  "wide_mul p \<longleftrightarrow> p \<in> {IR_MULH, IR_MULW}"

definition bin_op :: "ir_op \<Rightarrow> bool" where
  "bin_op p \<longleftrightarrow> p \<in> {IR_ADD, IR_SUB, IR_MUL, IR_DIV, IR_MOD, IR_AND, IR_OR, IR_XOR, IR_SHL, IR_SHR, IR_CMP}"

definition ir_value :: "env \<Rightarrow> ir_ins \<Rightarrow> u64 option" where
  "ir_value \<rho> i =
    (if i_w i \<noteq> 4 \<and> i_w i \<noteq> 8 then None
     else if i_op i = IR_CONST then Some (i_imm i)
     else if i_op i = IR_MOV then Some (\<rho> (i_a i))
     else if i_flt i then None
     else if i_op i = IR_NEG then Some (norm (- \<rho> (i_a i)) (i_w i))
     else if i_op i = IR_BNOT then Some (norm (NOT (\<rho> (i_a i))) (i_w i))
     else if i_op i = IR_EXT then Some (fold_ext (\<rho> (i_a i)) (i_size i) (i_sign i) (i_w i))
     else if wide_mul (i_op i) then
       fold_bin (i_op i) (\<rho> (i_a i)) (\<rho> (i_b i)) (i_w i) (i_sign i) (i_pred i)
     else if bin_op (i_op i) then
       fold_bin (i_op i) (\<rho> (i_a i)) (opnd_b \<rho> i) (i_w i) (i_sign i) (i_pred i)
     else None)"

fun label_pos :: "ir_ins list \<Rightarrow> int \<Rightarrow> nat option" where
  "label_pos [] l = None"
| "label_pos (i # is) l =
    (if i_op i = IR_LABEL \<and> i_label i = l then Some 0 else map_option Suc (label_pos is l))"

definition goto :: "ir_func \<Rightarrow> int \<Rightarrow> env \<Rightarrow> 'm \<Rightarrow> 'm ir_state option" where
  "goto fn l \<rho> \<mu> = map_option (\<lambda>n. Run n \<rho> \<mu>) (label_pos (f_ins fn) l)"

definition test_zero :: "env \<Rightarrow> ir_ins \<Rightarrow> bool" where
  "test_zero \<rho> i \<longleftrightarrow> (if i_w i = 8 then \<rho> (i_a i) = 0 else (ucast (\<rho> (i_a i)) :: u32) = 0)"

definition switch_index :: "env \<Rightarrow> ir_ins \<Rightarrow> nat" where
  "switch_index \<rho> i = (if i_w i = 8 then unat (\<rho> (i_a i)) else unat (ucast (\<rho> (i_a i)) :: u32))"

definition switch_label :: "ir_func \<Rightarrow> env \<Rightarrow> ir_ins \<Rightarrow> int" where
  "switch_label fn \<rho> i =
    (let t = f_jt fn ! i_jt i; k = switch_index \<rho> i
     in if k < length t then t ! k else i_label i)"

primrec upd_all :: "int list \<Rightarrow> u64 list \<Rightarrow> env \<Rightarrow> env" where
  "upd_all [] xs \<rho> = \<rho>"
| "upd_all (v # vs) xs \<rho> = (case xs of [] \<Rightarrow> \<rho> | x # xs' \<Rightarrow> upd_all vs xs' (\<rho>(v := x)))"

definition ir_effect :: "'m world \<Rightarrow> ir_func \<Rightarrow> ir_ins \<Rightarrow> nat \<Rightarrow> env \<Rightarrow> 'm \<Rightarrow> 'm ir_state option" where
  "ir_effect W fn i n \<rho> \<mu> =
    (if i_op i = IR_LABEL then Some (Run (n + 1) \<rho> \<mu>)
     else if i_op i = IR_JMP then goto fn (i_label i) \<rho> \<mu>
     else if i_op i = IR_BRZ then
       (if test_zero \<rho> i then goto fn (i_label i) \<rho> \<mu> else Some (Run (n + 1) \<rho> \<mu>))
     else if i_op i = IR_BRNZ then
       (if test_zero \<rho> i then Some (Run (n + 1) \<rho> \<mu>) else goto fn (i_label i) \<rho> \<mu>)
     else if i_op i = IR_SWITCH then goto fn (switch_label fn \<rho> i) \<rho> \<mu>
     else if i_op i = IR_RET then Some (Done (map \<rho> (each_read i)) \<mu>)
     else
       (case W i (map \<rho> (each_read i)) \<mu> of
          None \<Rightarrow> None
        | Some (vs, l, \<mu>') \<Rightarrow>
            (let \<rho>' = upd_all (def_targets i) vs \<rho>
             in if length vs \<noteq> length (def_targets i) then None
                else case l of None \<Rightarrow> Some (Run (n + 1) \<rho>' \<mu>') | Some l \<Rightarrow> goto fn l \<rho>' \<mu>')))"

fun ir_step :: "'m world \<Rightarrow> ir_func \<Rightarrow> 'm ir_state \<Rightarrow> 'm ir_state option" where
  "ir_step W fn (Run n \<rho> \<mu>) =
    (if n < length (f_ins fn) then
       (let i = f_ins fn ! n
        in case ir_value \<rho> i of
             Some v \<Rightarrow> Some (Run (n + 1) (\<rho>(i_dst i := v)) \<mu>)
           | None \<Rightarrow> ir_effect W fn i n \<rho> \<mu>)
     else None)"
| "ir_step W fn (Done vs \<mu>) = None"

primrec ir_steps :: "'m world \<Rightarrow> ir_func \<Rightarrow> nat \<Rightarrow> 'm ir_state \<Rightarrow> 'm ir_state option" where
  "ir_steps W fn 0 s = Some s"
| "ir_steps W fn (Suc k) s = Option.bind (ir_steps W fn k s) (ir_step W fn)"

text \<open>Straight-line code.\<close>

primrec eval_block :: "ir_ins list \<Rightarrow> env \<Rightarrow> env option" where
  "eval_block [] \<rho> = Some \<rho>"
| "eval_block (i # is) \<rho> = Option.bind (ir_value \<rho> i) (\<lambda>v. eval_block is (\<rho>(i_dst i := v)))"

lemma ir_steps_add: "ir_steps W fn (j + k) s = Option.bind (ir_steps W fn j s) (ir_steps W fn k)"
  by (induction k) (simp_all add: Option.bind_assoc)

lemma eval_block_append:
  "eval_block (xs @ ys) \<rho> = Option.bind (eval_block xs \<rho>) (eval_block ys)"
  by (induction xs arbitrary: \<rho>) (simp_all add: Option.bind_assoc)

lemma block_steps:
  assumes "eval_block blk \<rho> = Some \<rho>'" "f_ins fn = pre @ blk @ post"
  shows "ir_steps W fn (length blk) (Run (length pre) \<rho> \<mu>) = Some (Run (length pre + length blk) \<rho>' \<mu>)"
  using assms
proof (induction blk arbitrary: pre \<rho>)
  case (Cons i blk)
  then obtain v where v: "ir_value \<rho> i = Some v" and blk: "eval_block blk (\<rho>(i_dst i := v)) = Some \<rho>'"
    by (auto simp: Option.bind_eq_Some_conv)
  have "ir_step W fn (Run (length pre) \<rho> \<mu>) = Some (Run (length (pre @ [i])) (\<rho>(i_dst i := v)) \<mu>)"
    using v Cons.prems(2) by simp
  moreover have "ir_steps W fn (length blk) (Run (length (pre @ [i])) (\<rho>(i_dst i := v)) \<mu>) =
      Some (Run (length (pre @ [i]) + length blk) \<rho>' \<mu>)"
    by (rule Cons.IH [OF blk]) (simp add: Cons.prems(2))
  ultimately show ?case
    using ir_steps_add [of W fn 1 "length blk"] by simp
qed simp

section \<open>What a step reads and writes\<close>

lemma ir_value_cong:
  assumes "\<And>v. v \<in> set (each_read i) \<Longrightarrow> \<rho> v = \<rho>' v"
  shows "ir_value \<rho> i = ir_value \<rho>' i"
proof -
  have a: "i_op i \<in> {IR_MOV, IR_NEG, IR_BNOT, IR_EXT} \<Longrightarrow> \<rho> (i_a i) = \<rho>' (i_a i)"
    unfolding insert_iff empty_iff by (elim disjE FalseE) (rule assms, simp add: each_read_def)+
  have w: "wide_mul (i_op i) \<Longrightarrow> \<rho> (i_a i) = \<rho>' (i_a i) \<and> \<rho> (i_b i) = \<rho>' (i_b i)"
    unfolding wide_mul_def insert_iff empty_iff
    by (elim disjE FalseE) (intro conjI assms; simp add: each_read_def)+
  have "bin_op (i_op i) \<Longrightarrow> each_read i = i_a i # (if \<not> i_imm_b i then [i_b i] else [])"
    unfolding bin_op_def insert_iff empty_iff by (elim disjE FalseE) (simp_all add: each_read_def)
  then have b: "bin_op (i_op i) \<Longrightarrow> \<rho> (i_a i) = \<rho>' (i_a i) \<and> opnd_b \<rho> i = opnd_b \<rho>' i"
    using assms by (auto simp: opnd_b_def)
  show ?thesis
    unfolding ir_value_def by (intro if_cong refl) (use a w b in simp_all)
qed

lemma ir_value_target: "ir_value \<rho> i = Some v \<Longrightarrow> def_target i = i_dst i \<and> i_op i \<noteq> IR_LANDING"
proof -
  have "writes_temp p \<and> p \<noteq> IR_LANDING \<and> p \<noteq> IR_STVAR"
    if "wide_mul p \<or> bin_op p \<or> p \<in> {IR_CONST, IR_MOV, IR_NEG, IR_BNOT, IR_EXT}" for p
    using that by (auto simp: writes_temp_def bin_op_def wide_mul_def)
  moreover assume "ir_value \<rho> i = Some v"
  then have "wide_mul (i_op i) \<or> bin_op (i_op i) \<or> i_op i \<in> {IR_CONST, IR_MOV, IR_NEG, IR_BNOT, IR_EXT}"
    by (auto simp: ir_value_def split: if_split_asm)
  ultimately show ?thesis
    by (simp add: def_target_def)
qed

end
