(* ===== verification/Ir_Rewrite.thy ===== *)
theory Ir_Rewrite
  imports Ir_Sem
begin

text \<open>
  The argument shared by the passes that replace single instructions by straight-line
  code over fresh registers: what \<open>compute_defs\<close> (\<open>src/opt/util.c\<close>) says about a register with
  one definition, the value such a register holds wherever its definition has been
  passed, and the locale \<open>block_pass\<close>, in which every run of a function is followed by
  the rewritten one.
\<close>

section \<open>Registers with one definition\<close>

definition counted_targets :: "int \<Rightarrow> ir_ins \<Rightarrow> int list" where
  "counted_targets nv i = (if i_op i = IR_LANDING then filter (\<lambda>v. 0 \<le> v \<and> v < nv) (def_targets i) else def_targets i)"

primrec def_pairs :: "int \<Rightarrow> ir_ins list \<Rightarrow> int \<Rightarrow> (int \<times> int) list" where
  "def_pairs nv [] n = []"
| "def_pairs nv (i # is) n = map (\<lambda>v. (v, n)) (counted_targets nv i) @ def_pairs nv is (n + 1)"

abbreviation count_pairs :: "(int \<times> int) list \<Rightarrow> defs \<Rightarrow> defs" where
  "count_pairs \<equiv> fold (\<lambda>(v, n). count_def v n)"

lemma count_ins_pairs: "count_ins nv i n d = count_pairs (map (\<lambda>v. (v, n)) (counted_targets nv i)) d"
  by (auto simp: count_ins_def counted_targets_def def_targets_def)

lemma count_code_pairs: "count_code nv is n d = count_pairs (def_pairs nv is n) d"
  by (induction "is" arbitrary: n d) (simp_all add: count_ins_pairs)

lemma def_pairs_iff:
  "(v, m) \<in> set (def_pairs nv is n) \<longleftrightarrow> (\<exists>k < length is. m = n + int k \<and> v \<in> set (counted_targets nv (is ! k)))"
proof (induction "is" arbitrary: n)
  case (Cons i "is")
  have "(\<exists>k < length (i # is). m = n + int k \<and> v \<in> set (counted_targets nv ((i # is) ! k))) \<longleftrightarrow>
      m = n \<and> v \<in> set (counted_targets nv i) \<or> (\<exists>k < length is. m = n + 1 + int k \<and> v \<in> set (counted_targets nv (is ! k)))"
    by (simp add: Ex_less_Suc2 add_ac)
  then show ?case
    by (auto simp: Cons.IH)
qed simp

lemma count_pairs_cnt: "d_cnt (count_pairs L d) v = d_cnt d v + int (length (filter (\<lambda>p. fst p = v) L))"
  by (induction L arbitrary: d) (auto simp: count_def_def)

lemma count_pairs_none: "filter (\<lambda>p. fst p = v) L = [] \<Longrightarrow> d_ins (count_pairs L d) v = d_ins d v"
  by (induction L arbitrary: d) (auto simp: count_def_def split: if_splits)

lemma count_pairs_one:
  "filter (\<lambda>p. fst p = v) L = [(v, n)] \<Longrightarrow> d_cnt d v = 0 \<Longrightarrow> d_ins (count_pairs L d) v = n"
  by (induction L arbitrary: d) (auto simp: count_def_def count_pairs_none split: if_splits)

lemma sole_definition:
  assumes "d_cnt (compute_defs fn) v = 1" "0 \<le> d_ins (compute_defs fn) v"
  defines "m \<equiv> nat (d_ins (compute_defs fn) v)"
  shows "m < length (f_ins fn)" "v \<in> set (counted_targets (f_nvregs fn) (f_ins fn ! m))"
    "k < length (f_ins fn) \<Longrightarrow> v \<in> set (counted_targets (f_nvregs fn) (f_ins fn ! k)) \<Longrightarrow> k = m"
proof -
  define L where "L = def_pairs (f_nvregs fn) (f_ins fn) 0"
  define d where "d = \<lparr>d_cnt = (\<lambda>v. if 0 \<le> v \<and> v < f_nparams fn \<and> v < f_nvregs fn then 1 else (0 :: int)), d_ins = (\<lambda>_. - 1 :: int)\<rparr>"
  have cd: "compute_defs fn = count_pairs L d"
    unfolding compute_defs_def count_code_pairs L_def d_def ..
  have "0 < length (filter (\<lambda>p. fst p = v) L)"
    using assms(2) count_pairs_none [of v L d] unfolding cd by (auto simp: d_def)
  moreover have "0 \<le> d_cnt d v" "d_cnt d v + int (length (filter (\<lambda>p. fst p = v) L)) = 1"
    using assms(1) unfolding cd count_pairs_cnt by (auto simp: d_def)
  ultimately have d0: "d_cnt d v = 0" and "length (filter (\<lambda>p. fst p = v) L) = 1"
    by linarith+
  then obtain q where q: "filter (\<lambda>p. fst p = v) L = [q]"
    by (auto simp: length_Suc_conv)
  have "\<forall>p \<in> set (filter (\<lambda>p. fst p = v) L). fst p = v"
    by simp
  then have "fst q = v"
    unfolding q by simp
  then obtain n where n: "q = (v, n)"
    by (cases q) auto
  have mn: "int m = n"
    using count_pairs_one [OF q [unfolded n] d0] assms(2) by (simp add: m_def cd)
  have iff: "(v, j) \<in> set L \<longleftrightarrow> j = n" for j
  proof -
    have "(v, j) \<in> set L \<longleftrightarrow> (v, j) \<in> set (filter (\<lambda>p. fst p = v) L)"
      by simp
    then show ?thesis
      unfolding q n by simp
  qed
  have "k < length (f_ins fn) \<and> v \<in> set (counted_targets (f_nvregs fn) (f_ins fn ! k)) \<longleftrightarrow> (v, int k) \<in> set L" for k
    unfolding L_def def_pairs_iff by auto
  then have "k < length (f_ins fn) \<and> v \<in> set (counted_targets (f_nvregs fn) (f_ins fn ! k)) \<longleftrightarrow> k = m" for k
    by (simp only: iff mn [symmetric] of_nat_eq_iff)
  then show "m < length (f_ins fn)" "v \<in> set (counted_targets (f_nvregs fn) (f_ins fn ! m))"
    "k < length (f_ins fn) \<Longrightarrow> v \<in> set (counted_targets (f_nvregs fn) (f_ins fn ! k)) \<Longrightarrow> k = m"
    by blast+
qed


text \<open>A value the instruction may leave in a register it defines, from the registers \<open>\<rho>\<close>.\<close>

definition made_from :: "'m world \<Rightarrow> env \<Rightarrow> ir_ins \<Rightarrow> u64 \<Rightarrow> bool" where
  "made_from W \<rho> i x \<longleftrightarrow>
    (case ir_value \<rho> i of
       Some y \<Rightarrow> x = y
     | None \<Rightarrow> \<exists>\<mu> vs l \<mu>'. W i (map \<rho> (each_read i)) \<mu> = Some (vs, l, \<mu>') \<and> x \<in> set vs)"

lemma upd_all_other: "v \<notin> set vs \<Longrightarrow> upd_all vs xs \<rho> v = \<rho> v"
  by (induction vs arbitrary: xs \<rho>) (auto split: list.splits)

lemma upd_all_in:
  "v \<in> set vs \<Longrightarrow> length xs = length vs \<Longrightarrow> upd_all vs xs \<rho> v \<in> set xs"
proof (induction vs arbitrary: xs \<rho>)
  case (Cons u vs)
  then show ?case
    by (cases "v \<in> set vs") (auto simp: upd_all_other split: list.splits)
qed simp

lemma step_changes:
  assumes "ir_step W fn (Run n \<rho> \<mu>) = Some (Run n' \<rho>' \<mu>')" "0 \<le> v"
  shows "n < length (f_ins fn)" "v \<notin> set (def_targets (f_ins fn ! n)) \<Longrightarrow> \<rho>' v = \<rho> v"
    "v \<in> set (def_targets (f_ins fn ! n)) \<Longrightarrow> made_from W \<rho> (f_ins fn ! n) (\<rho>' v)"
proof -
  let ?i = "f_ins fn ! n"
  show n: "n < length (f_ins fn)"
    using assms(1) by (auto split: if_splits)
  have "(v \<notin> set (def_targets ?i) \<longrightarrow> \<rho>' v = \<rho> v) \<and> (v \<in> set (def_targets ?i) \<longrightarrow> made_from W \<rho> ?i (\<rho>' v))"
  proof (cases "ir_value \<rho> ?i")
    case (Some x)
    then have "def_targets ?i = (if i_dst ?i < 0 then [] else [i_dst ?i])"
      using ir_value_target by (auto simp: def_targets_def)
    then show ?thesis
      using assms n Some by (auto simp: made_from_def)
  next
    case None
    have "i_op ?i \<in> {IR_LABEL, IR_JMP, IR_BRZ, IR_BRNZ, IR_SWITCH, IR_RET} \<Longrightarrow> def_targets ?i = []"
      unfolding insert_iff empty_iff by (elim disjE FalseE) (simp_all add: def_targets_def def_target_def writes_temp_def)
    then show ?thesis
      using assms n None
      by (auto simp: ir_effect_def goto_def Let_def upd_all_other split: if_split_asm option.split_asm)
        (auto simp: made_from_def intro!: exI upd_all_in)
  qed
  then show "v \<notin> set (def_targets ?i) \<Longrightarrow> \<rho>' v = \<rho> v" "v \<in> set (def_targets ?i) \<Longrightarrow> made_from W \<rho> ?i (\<rho>' v)"
    by auto
qed


section \<open>A definition that comes first\<close>

text \<open>Every run that reaches a use of a register with one definition has passed that definition: what the
  front end guarantees of the temporaries it makes.\<close>

definition defs_first :: "'m world \<Rightarrow> ir_func \<Rightarrow> env \<Rightarrow> 'm \<Rightarrow> bool" where
  "defs_first W fn \<rho>0 \<mu>0 \<longleftrightarrow>
    (\<forall>k n \<rho> \<mu> v. ir_steps W fn k (Run 0 \<rho>0 \<mu>0) = Some (Run n \<rho> \<mu>) \<and> n < length (f_ins fn) \<and>
       v \<in> set (each_read (f_ins fn ! n)) \<and> 0 \<le> v \<and> v < f_nvregs fn \<and>
       d_cnt (compute_defs fn) v = 1 \<and> 0 \<le> d_ins (compute_defs fn) v \<longrightarrow>
       (\<exists>j < k. \<exists>\<rho>' \<mu>'. ir_steps W fn j (Run 0 \<rho>0 \<mu>0) = Some (Run (nat (d_ins (compute_defs fn) v)) \<rho>' \<mu>')))"

text \<open>What the definitions say of the registers an instruction reads, to the depth \<open>d\<close> of definitions.\<close>

primrec known :: "nat \<Rightarrow> 'm world \<Rightarrow> ir_func \<Rightarrow> nat \<Rightarrow> env \<Rightarrow> bool" where
  "known 0 W fn n \<rho> \<longleftrightarrow> True"
| "known (Suc d) W fn n \<rho> \<longleftrightarrow>
    (\<forall>v \<in> set (each_read (f_ins fn ! n)). 0 \<le> v \<and> v < f_nvregs fn \<and>
       d_cnt (compute_defs fn) v = 1 \<and> 0 \<le> d_ins (compute_defs fn) v \<longrightarrow>
       (\<exists>\<rho>'. known d W fn (nat (d_ins (compute_defs fn) v)) \<rho>' \<and>
          made_from W \<rho>' (f_ins fn ! nat (d_ins (compute_defs fn) v)) (\<rho> v)))"

definition known_at :: "'m world \<Rightarrow> ir_func \<Rightarrow> nat \<Rightarrow> env \<Rightarrow> bool" where
  "known_at W fn n \<rho> \<longleftrightarrow> (\<forall>d. known d W fn n \<rho>)"

lemma counted_targets_iff: "0 \<le> v \<Longrightarrow> v < nv \<Longrightarrow> v \<in> set (counted_targets nv i) \<longleftrightarrow> v \<in> set (def_targets i)"
  by (simp add: counted_targets_def)

lemma sole_value_kept:
  assumes d: "d_cnt (compute_defs fn) v = 1" "0 \<le> d_ins (compute_defs fn) v" and v: "0 \<le> v" "v < f_nvregs fn"
    and m: "m = nat (d_ins (compute_defs fn) v)" and here: "ir_steps W fn j s = Some (Run m \<rho>0 \<mu>0)"
    and run: "ir_steps W fn (j + Suc k) s = Some (Run n \<rho> \<mu>)"
  shows "\<exists>i \<rho>' \<mu>'. ir_steps W fn i s = Some (Run m \<rho>' \<mu>') \<and> made_from W \<rho>' (f_ins fn ! m) (\<rho> v)"
  using run
proof (induction k arbitrary: n \<rho> \<mu>)
  case 0
  have "v \<in> set (def_targets (f_ins fn ! m))"
    using sole_definition(2) [OF d] v by (simp add: counted_targets_iff m)
  moreover have st: "ir_step W fn (Run m \<rho>0 \<mu>0) = Some (Run n \<rho> \<mu>)"
    using 0 here by simp
  ultimately have "made_from W \<rho>0 (f_ins fn ! m) (\<rho> v)"
    by (intro step_changes(3) [OF st v(1)])
  then show ?case
    using here by blast
next
  case (Suc k)
  obtain u where u: "ir_steps W fn (j + Suc k) s = Some u" "ir_step W fn u = Some (Run n \<rho> \<mu>)"
    using Suc.prems by (auto simp: Option.bind_eq_Some_conv)
  then obtain n' \<rho>' \<mu>' where run: "u = Run n' \<rho>' \<mu>'"
    by (cases u) auto
  note st = step_changes [OF u(2) [unfolded run] v(1)]
  show ?case
  proof (cases "v \<in> set (def_targets (f_ins fn ! n'))")
    case True
    then have "n' = m"
      using sole_definition(3) [OF d st(1)] v by (simp add: counted_targets_iff m)
    then show ?thesis
      using st(3) [OF True] u(1) run by blast
  next
    case False
    then show ?thesis
      using st(2) Suc.IH [OF u(1) [unfolded run]] by simp
  qed
qed

lemma defs_first_known_to:
  assumes "defs_first W fn \<rho>0 \<mu>0" "ir_steps W fn k (Run 0 \<rho>0 \<mu>0) = Some (Run n \<rho> \<mu>)" "n < length (f_ins fn)"
  shows "known d W fn n \<rho>"
  using assms(2,3)
proof (induction d arbitrary: k n \<rho> \<mu>)
  case (Suc d)
  show ?case
    unfolding known.simps
  proof (intro ballI impI, elim conjE)
    fix v
    assume v: "v \<in> set (each_read (f_ins fn ! n))" "0 \<le> v" "v < f_nvregs fn"
      and d: "d_cnt (compute_defs fn) v = 1" "0 \<le> d_ins (compute_defs fn) v"
    define m where "m = nat (d_ins (compute_defs fn) v)"
    obtain j \<rho>' \<mu>' where j: "j < k" "ir_steps W fn j (Run 0 \<rho>0 \<mu>0) = Some (Run m \<rho>' \<mu>')"
      using assms(1) Suc.prems v d unfolding defs_first_def m_def by meson
    then obtain i where "k = j + Suc i"
      using less_imp_Suc_add by auto
    then obtain i \<rho>'' \<mu>'' where "ir_steps W fn i (Run 0 \<rho>0 \<mu>0) = Some (Run m \<rho>'' \<mu>'')" "made_from W \<rho>'' (f_ins fn ! m) (\<rho> v)"
      using sole_value_kept [OF d v(2,3) m_def j(2)] Suc.prems(1) by blast
    moreover have "m < length (f_ins fn)"
      using sole_definition(1) [OF d] by (simp add: m_def)
    ultimately show "\<exists>\<rho>'. known d W fn (nat (d_ins (compute_defs fn) v)) \<rho>' \<and>
        made_from W \<rho>' (f_ins fn ! nat (d_ins (compute_defs fn) v)) (\<rho> v)"
      using Suc.IH unfolding m_def [symmetric] by blast
  qed
qed simp

lemma defs_first_known:
  assumes "defs_first W fn \<rho>0 \<mu>0" "ir_steps W fn k (Run 0 \<rho>0 \<mu>0) = Some (Run n \<rho> \<mu>)" "n < length (f_ins fn)"
  shows "known_at W fn n \<rho>"
  unfolding known_at_def using defs_first_known_to [OF assms] by blast


section \<open>Passes that replace instructions by straight-line code\<close>

definition agree :: "int \<Rightarrow> env \<Rightarrow> env \<Rightarrow> bool" where
  "agree nv \<rho> \<rho>' \<longleftrightarrow> (\<forall>v < nv. \<rho> v = \<rho>' v)"

text \<open>Agreement but for the registers of \<open>Z\<close>, of which only what a 32-bit test for zero sees agrees.\<close>

definition zagree :: "int set \<Rightarrow> int \<Rightarrow> env \<Rightarrow> env \<Rightarrow> bool" where
  "zagree Z nv \<rho> \<rho>' \<longleftrightarrow>
    (\<forall>v < nv. if v \<in> Z then (ucast (\<rho> v) :: u32) = 0 \<longleftrightarrow> (ucast (\<rho>' v) :: u32) = 0 else \<rho> v = \<rho>' v)"

lemma zagree_empty: "zagree {} nv \<rho> \<rho>' \<longleftrightarrow> agree nv \<rho> \<rho>'"
  by (simp add: zagree_def agree_def)

lemma zagree_refl: "zagree Z nv \<rho> \<rho>"
  by (simp add: zagree_def)

lemma zagree_upd: "zagree Z nv \<rho> \<rho>' \<Longrightarrow> zagree Z nv (\<rho>(v := x)) (\<rho>'(v := x))"
  by (auto simp: zagree_def)

lemma zagree_upd_all: "zagree Z nv \<rho> \<rho>' \<Longrightarrow> zagree Z nv (upd_all vs xs \<rho>) (upd_all vs xs \<rho>')"
  by (induction vs arbitrary: xs \<rho> \<rho>') (auto intro: zagree_upd split: list.splits)

definition new_pos :: "ir_ins list list \<Rightarrow> nat \<Rightarrow> nat" where
  "new_pos bs n = length (concat (take n bs))"

fun matches :: "int set \<Rightarrow> int \<Rightarrow> ir_ins list list \<Rightarrow> 'm ir_state \<Rightarrow> 'm ir_state \<Rightarrow> bool" where
  "matches Z nv bs (Run n \<rho> \<mu>) (Run n' \<rho>' \<mu>') \<longleftrightarrow> n' = new_pos bs n \<and> zagree Z nv \<rho> \<rho>' \<and> \<mu>' = \<mu>"
| "matches Z nv bs (Done vs \<mu>) s \<longleftrightarrow> s = Done vs \<mu>"
| "matches Z nv bs _ _ \<longleftrightarrow> False"

definition well_numbered :: "ir_func \<Rightarrow> bool" where
  "well_numbered fn \<longleftrightarrow>
    (\<forall>i \<in> set (f_ins fn). (\<forall>v \<in> set (each_read i). v < f_nvregs fn) \<and> (\<forall>v \<in> set (def_targets i). v < f_nvregs fn))"

text \<open>The instruction at \<open>n\<close> does the same on registers that agree: it reads none of \<open>Z\<close>, or only tests one for zero.\<close>

definition keeps :: "'m world \<Rightarrow> int set \<Rightarrow> ir_func \<Rightarrow> nat \<Rightarrow> bool" where
  "keeps W Z fn n \<longleftrightarrow>
    (let i = f_ins fn ! n
     in \<forall>\<rho> \<rho>'. known_at W fn n \<rho> \<and> zagree Z (f_nvregs fn) \<rho> \<rho>' \<longrightarrow>
          ir_value \<rho>' i = ir_value \<rho> i \<and>
          (map \<rho>' (each_read i) = map \<rho> (each_read i) \<or> ir_value \<rho> i \<noteq> None \<or>
           (i_op i = IR_BRZ \<or> i_op i = IR_BRNZ) \<and> test_zero \<rho>' i = test_zero \<rho> i))"

definition replaces :: "'m world \<Rightarrow> int set \<Rightarrow> ir_func \<Rightarrow> nat \<Rightarrow> ir_ins list \<Rightarrow> bool" where
  "replaces W Z fn n blk \<longleftrightarrow> blk \<noteq> [] \<and> i_op (f_ins fn ! n) \<noteq> IR_LABEL \<and> (\<forall>i \<in> set blk. i_op i \<noteq> IR_LABEL) \<and>
    (\<forall>\<rho> \<rho>' \<mu>. known_at W fn n \<rho> \<and> zagree Z (f_nvregs fn) \<rho> \<rho>' \<and> ir_step W fn (Run n \<rho> \<mu>) \<noteq> None \<longrightarrow>
      (\<exists>v \<rho>''. ir_value \<rho> (f_ins fn ! n) = Some v \<and> eval_block blk \<rho>' = Some \<rho>'' \<and>
        zagree Z (f_nvregs fn) (\<rho>(i_dst (f_ins fn ! n) := v)) \<rho>''))"

lemma label_pos_append:
  "label_pos (xs @ ys) l =
    (case label_pos xs l of Some k \<Rightarrow> Some k | None \<Rightarrow> map_option (\<lambda>k. length xs + k) (label_pos ys l))"
  by (cases "label_pos ys l"; induction xs) (auto split: option.splits)

lemma label_pos_none: "\<forall>i \<in> set xs. i_op i \<noteq> IR_LABEL \<Longrightarrow> label_pos xs l = None"
  by (induction xs) auto

lemma label_pos_blocks:
  assumes "list_all2 (\<lambda>b i. b = [i] \<or> i_op i \<noteq> IR_LABEL \<and> (\<forall>j \<in> set b. i_op j \<noteq> IR_LABEL)) bs code"
  shows "label_pos (concat bs) l = map_option (new_pos bs) (label_pos code l)"
  using assms
proof (induction rule: list_all2_induct)
  case (Cons b bs i code)
  have pos: "new_pos (b # bs) \<circ> Suc = (\<lambda>n. length b + new_pos bs n)" "new_pos (b # bs) 0 = 0"
    by (auto simp: new_pos_def)
  from Cons.hyps(1) show ?case
  proof
    assume "b = [i]"
    then show ?thesis
      using Cons.IH pos by (auto simp: option.map_comp comp_def)
  next
    assume "i_op i \<noteq> IR_LABEL \<and> (\<forall>j \<in> set b. i_op j \<noteq> IR_LABEL)"
    then show ?thesis
      using Cons.IH pos by (auto simp: label_pos_append label_pos_none option.map_comp comp_def)
  qed
qed simp

lemma concat_split:
  assumes "n < length bs"
  shows "concat bs = concat (take n bs) @ bs ! n @ concat (drop (Suc n) bs)"
    "new_pos bs (Suc n) = new_pos bs n + length (bs ! n)"
proof -
  have "bs = take n bs @ bs ! n # drop (Suc n) bs"
    using assms by (rule id_take_nth_drop)
  then show "concat bs = concat (take n bs) @ bs ! n @ concat (drop (Suc n) bs)"
    by (metis concat.simps(2) concat_append)
  show "new_pos bs (Suc n) = new_pos bs n + length (bs ! n)"
    using assms by (simp add: new_pos_def take_Suc_conv_app_nth)
qed

lemma reads_agree:
  assumes "well_numbered fn" "n < length (f_ins fn)" "zagree Z (f_nvregs fn) \<rho> \<rho>'" "set (each_read (f_ins fn ! n)) \<inter> Z = {}"
  shows "map \<rho>' (each_read (f_ins fn ! n)) = map \<rho> (each_read (f_ins fn ! n))"
proof (rule map_cong [OF refl])
  fix v
  assume v: "v \<in> set (each_read (f_ins fn ! n))"
  then have "v < f_nvregs fn"
    using assms(1) nth_mem [OF assms(2)] unfolding well_numbered_def by blast
  moreover have "v \<notin> Z"
    using assms(4) v by blast
  ultimately show "\<rho>' v = \<rho> v"
    using assms(3) by (simp add: zagree_def)
qed

lemma keeps_untested:
  assumes "well_numbered fn" "n < length (f_ins fn)" "set (each_read (f_ins fn ! n)) \<inter> Z = {}"
  shows "keeps W Z fn n"
proof -
  have "ir_value \<rho>' (f_ins fn ! n) = ir_value \<rho> (f_ins fn ! n)" if "zagree Z (f_nvregs fn) \<rho> \<rho>'" for \<rho> \<rho>'
    using reads_agree [OF assms(1,2) that assms(3)] by (intro ir_value_cong) auto
  then show ?thesis
    using reads_agree [OF assms(1,2) _ assms(3)] unfolding keeps_def Let_def by blast
qed

lemma tests_read:
  "i_op i = IR_BRZ \<or> i_op i = IR_BRNZ \<or> i_op i = IR_SWITCH \<Longrightarrow> each_read i = [i_a i]"
  by (elim disjE) (simp_all add: each_read_def)

text \<open>\<open>fn'\<close> is \<open>fn\<close> with each instruction kept or replaced by a block.\<close>

definition block_rewrite :: "'m world \<Rightarrow> int set \<Rightarrow> ir_func \<Rightarrow> ir_func \<Rightarrow> ir_ins list list \<Rightarrow> bool" where
  "block_rewrite W Z fn fn' bs \<longleftrightarrow> f_ins fn' = concat bs \<and> f_jt fn' = f_jt fn \<and> length bs = length (f_ins fn) \<and>
    (\<forall>n < length (f_ins fn). bs ! n = [f_ins fn ! n] \<and> keeps W Z fn n \<or> replaces W Z fn n (bs ! n))"

lemma block_rewriteD:
  assumes "block_rewrite W Z fn fn' bs"
  shows "f_ins fn' = concat bs" "f_jt fn' = f_jt fn" "length bs = length (f_ins fn)"
    "n < length (f_ins fn) \<Longrightarrow> bs ! n = [f_ins fn ! n] \<and> keeps W Z fn n \<or> replaces W Z fn n (bs ! n)"
  using assms unfolding block_rewrite_def by blast+

lemma label_moves:
  assumes "block_rewrite W Z fn fn' bs"
  shows "label_pos (f_ins fn') l = map_option (new_pos bs) (label_pos (f_ins fn) l)"
  unfolding block_rewriteD(1) [OF assms]
proof (rule label_pos_blocks, rule list_all2_all_nthI)
  show "length bs = length (f_ins fn)"
    by (rule block_rewriteD(3) [OF assms])
  fix n
  assume "n < length bs"
  then show "bs ! n = [f_ins fn ! n] \<or>
      i_op (f_ins fn ! n) \<noteq> IR_LABEL \<and> (\<forall>j \<in> set (bs ! n). i_op j \<noteq> IR_LABEL)"
    using block_rewriteD(4) [OF assms, of n] block_rewriteD(3) [OF assms] by (auto simp: replaces_def)
qed

lemma goto_matches:
  assumes "block_rewrite W Z fn fn' bs" "goto fn l \<rho> \<mu> = Some s" "zagree Z (f_nvregs fn) \<rho> \<rho>'"
  shows "\<exists>s'. goto fn' l \<rho>' \<mu> = Some s' \<and> matches Z (f_nvregs fn) bs s s'"
  using assms by (auto simp: goto_def label_moves [OF assms(1)])

lemma effect_matches:
  assumes pre: "block_rewrite W Z fn fn' bs" and agree: "zagree Z (f_nvregs fn) \<rho> \<rho>'"
    and reads: "map \<rho>' (each_read (f_ins fn ! n)) = map \<rho> (each_read (f_ins fn ! n))"
    and eff: "ir_effect W fn (f_ins fn ! n) n \<rho> \<mu> = Some s" and next_pos: "new_pos bs (Suc n) = new_pos bs n + 1"
  shows "\<exists>s'. ir_effect W fn' (f_ins fn ! n) (new_pos bs n) \<rho>' \<mu> = Some s' \<and>
    matches Z (f_nvregs fn) bs s s'"
proof -
  let ?i = "f_ins fn ! n"
  have tests: "i_op ?i = IR_BRZ \<or> i_op ?i = IR_BRNZ \<or> i_op ?i = IR_SWITCH \<Longrightarrow> \<rho>' (i_a ?i) = \<rho> (i_a ?i)"
    using reads tests_read [of ?i] by auto
  then have zero: "i_op ?i = IR_BRZ \<or> i_op ?i = IR_BRNZ \<Longrightarrow> test_zero \<rho>' ?i = test_zero \<rho> ?i"
    and switch: "i_op ?i = IR_SWITCH \<Longrightarrow> switch_label fn' \<rho>' ?i = switch_label fn \<rho> ?i"
    by (auto simp: test_zero_def switch_label_def switch_index_def block_rewriteD(2) [OF pre])
  have upd: "zagree Z (f_nvregs fn) (upd_all vs xs \<rho>) (upd_all vs xs \<rho>')" for vs xs
    by (rule zagree_upd_all [OF agree])
  note jump = goto_matches [OF pre _ agree] goto_matches [OF pre _ upd]
  from eff show ?thesis
    unfolding ir_effect_def
    by (auto simp: next_pos reads zero switch agree upd Let_def intro: jump split: if_split_asm option.split_asm)
qed

lemma branch_matches:
  assumes pre: "block_rewrite W Z fn fn' bs" and agree: "zagree Z (f_nvregs fn) \<rho> \<rho>'"
    and test: "i_op (f_ins fn ! n) = IR_BRZ \<or> i_op (f_ins fn ! n) = IR_BRNZ" "test_zero \<rho>' (f_ins fn ! n) = test_zero \<rho> (f_ins fn ! n)"
    and eff: "ir_effect W fn (f_ins fn ! n) n \<rho> \<mu> = Some s" and next_pos: "new_pos bs (Suc n) = new_pos bs n + 1"
  shows "\<exists>s'. ir_effect W fn' (f_ins fn ! n) (new_pos bs n) \<rho>' \<mu> = Some s' \<and>
    matches Z (f_nvregs fn) bs s s'"
  using test eff goto_matches [OF pre _ agree]
  by (elim disjE) (auto simp: ir_effect_def next_pos agree split: if_split_asm)

lemma kept_step_matches:
  assumes pre: "block_rewrite W Z fn fn' bs" and known: "known_at W fn n \<rho>" and agree: "zagree Z (f_nvregs fn) \<rho> \<rho>'"
    and step: "ir_step W fn (Run n \<rho> \<mu>) = Some s" and keep: "bs ! n = [f_ins fn ! n]" "keeps W Z fn n"
  shows "\<exists>s'. ir_step W fn' (Run (new_pos bs n) \<rho>' \<mu>) = Some s' \<and> matches Z (f_nvregs fn) bs s s'"
proof -
  let ?i = "f_ins fn ! n" and ?pre = "concat (take n bs)"
  have n: "n < length (f_ins fn)" "n < length bs"
    using step block_rewriteD(3) [OF pre] by (auto split: if_splits)
  note split = concat_split [OF n(2), unfolded keep(1)]
  have here: "new_pos bs n < length (f_ins fn')" "f_ins fn' ! new_pos bs n = ?i"
    unfolding new_pos_def block_rewriteD(1) [OF pre] split(1) by simp_all
  have next_pos: "new_pos bs (Suc n) = new_pos bs n + 1"
    using split(2) by simp
  have same: "ir_value \<rho>' ?i = ir_value \<rho> ?i" "map \<rho>' (each_read ?i) = map \<rho> (each_read ?i) \<or> ir_value \<rho> ?i \<noteq> None \<or>
      (i_op ?i = IR_BRZ \<or> i_op ?i = IR_BRNZ) \<and> test_zero \<rho>' ?i = test_zero \<rho> ?i"
    using keep(2) known agree unfolding keeps_def Let_def by blast+
  show ?thesis
  proof (cases "ir_value \<rho> ?i")
    case (Some v)
    then show ?thesis
      using step n here same(1) next_pos by (auto intro: zagree_upd [OF agree])
  next
    case None
    then have "ir_effect W fn ?i n \<rho> \<mu> = Some s"
      using step n by simp
    then have "\<exists>s'. ir_effect W fn' ?i (new_pos bs n) \<rho>' \<mu> = Some s' \<and> matches Z (f_nvregs fn) bs s s'"
      using same(2) None effect_matches [OF pre agree _ _ next_pos] branch_matches [OF pre agree _ _ _ next_pos] by blast
    then show ?thesis
      using here same(1) None by simp
  qed
qed

lemma step_matches:
  assumes pre: "block_rewrite W Z fn fn' bs" and known: "known_at W fn n \<rho>" and agree: "zagree Z (f_nvregs fn) \<rho> \<rho>'"
    and step: "ir_step W fn (Run n \<rho> \<mu>) = Some s"
  shows "\<exists>k s'. ir_steps W fn' (Suc k) (Run (new_pos bs n) \<rho>' \<mu>) = Some s' \<and>
    matches Z (f_nvregs fn) bs s s'"
proof -
  let ?i = "f_ins fn ! n" and ?b = "bs ! n" and ?pre = "concat (take n bs)"
  have n: "n < length (f_ins fn)" "n < length bs"
    using step block_rewriteD(3) [OF pre] by (auto split: if_splits)
  show ?thesis
    using block_rewriteD(4) [OF pre n(1)]
  proof (elim disjE conjE)
    assume "?b = [?i]" "keeps W Z fn n"
    then show ?thesis
      using kept_step_matches [OF pre known agree step] by (intro exI [of _ 0]) simp
  next
    assume "replaces W Z fn n ?b"
    then obtain v \<rho>'' where b: "?b \<noteq> []" "ir_value \<rho> ?i = Some v" "eval_block ?b \<rho>' = Some \<rho>''"
      "zagree Z (f_nvregs fn) (\<rho>(i_dst ?i := v)) \<rho>''"
      using known agree step unfolding replaces_def by (metis option.distinct(1))
    obtain k where k: "length ?b = Suc k"
      using b(1) by (cases ?b) auto
    have ins: "f_ins fn' = ?pre @ ?b @ concat (drop (Suc n) bs)"
      unfolding block_rewriteD(1) [OF pre] by (rule concat_split(1) [OF n(2)])
    have pos: "new_pos bs n = length ?pre"
      by (simp add: new_pos_def)
    have "ir_steps W fn' (Suc k) (Run (new_pos bs n) \<rho>' \<mu>) = Some (Run (new_pos bs (Suc n)) \<rho>'' \<mu>)"
      using block_steps [OF b(3) ins] unfolding k concat_split(2) [OF n(2)] pos [symmetric] by simp
    moreover have "s = Run (Suc n) (\<rho>(i_dst ?i := v)) \<mu>"
      using b(2) step n by simp
    ultimately show ?thesis
      using b(4) by (intro exI [of _ k] exI conjI) auto
  qed
qed

lemma run_matches:
  assumes "block_rewrite W Z fn fn' bs" "defs_first W fn \<rho>0 \<mu>0"
    "ir_steps W fn k (Run 0 \<rho>0 \<mu>0) = Some s"
  shows "\<exists>k' s'. k \<le> k' \<and> ir_steps W fn' k' (Run 0 \<rho>0 \<mu>0) = Some s' \<and> matches Z (f_nvregs fn) bs s s'"
  using assms(3)
proof (induction k arbitrary: s)
  case 0
  then show ?case
    by (intro exI [of _ 0]) (auto simp: new_pos_def zagree_refl)
next
  case (Suc k)
  then obtain t where t: "ir_steps W fn k (Run 0 \<rho>0 \<mu>0) = Some t" "ir_step W fn t = Some s"
    by (auto simp: Option.bind_eq_Some_conv)
  then obtain n \<rho> \<mu> where run: "t = Run n \<rho> \<mu>"
    by (cases t) auto
  obtain k' t' where k': "k \<le> k'" "ir_steps W fn' k' (Run 0 \<rho>0 \<mu>0) = Some t'" "matches Z (f_nvregs fn) bs t t'"
    using Suc.IH [OF t(1)] by blast
  then obtain \<rho>' where t': "t' = Run (new_pos bs n) \<rho>' \<mu>" "zagree Z (f_nvregs fn) \<rho> \<rho>'"
    unfolding run by (cases t') auto
  have n: "n < length (f_ins fn)"
    using t(2) unfolding run by (auto split: if_splits)
  note known = defs_first_known [OF assms(2) t(1) [unfolded run] n]
  obtain j s' where j: "ir_steps W fn' (Suc j) t' = Some s'" "matches Z (f_nvregs fn) bs s s'"
    using step_matches [OF assms(1) known t'(2) t(2) [unfolded run]] unfolding t'(1) by blast
  have "ir_steps W fn' (k' + Suc j) (Run 0 \<rho>0 \<mu>0) = Some s'"
    unfolding ir_steps_add k'(2) using j(1) by simp
  then show ?case
    using j(2) k'(1) by (intro exI [of _ "k' + Suc j"] exI [of _ s']) auto
qed

text \<open>A pass all of whose results are such rewritings, on the functions it is meant for.\<close>

locale block_pass =
  fixes pass :: "ir_func \<Rightarrow> ir_func option" and pre :: "'m world \<Rightarrow> ir_func \<Rightarrow> bool"
  assumes ends: "pre W fn \<Longrightarrow> \<exists>fn'. pass fn = Some fn'"
    and blockwise: "pre W fn \<Longrightarrow> pass fn = Some fn' \<Longrightarrow> \<exists>Z bs. block_rewrite W Z fn fn' bs"
begin

lemma pass_preserves:
  assumes "pre W fn" "defs_first W fn \<rho> \<mu>"
  shows "\<exists>fn'. pass fn = Some fn' \<and>
    (\<forall>k vs \<mu>'. ir_steps W fn k (Run 0 \<rho> \<mu>) = Some (Done vs \<mu>') \<longrightarrow>
       (\<exists>k'. ir_steps W fn' k' (Run 0 \<rho> \<mu>) = Some (Done vs \<mu>'))) \<and>
    ((\<forall>k. ir_steps W fn k (Run 0 \<rho> \<mu>) \<noteq> None) \<longrightarrow> (\<forall>k. ir_steps W fn' k (Run 0 \<rho> \<mu>) \<noteq> None))"
proof -
  obtain fn' Z bs where fn': "pass fn = Some fn'" "block_rewrite W Z fn fn' bs"
    using ends [OF assms(1)] blockwise [OF assms(1)] by blast
  note sim = run_matches [OF fn'(2) assms(2)]
  have "\<exists>k'. ir_steps W fn' k' (Run 0 \<rho> \<mu>) = Some (Done vs \<mu>')" if "ir_steps W fn k (Run 0 \<rho> \<mu>) = Some (Done vs \<mu>')" for k vs \<mu>'
    using sim [OF that] by auto
  moreover have "ir_steps W fn' k (Run 0 \<rho> \<mu>) \<noteq> None" if forever: "\<forall>k. ir_steps W fn k (Run 0 \<rho> \<mu>) \<noteq> None" for k
  proof -
    obtain s where "ir_steps W fn k (Run 0 \<rho> \<mu>) = Some s"
      using forever by blast
    then obtain k' s' where "k \<le> k'" "ir_steps W fn' k' (Run 0 \<rho> \<mu>) = Some s'"
      using sim by blast
    then show ?thesis
      using ir_steps_add [of W fn' k "k' - k" "Run 0 \<rho> \<mu>"] by (cases "ir_steps W fn' k (Run 0 \<rho> \<mu>)") auto
  qed
  ultimately show ?thesis
    using fn'(1) by blast
qed

end

end
