(* ===== verification/Magic.thy ===== *)
theory Magic
  imports Emb_Prelude "HOL-Library.Signed_Division"
begin

text \<open>
  The numbers behind division by a constant (\<open>src/opt/divmagic.c\<close>): the unsigned and
  the signed multiplier with its shift, the multiplier for a dividend of at most 16
  bits, and the constants of the divisibility test.  The loops that compute them are
  modelled on 64-bit words as the C has them; the lemmas show that they end and that
  multiply and shift give the quotient for every dividend.
\<close>

section \<open>A multiplier that divides\<close>

lemma next_multiple:
  fixes x d :: nat
  assumes "0 < d"
  shows "x + (d - x mod d) = d * Suc (x div d)"
proof -
  have "x = d * (x div d) + x mod d" "x mod d < d"
    using assms by simp_all
  then show ?thesis
    unfolding mult_Suc_right by linarith
qed

lemma magic_quotient:
  fixes x m d e p :: nat
  assumes m: "m * d = 2 ^ p + e" and d: "0 < d" and bound: "x * e < (d - x mod d) * 2 ^ p"
  shows "x * m div 2 ^ p = x div d"
proof (rule div_nat_eqI)
  have xmd: "x * m * d = x * 2 ^ p + x * e"
    using m by (simp add: mult.assoc add_mult_distrib2)
  have "2 ^ p * (x div d) * d \<le> 2 ^ p * x"
    unfolding mult.assoc by (intro mult_le_mono2 div_times_less_eq_dividend)
  also have "\<dots> \<le> x * m * d"
    unfolding xmd by (simp add: mult.commute)
  finally have "2 ^ p * (x div d) * d \<le> x * m * d" .
  then show "2 ^ p * (x div d) \<le> x * m"
    using d by simp
  have "x * m * d < x * 2 ^ p + (d - x mod d) * 2 ^ p"
    using xmd bound by simp
  also have "\<dots> = (x + (d - x mod d)) * 2 ^ p"
    by (simp add: add_mult_distrib)
  also have "x + (d - x mod d) = d * Suc (x div d)"
    by (rule next_multiple [OF d])
  finally have "x * m * d < (2 ^ p * Suc (x div d)) * d"
    by (simp only: mult_ac)
  then show "x * m < 2 ^ p * Suc (x div d)"
    using mult_less_cancel2 by blast
qed

lemma magic_quotient_up:
  fixes x m d e p :: nat
  assumes m: "m * d = 2 ^ p + e" and d: "0 < d" and "0 < x" "0 < e" and bound: "x * e \<le> (d - x mod d) * 2 ^ p"
  shows "(x * m - 1) div 2 ^ p = x div d"
proof (rule div_nat_eqI)
  have xmd: "x * m * d = x * 2 ^ p + x * e"
    using m by (simp add: mult.assoc add_mult_distrib2)
  have "2 ^ p * (x div d) * d \<le> x * 2 ^ p"
    unfolding mult.assoc mult.commute [of x] by (intro mult_le_mono2 div_times_less_eq_dividend)
  also have "\<dots> < x * m * d"
    using xmd assms by simp
  finally have "2 ^ p * (x div d) < x * m"
    using mult_less_cancel2 by blast
  then show "2 ^ p * (x div d) \<le> x * m - 1"
    by simp
  have "x * m * d \<le> x * 2 ^ p + (d - x mod d) * 2 ^ p"
    using xmd bound by simp
  also have "\<dots> = (x + (d - x mod d)) * 2 ^ p"
    by (simp add: add_mult_distrib)
  also have "x + (d - x mod d) = d * Suc (x div d)"
    by (rule next_multiple [OF d])
  finally have "x * m * d \<le> (2 ^ p * Suc (x div d)) * d"
    by (simp only: mult_ac)
  then have "x * m \<le> 2 ^ p * Suc (x div d)"
    using d mult_le_cancel2 by blast
  moreover have "0 < x * m"
    using assms by (metis add_gr_0 mult_is_0 neq0_conv)
  ultimately show "x * m - 1 < 2 ^ p * Suc (x div d)"
    by linarith
qed

text \<open>The largest value below a bound whose remainder is the greatest one.\<close>

definition last_full :: "nat \<Rightarrow> nat \<Rightarrow> nat" where
  "last_full N d = N - 1 - N mod d"

lemma last_full_bounds:
  assumes "0 < d" "d \<le> N"
  shows "last_full N d + 1 = N div d * d" "d \<le> last_full N d + 1" "last_full N d < N"
proof -
  have "1 \<le> N div d"
    using assms by (metis One_nat_def Suc_leI div_greater_zero_iff)
  then have "d \<le> N div d * d"
    by (metis mult.commute mult_le_mono2 nat_mult_1_right)
  moreover have "N = N div d * d + N mod d"
    by simp
  ultimately show "last_full N d + 1 = N div d * d" "d \<le> last_full N d + 1" "last_full N d < N"
    using assms(1) unfolding last_full_def by linarith+
qed

lemma magic_bound:
  fixes x d e N P :: nat
  assumes d: "0 < d" "d \<le> N" and c: "last_full N d * e < P" and x: "x < N \<or> x = N \<and> N mod d + 1 < d"
  shows "x * e < (d - x mod d) * P"
proof (cases "x \<le> last_full N d")
  case True
  then have "x * e < P"
    using c by (meson le_less_trans mult_le_mono1)
  also have "P \<le> (d - x mod d) * P"
    using d by (simp add: Suc_leI)
  finally show ?thesis .
next
  case False
  let ?n = "last_full N d"
  note b = last_full_bounds [OF d]
  define j where "j = x - (?n + 1)"
  have xj: "x = N div d * d + j"
    using False b(1) unfolding j_def by linarith
  have "N = N div d * d + N mod d" "N mod d < d"
    using d(1) by simp_all
  then have jd: "j + 1 < d"
    using x xj by linarith
  have xm: "x mod d = j"
    using xj jd by simp
  have "x \<le> 2 * ?n"
    using xj jd b by linarith
  then have "x * e \<le> 2 * (?n * e)"
    by (metis mult.assoc mult_le_mono1)
  also have "\<dots> < 2 * P"
    using c by simp
  also have "\<dots> \<le> (d - x mod d) * P"
    using xm jd by (intro mult_le_mono1) linarith
  finally show ?thesis .
qed

section \<open>The unsigned multiplier\<close>

record magicu =
  mu_m :: u64
  mu_add :: bool
  mu_s :: nat

record mu_state =
  ms_p :: nat
  ms_q1 :: u64
  ms_r1 :: u64
  ms_q2 :: u64
  ms_r2 :: u64
  ms_add :: bool

definition magic_u32_body :: "u64 \<Rightarrow> u64 \<Rightarrow> mu_state \<Rightarrow> mu_state" where
  "magic_u32_body d nc s =
    (let q1 = ms_q1 s; r1 = ms_r1 s; q2 = ms_q2 s; r2 = ms_r2 s; c = r2 + 1 \<ge> d - r2
     in \<lparr>ms_p = ms_p s + 1,
         ms_q1 = (if r1 \<ge> nc - r1 then 2 * q1 + 1 else 2 * q1),
         ms_r1 = (if r1 \<ge> nc - r1 then 2 * r1 - nc else 2 * r1),
         ms_q2 = (if c then 2 * q2 + 1 else 2 * q2),
         ms_r2 = (if c then 2 * r2 + 1 - d else 2 * r2 + 1),
         ms_add = (ms_add s \<or> (if c then q2 \<ge> 0x7FFFFFFF else q2 \<ge> 0x80000000))\<rparr>)"

definition magic_u32_again :: "u64 \<Rightarrow> mu_state \<Rightarrow> bool" where
  "magic_u32_again d s =
    (let delta = d - 1 - ms_r2 s
     in ms_p s < 64 \<and> (ms_q1 s < delta \<or> (ms_q1 s = delta \<and> ms_r1 s = 0)))"

function magic_u32_loop :: "u64 \<Rightarrow> u64 \<Rightarrow> mu_state \<Rightarrow> mu_state" where
  "magic_u32_loop d nc s =
    (let s' = magic_u32_body d nc s
     in if magic_u32_again d s' then magic_u32_loop d nc s' else s')"
  by auto
termination
  by (relation "measure (\<lambda>(d, nc, s). 64 - ms_p s)")
    (auto simp: magic_u32_again_def magic_u32_body_def Let_def)

declare magic_u32_loop.simps [simp del]

definition magic_u32 :: "u64 \<Rightarrow> magicu" where
  "magic_u32 d =
    (let nc = 0xFFFFFFFF - (0xFFFFFFFF - d + 1) mod d;
         q1 = 0x80000000 div nc; r1 = 0x80000000 - q1 * nc;
         q2 = 0x7FFFFFFF div d; r2 = 0x7FFFFFFF - q2 * d;
         s = magic_u32_loop d nc
               \<lparr>ms_p = 31, ms_q1 = q1, ms_r1 = r1, ms_q2 = q2, ms_r2 = r2, ms_add = False\<rparr>
     in \<lparr>mu_m = (ms_q2 s + 1) AND 0xFFFFFFFF, mu_add = ms_add s, mu_s = ms_p s - 32\<rparr>)"

lemma pow2_vals:
  "(2 :: nat) ^ 31 = 2147483648" "(2 :: nat) ^ 32 = 4294967296" "(2 :: nat) ^ 33 = 8589934592"
  "(2 :: nat) ^ 64 = 18446744073709551616"
  "(2 :: int) ^ 31 = 2147483648" "(2 :: int) ^ 32 = 4294967296"
  by simp_all

lemma double_div_mod:
  fixes a b n :: nat
  assumes "0 < n" "b \<le> 1"
  shows "(2 * a + b) div n = (if n - a mod n \<le> a mod n + b then 2 * (a div n) + 1 else 2 * (a div n))"
    and "(2 * a + b) mod n = (if n - a mod n \<le> a mod n + b then 2 * (a mod n) + b - n else 2 * (a mod n) + b)"
proof -
  define q r where "q = a div n" and "r = a mod n"
  have r: "r < n" and a: "a = q * n + r"
    using assms by (simp_all add: q_def r_def)
  let ?c = "n - r \<le> r + b"
  define k s where "k = (if ?c then 2 * q + 1 else 2 * q)" and "s = (if ?c then 2 * r + b - n else 2 * r + b)"
  have "2 * a + b = k * n + s"
    using r unfolding a k_def s_def by (auto simp: algebra_simps)
  moreover have "s < n"
    using r assms(2) unfolding s_def by auto
  ultimately have "(2 * a + b) div n = k \<and> (2 * a + b) mod n = s"
    by simp
  then show "(2 * a + b) div n = (if n - a mod n \<le> a mod n + b then 2 * (a div n) + 1 else 2 * (a div n))"
    and "(2 * a + b) mod n = (if n - a mod n \<le> a mod n + b then 2 * (a mod n) + b - n else 2 * (a mod n) + b)"
    by (simp_all add: q_def r_def k_def s_def)
qed

lemma unat_add_ok: "unat x + unat y < 2 ^ 64 \<Longrightarrow> unat (x + y :: u64) = unat x + unat y"
  by (simp add: unat_word_ariths)

lemma unat_mult_ok: "unat x * unat y < 2 ^ 64 \<Longrightarrow> unat (x * y :: u64) = unat x * unat y"
  by (simp add: unat_word_ariths)

lemma double_step:
  fixes q r n b :: u64
  assumes q: "unat q = a div unat n" and r: "unat r = a mod unat n" and n: "n \<noteq> 0" "unat n < 2 ^ 63"
    and b: "unat b \<le> 1" and fits: "(2 * a + unat b) div unat n < 2 ^ 64"
  shows "n - r \<le> r + b \<longleftrightarrow> unat n - unat r \<le> unat r + unat b"
    and "unat (if n - r \<le> r + b then 2 * q + 1 else 2 * q) = (2 * a + unat b) div unat n"
    and "unat (if n - r \<le> r + b then 2 * r + b - n else 2 * r + b) = (2 * a + unat b) mod unat n"
proof -
  have n0: "0 < unat n"
    using n by (simp add: unat_gt_0)
  have rn: "unat r < unat n"
    using n0 r by simp
  note dm = double_div_mod [OF n0 b, of a, folded q r]
  have two_r: "unat (2 * r) = 2 * unat r"
    using unat_mult_ok [of 2 r] rn n by simp
  have rb: "unat (2 * r + b) = 2 * unat r + unat b" "unat (r + b) = unat r + unat b"
    using rn n b by (simp_all add: unat_add_ok two_r)
  have nr: "unat (n - r) = unat n - unat r"
    using rn by (simp add: unat_sub word_le_nat_alt)
  show c: "n - r \<le> r + b \<longleftrightarrow> unat n - unat r \<le> unat r + unat b"
    by (simp add: word_le_nat_alt nr rb)
  have two_q: "unat (2 * q) = 2 * unat q"
    using unat_mult_ok [of 2 q] fits unfolding dm by (simp split: if_splits)
  have "unat (2 * q + 1) = 2 * unat q + 1" if "unat n - unat r \<le> unat r + unat b"
    using that fits unfolding dm by (simp add: unat_add_ok two_q)
  then show "unat (if n - r \<le> r + b then 2 * q + 1 else 2 * q) = (2 * a + unat b) div unat n"
    unfolding dm c using two_q by simp
  have "unat (2 * r + b - n) = 2 * unat r + unat b - unat n" if "unat n - unat r \<le> unat r + unat b"
    using that rn by (simp add: unat_sub word_le_nat_alt rb)
  then show "unat (if n - r \<le> r + b then 2 * r + b - n else 2 * r + b) = (2 * a + unat b) mod unat n"
    unfolding dm c using rb by simp
qed

definition mu_inv :: "nat \<Rightarrow> nat \<Rightarrow> mu_state \<Rightarrow> bool" where
  "mu_inv d nc s \<longleftrightarrow> 31 \<le> ms_p s \<and> ms_p s \<le> 64 \<and>
     unat (ms_q1 s) = 2 ^ ms_p s div nc \<and> unat (ms_r1 s) = 2 ^ ms_p s mod nc \<and>
     unat (ms_q2 s) = (2 ^ ms_p s - 1) div d \<and> unat (ms_r2 s) = (2 ^ ms_p s - 1) mod d \<and>
     (ms_add s \<longleftrightarrow> 2 ^ 32 \<le> (2 ^ ms_p s - 1) div d + 1)"

lemma mu_inv_body:
  assumes inv: "mu_inv (unat d) (unat nc) s" and d: "1 < unat d" "unat d < 2 ^ 32"
    and nc: "1 < unat nc" "unat nc < 2 ^ 32" and p: "ms_p s < 64"
  shows "mu_inv (unat d) (unat nc) (magic_u32_body d nc s)"
proof -
  let ?p = "ms_p s"
  have p64: "(2 :: nat) ^ ?p \<le> 2 ^ 63"
    using p by (intro power_increasing) auto
  have n0: "0 < unat d"
    using d by simp
  have half: "(2 * x + c) div k < 2 ^ 64" if "2 * x + c \<le> 2 ^ 64" "1 < k" for x c k :: nat
    using that by (cases "2 * x + c = 0") (auto intro: less_le_trans [OF div_less_dividend])
  have e: "(1 :: nat) \<le> 2 ^ ?p"
    by simp
  have A: "2 ^ (?p + 1) = 2 * 2 ^ ?p + unat (0 :: u64)"
    by simp
  have B: "2 ^ (?p + 1) - 1 = 2 * (2 ^ ?p - 1) + unat (1 :: u64)"
    using e unfolding unsigned_1 power_add power_one_right by linarith
  have i1: "unat (ms_q1 s) = 2 ^ ?p div unat nc" "unat (ms_r1 s) = 2 ^ ?p mod unat nc"
    and i2: "unat (ms_q2 s) = (2 ^ ?p - 1) div unat d" "unat (ms_r2 s) = (2 ^ ?p - 1) mod unat d"
    and ia: "ms_add s \<longleftrightarrow> 2 ^ 32 \<le> unat (ms_q2 s) + 1" and ip: "31 \<le> ?p"
    using inv unfolding mu_inv_def by auto
  have f1: "(2 * 2 ^ ?p + unat (0 :: u64)) div unat nc < 2 ^ 64"
    by (rule half) (use nc p64 in auto)
  have f2: "(2 * (2 ^ ?p - 1) + unat (1 :: u64)) div unat d < 2 ^ 64"
    by (rule half) (use d p64 in auto)
  have z: "nc \<noteq> 0" "d \<noteq> 0" "unat nc < 2 ^ 63" "unat d < 2 ^ 63" "unat (0 :: u64) \<le> 1" "unat (1 :: u64) \<le> 1"
    using nc d by auto
  note s1 = double_step [OF i1 z(1,3,5) f1, folded A, unfolded add_0_right]
  note s2 = double_step [OF i2 z(2,4,6) f2, folded B]
  have "(if d - ms_r2 s \<le> ms_r2 s + 1 then 0x7FFFFFFF \<le> ms_q2 s else 0x80000000 \<le> ms_q2 s) \<or> ms_add s \<longleftrightarrow>
      2 ^ 32 \<le> (2 ^ (?p + 1) - 1) div unat d + 1"
    unfolding ia B double_div_mod(1) [OF n0 z(6)] i2 [symmetric] s2(1) by (auto simp: word_le_nat_alt)
  then show ?thesis
    using ip p unfolding mu_inv_def magic_u32_body_def Let_def
    by (simp add: s1(2,3) s2(2,3) disj_commute)
qed

lemma quotient_compare:
  fixes a n k :: nat
  assumes "0 < n"
  shows "a div n < k \<or> (a div n = k \<and> a mod n = 0) \<longleftrightarrow> a \<le> n * k"
proof -
  define q r where "q = a div n" and "r = a mod n"
  have a: "a = n * q + r" and r: "r < n"
    using assms by (simp_all add: q_def r_def)
  have "q < k \<or> (q = k \<and> r = 0) \<longleftrightarrow> n * q + r \<le> n * k"
  proof (cases q k rule: linorder_cases)
    case less
    then have "n * Suc q \<le> n * k"
      by (intro mult_le_mono2) simp
    then show ?thesis
      using less r by simp
  next
    case greater
    then have "n * Suc k \<le> n * q"
      by (intro mult_le_mono2) simp
    then show ?thesis
      using greater r by simp
  qed simp
  then show ?thesis
    by (simp add: a [symmetric] flip: q_def r_def)
qed

lemma mu_again_iff:
  assumes "mu_inv (unat d) (unat nc) s" "1 < unat d" "1 < unat nc"
  shows "magic_u32_again d s \<longleftrightarrow>
    ms_p s < 64 \<and> 2 ^ ms_p s \<le> unat nc * (unat d - 1 - (2 ^ ms_p s - 1) mod unat d)"
proof -
  have i: "unat (ms_q1 s) = 2 ^ ms_p s div unat nc" "unat (ms_r1 s) = 2 ^ ms_p s mod unat nc"
    "unat (ms_r2 s) = (2 ^ ms_p s - 1) mod unat d"
    using assms(1) unfolding mu_inv_def by auto
  have "unat (ms_r2 s) < unat d"
    using assms(2) i(3) by simp
  then have "ms_r2 s \<le> d - 1" "1 \<le> d"
    using assms(2) by (auto simp: word_le_nat_alt unat_sub)
  then have "unat (d - 1 - ms_r2 s) = unat d - 1 - (2 ^ ms_p s - 1) mod unat d"
    by (simp add: unat_sub i(3))
  moreover have "0 < unat nc"
    using assms(3) by simp
  note c = quotient_compare [OF this]
  ultimately show ?thesis
    unfolding magic_u32_again_def Let_def
    by (simp add: c [symmetric] word_less_nat_alt word_unat_eq_iff i(1,2))
qed

definition mu_excess :: "nat \<Rightarrow> nat \<Rightarrow> nat" where
  "mu_excess d p = d - 1 - (2 ^ p - 1) mod d"

lemma magic_u32_loop_ends:
  assumes "mu_inv (unat d) (unat nc) s" "1 < unat d" "unat d < 2 ^ 32" "1 < unat nc" "unat nc < 2 ^ 32" "ms_p s < 64"
  shows "\<exists>t. magic_u32_loop d nc s = t \<and> mu_inv (unat d) (unat nc) t \<and> ms_p s < ms_p t \<and>
    unat nc * mu_excess (unat d) (ms_p t) < 2 ^ ms_p t \<and>
    (ms_p t = ms_p s + 1 \<or> 2 ^ (ms_p t - 1) \<le> unat nc * mu_excess (unat d) (ms_p t - 1))"
  using assms
proof (induction d nc s rule: magic_u32_loop.induct)
  case (1 d nc s)
  let ?s = "magic_u32_body d nc s"
  have p: "ms_p ?s = ms_p s + 1"
    by (simp add: magic_u32_body_def Let_def)
  note inv = mu_inv_body [OF "1.prems"]
  note again = mu_again_iff [OF inv "1.prems"(2,4), folded mu_excess_def]
  show ?case
  proof (cases "magic_u32_again d ?s")
    case True
    then have "ms_p ?s < 64" and low: "2 ^ ms_p ?s \<le> unat nc * mu_excess (unat d) (ms_p ?s)"
      using again by auto
    from "1.IH" [OF refl True inv "1.prems"(2-5) this(1)] low show ?thesis
      by (subst magic_u32_loop.simps) (use True p in \<open>auto simp: Let_def\<close>)
  next
    case False
    have "unat nc * mu_excess (unat d) 64 < 2 ^ 32 * 2 ^ 32"
      using "1.prems" by (intro mult_strict_mono) (auto simp: mu_excess_def)
    then have "unat nc * mu_excess (unat d) (ms_p ?s) < 2 ^ ms_p ?s" if "ms_p ?s = 64"
      using that by simp
    then have "unat nc * mu_excess (unat d) (ms_p ?s) < 2 ^ ms_p ?s"
      using again False p "1.prems"(6) by (cases "ms_p ?s = 64") auto
    then show ?thesis
      by (subst magic_u32_loop.simps) (use False p inv in \<open>auto simp: Let_def\<close>)
  qed
qed

text \<open>The multiplier the loop's state stands for: it exceeds \<open>2 ^ p / d\<close> by \<open>mu_excess\<close> parts of \<open>d\<close>,
  and the loop stops early enough to keep it below \<open>2 ^ 33\<close>.\<close>

lemma mu_multiplier:
  assumes "0 < d"
  shows "((2 ^ p - 1) div d + 1) * d = 2 ^ p + mu_excess d p"
proof -
  have "(2 ^ p - 1) div d * d + (2 ^ p - 1) mod d = (2 :: nat) ^ p - 1" "(2 ^ p - 1) mod d < d" "(1 :: nat) \<le> 2 ^ p"
    using assms by simp_all
  then show ?thesis
    unfolding mu_excess_def add_mult_distrib nat_mult_1 by linarith
qed

lemma mu_multiplier_bound:
  assumes d: "1 < d" "d < 2 ^ 32" and nc: "nc < 2 ^ 32"
    and p: "p = 32 \<or> 0 < p \<and> 2 ^ (p - 1) \<le> nc * mu_excess d (p - 1)"
  shows "(2 ^ p - 1) div d + 1 < 2 ^ 33"
proof -
  have d0: "0 < d"
    using d by simp
  have e: "mu_excess d q \<le> d - 1" for q
    by (simp add: mu_excess_def)
  from p have "2 ^ p \<le> 2 ^ 33 * (d - 1)"
  proof
    assume "0 < p \<and> 2 ^ (p - 1) \<le> nc * mu_excess d (p - 1)"
    moreover have "nc * mu_excess d (p - 1) \<le> 2 ^ 32 * (d - 1)"
      using nc e by (intro mult_le_mono) auto
    moreover have "0 < p \<Longrightarrow> (2 :: nat) ^ p = 2 * 2 ^ (p - 1)"
      by (cases p) auto
    ultimately show ?thesis
      by auto
  qed (use d in simp)
  moreover define M where "M = (2 ^ p - 1) div d + 1"
  ultimately have "M * d < 2 ^ 33 * d"
    using mu_multiplier [OF d0, of p, folded M_def] e [of p] d unfolding diff_mult_distrib2 pow2_vals by linarith
  then show ?thesis
    unfolding M_def
    using mult_less_cancel2 by blast
qed

lemma magic_u32_start:
  assumes d: "1 < unat d" "unat d < 2 ^ 32"
  defines "nc \<equiv> (0xFFFFFFFF :: u64) - (0xFFFFFFFF - d + 1) mod d"
  defines "q1 \<equiv> 0x80000000 div nc" and "q2 \<equiv> 0x7FFFFFFF div d"
  shows "unat nc = last_full (2 ^ 32) (unat d)" "1 < unat nc" "unat nc < 2 ^ 32"
    "mu_inv (unat d) (unat nc) \<lparr>ms_p = 31, ms_q1 = q1, ms_r1 = 0x80000000 - q1 * nc,
       ms_q2 = q2, ms_r2 = 0x7FFFFFFF - q2 * d, ms_add = False\<rparr>"
proof -
  have "unat (0xFFFFFFFF - d + 1) = 2 ^ 32 - unat d"
    using d(2) by (simp add: unat_sub word_le_nat_alt)
  then have md: "unat ((0xFFFFFFFF - d + 1) mod d) = 2 ^ 32 mod unat d"
    using d by (simp only: unat_mod) (simp add: le_mod_geq)
  have m: "2 ^ 32 mod unat d < unat d"
    using d by (intro mod_less_divisor) simp
  from less_trans [OF this d(2)] have "2 ^ 32 mod unat d \<le> 0xFFFFFFFF"
    unfolding pow2_vals by linarith
  then have "(0xFFFFFFFF - d + 1) mod d \<le> 0xFFFFFFFF"
    unfolding word_le_nat_alt md by simp
  then show nc: "unat nc = last_full (2 ^ 32) (unat d)"
    unfolding nc_def last_full_def by (simp only: unat_sub md) simp
  have b: "unat nc + 1 = 2 ^ 32 div unat d * unat d" "unat d \<le> unat nc + 1" "unat nc < 2 ^ 32"
    using last_full_bounds [of "unat d" "2 ^ 32"] d unfolding nc by auto
  then obtain R where "2 ^ 32 = (unat nc + 1) + R" "R < unat d"
    using m by (metis div_mult_mod_eq)
  then show "1 < unat nc" "unat nc < 2 ^ 32"
    using b(2,3) unfolding pow2_vals by linarith+
  show "mu_inv (unat d) (unat nc) \<lparr>ms_p = 31, ms_q1 = q1, ms_r1 = 0x80000000 - q1 * nc,
       ms_q2 = q2, ms_r2 = 0x7FFFFFFF - q2 * d, ms_add = False\<rparr>"
    unfolding mu_inv_def q1_def q2_def minus_div_mult_eq_mod using d
    by (simp add: unat_div unat_mod not_le le_less_trans [OF div_le_dividend])
qed

lemma magic_u32_quotient:
  assumes d: "1 < unat d" "unat d < 2 ^ 32"
  defines "m \<equiv> unat (mu_m (magic_u32 d)) + (if mu_add (magic_u32 d) then 2 ^ 32 else 0)"
    and "s \<equiv> mu_s (magic_u32 d)"
  shows "unat (mu_m (magic_u32 d)) < 2 ^ 32" "s \<le> 32" "mu_add (magic_u32 d) \<Longrightarrow> 0 < s"
    "x < 2 ^ 32 \<Longrightarrow> x * m div 2 ^ (32 + s) = x div unat d"
proof -
  let ?D = "unat d"
  note st = magic_u32_start [OF d]
  obtain t where t: "magic_u32 d = \<lparr>mu_m = (ms_q2 t + 1) AND 0xFFFFFFFF, mu_add = ms_add t, mu_s = ms_p t - 32\<rparr>"
    and inv: "mu_inv ?D (last_full (2 ^ 32) ?D) t" and p: "31 < ms_p t"
    and stop: "last_full (2 ^ 32) ?D * mu_excess ?D (ms_p t) < 2 ^ ms_p t"
    and low: "ms_p t = 32 \<or> 2 ^ (ms_p t - 1) \<le> last_full (2 ^ 32) ?D * mu_excess ?D (ms_p t - 1)"
    using magic_u32_loop_ends [OF st(4) d st(2,3)] unfolding magic_u32_def Let_def st(1) by auto
  let ?M = "(2 ^ ms_p t - 1) div ?D + 1"
  have nc: "last_full (2 ^ 32) ?D < 2 ^ 32"
    using st(1,3) by simp
  have M33: "?M < 2 ^ 33"
    using mu_multiplier_bound [OF d nc] low p by auto
  have q2: "unat (ms_q2 t) + 1 = ?M" and add: "ms_add t \<longleftrightarrow> 2 ^ 32 \<le> ?M" and p64: "ms_p t \<le> 64"
    using inv unfolding mu_inv_def by auto
  have "unat (ms_q2 t + 1) = ?M"
    using M33 q2 by (simp add: unat_add_ok)
  moreover have ff: "(0xFFFFFFFF :: u64) = mask 32"
    by (simp add: mask_eq_exp_minus_1)
  ultimately have m: "unat (mu_m (magic_u32 d)) = ?M mod 2 ^ 32"
    unfolding t ff by (simp add: unat_mod take_bit_eq_mod flip: take_bit_eq_mask)
  then show "unat (mu_m (magic_u32 d)) < 2 ^ 32" "s \<le> 32"
    using p64 by (simp_all add: s_def t)
  have ps: "ms_p t = 32 + s"
    using p by (simp add: s_def t)
  have mM: "m = ?M"
    unfolding m_def m using add M33 by (auto simp: t mod_if)
  have md: "m * ?D = 2 ^ (32 + s) + mu_excess ?D (32 + s)" and d0: "0 < ?D"
    using mu_multiplier [of ?D "32 + s"] d unfolding mM ps by auto
  show "0 < s" if "mu_add (magic_u32 d)"
  proof (rule ccontr)
    assume "\<not> 0 < s"
    then have "m * ?D = 2 ^ 32 + mu_excess ?D 32"
      using md by simp
    moreover have "2 ^ 32 * ?D \<le> m * ?D"
      using that add unfolding mM t by (intro mult_le_mono1) simp
    moreover have "mu_excess ?D 32 < ?D"
      using d0 by (simp add: mu_excess_def)
    ultimately show False
      using d unfolding pow2_vals by linarith
  qed
  show "x * m div 2 ^ (32 + s) = x div ?D" if "x < 2 ^ 32"
  proof (rule magic_quotient [OF md d0])
    show "x * mu_excess ?D (32 + s) < (?D - x mod ?D) * 2 ^ (32 + s)"
      using stop d that unfolding ps by (intro magic_bound [where N = "2 ^ 32"]) auto
  qed
qed

section \<open>The signed multiplier\<close>

record magics =
  sg_m :: u64
  sg_s :: nat

definition magic_s32_body :: "u64 \<Rightarrow> u64 \<Rightarrow> mu_state \<Rightarrow> mu_state" where
  "magic_s32_body ad anc s =
    (let q1 = 2 * ms_q1 s; r1 = 2 * ms_r1 s; q2 = 2 * ms_q2 s; r2 = 2 * ms_r2 s
     in s\<lparr>ms_p := ms_p s + 1,
          ms_q1 := (if r1 \<ge> anc then q1 + 1 else q1), ms_r1 := (if r1 \<ge> anc then r1 - anc else r1),
          ms_q2 := (if r2 \<ge> ad then q2 + 1 else q2), ms_r2 := (if r2 \<ge> ad then r2 - ad else r2)\<rparr>)"

definition magic_s32_again :: "u64 \<Rightarrow> mu_state \<Rightarrow> bool" where
  "magic_s32_again ad s =
    (let delta = ad - ms_r2 s in ms_q1 s < delta \<or> (ms_q1 s = delta \<and> ms_r1 s = 0))"

partial_function (option) magic_s32_loop :: "u64 \<Rightarrow> u64 \<Rightarrow> mu_state \<Rightarrow> mu_state option" where
  "magic_s32_loop ad anc s =
    (let s' = magic_s32_body ad anc s
     in if magic_s32_again ad s' then magic_s32_loop ad anc s' else Some s')"

definition magic_s32 :: "u64 \<Rightarrow> magics option" where
  "magic_s32 d =
    (let ad = (if d <s 0 then - d else d);
         t = 0x80000000 + (drop_bit 31 d AND 1);
         anc = t - 1 - t mod ad;
         q1 = 0x80000000 div anc; q2 = 0x80000000 div ad
     in Option.bind
          (magic_s32_loop ad anc
            \<lparr>ms_p = 31, ms_q1 = q1, ms_r1 = 0x80000000 - q1 * anc,
              ms_q2 = q2, ms_r2 = 0x80000000 - q2 * ad, ms_add = False\<rparr>)
          (\<lambda>s. let m = scast (ucast (ms_q2 s + 1) :: u32)
                in Some \<lparr>sg_m = (if d <s 0 then - m else m), sg_s = ms_p s - 32\<rparr>))"

definition sg_inv :: "nat \<Rightarrow> nat \<Rightarrow> mu_state \<Rightarrow> bool" where
  "sg_inv d nc s \<longleftrightarrow> 31 \<le> ms_p s \<and> ms_p s \<le> 63 \<and>
     unat (ms_q1 s) = 2 ^ ms_p s div nc \<and> unat (ms_r1 s) = 2 ^ ms_p s mod nc \<and>
     unat (ms_q2 s) = 2 ^ ms_p s div d \<and> unat (ms_r2 s) = 2 ^ ms_p s mod d"

lemma double_step_s:
  fixes q r n :: u64
  assumes q: "unat q = 2 ^ p div unat n" and r: "unat r = 2 ^ p mod unat n" and n: "1 < unat n" "unat n < 2 ^ 63"
    and p: "p < 63"
  shows "unat (if n \<le> 2 * r then 2 * q + 1 else 2 * q) = 2 ^ (p + 1) div unat n"
    and "unat (if n \<le> 2 * r then 2 * r - n else 2 * r) = 2 ^ (p + 1) mod unat n"
proof -
  have p64: "(2 :: nat) ^ p \<le> 2 ^ 63"
    using p by (intro power_increasing) auto
  have z: "n \<noteq> 0" "unat (0 :: u64) \<le> 1"
    using n by auto
  have "(2 :: nat) ^ Suc p < 2 ^ 64"
    using p by (intro power_strict_increasing) auto
  then have f: "(2 * 2 ^ p + unat (0 :: u64)) div unat n < 2 ^ 64"
    by (intro le_less_trans [OF div_le_dividend]) simp
  note ds = double_step [OF q r z(1) n(2) z(2) f]
  have rn: "unat r < unat n"
    using n r by simp
  then have "unat (2 * r) = 2 * unat r"
    using unat_mult_ok [of 2 r] n by simp
  then have "n \<le> 2 * r \<longleftrightarrow> n - r \<le> r + 0"
    unfolding ds(1) using rn by (auto simp: word_le_nat_alt)
  then show "unat (if n \<le> 2 * r then 2 * q + 1 else 2 * q) = 2 ^ (p + 1) div unat n"
    "unat (if n \<le> 2 * r then 2 * r - n else 2 * r) = 2 ^ (p + 1) mod unat n"
    using ds(2,3) by (simp_all split: if_split_asm)
qed

lemma sg_inv_body:
  assumes inv: "sg_inv (unat d) (unat nc) s" and d: "1 < unat d" "unat d \<le> 2 ^ 31"
    and nc: "1 < unat nc" "unat nc \<le> 2 ^ 31" and p: "ms_p s < 63"
  shows "sg_inv (unat d) (unat nc) (magic_s32_body d nc s)"
proof -
  have i1: "unat (ms_q1 s) = 2 ^ ms_p s div unat nc" "unat (ms_r1 s) = 2 ^ ms_p s mod unat nc"
    and i2: "unat (ms_q2 s) = 2 ^ ms_p s div unat d" "unat (ms_r2 s) = 2 ^ ms_p s mod unat d" and ip: "31 \<le> ms_p s"
    using inv unfolding sg_inv_def by auto
  have b: "unat nc < 2 ^ 63" "unat d < 2 ^ 63"
    using nc d by auto
  show ?thesis
    using double_step_s [OF i1 nc(1) b(1) p] double_step_s [OF i2 d(1) b(2) p] ip p
    unfolding sg_inv_def magic_s32_body_def Let_def by simp
qed

definition sg_excess :: "nat \<Rightarrow> nat \<Rightarrow> nat" where
  "sg_excess d p = d - 2 ^ p mod d"

lemma sg_again_iff:
  assumes "sg_inv (unat d) (unat nc) s" "1 < unat d" "1 < unat nc"
  shows "magic_s32_again d s \<longleftrightarrow> 2 ^ ms_p s \<le> unat nc * sg_excess (unat d) (ms_p s)"
proof -
  have i: "unat (ms_q1 s) = 2 ^ ms_p s div unat nc" "unat (ms_r1 s) = 2 ^ ms_p s mod unat nc"
    "unat (ms_r2 s) = 2 ^ ms_p s mod unat d"
    using assms(1) unfolding sg_inv_def by auto
  have "unat (ms_r2 s) < unat d"
    using assms(2) i(3) by simp
  then have "unat (d - ms_r2 s) = sg_excess (unat d) (ms_p s)"
    by (simp add: unat_sub i(3) word_le_nat_alt sg_excess_def)
  moreover have "0 < unat nc"
    using assms(3) by simp
  note c = quotient_compare [OF this]
  ultimately show ?thesis
    unfolding magic_s32_again_def Let_def
    by (simp add: c [symmetric] word_less_nat_alt word_unat_eq_iff i(1,2))
qed

lemma magic_s32_loop_ends:
  assumes "sg_inv (unat d) (unat nc) s" "1 < unat d" "unat d \<le> 2 ^ 31" "1 < unat nc" "unat nc \<le> 2 ^ 31" "ms_p s < 63"
  shows "\<exists>t. magic_s32_loop d nc s = Some t \<and> sg_inv (unat d) (unat nc) t \<and> ms_p s < ms_p t \<and>
    unat nc * sg_excess (unat d) (ms_p t) < 2 ^ ms_p t \<and>
    (ms_p t = ms_p s + 1 \<or> 2 ^ (ms_p t - 1) \<le> unat nc * sg_excess (unat d) (ms_p t - 1))"
  using assms
proof (induction "63 - ms_p s" arbitrary: s rule: less_induct)
  case less
  let ?s = "magic_s32_body d nc s"
  have p: "ms_p ?s = ms_p s + 1"
    by (simp add: magic_s32_body_def Let_def)
  note inv = sg_inv_body [OF less.prems]
  note again = sg_again_iff [OF inv less.prems(2,4)]
  show ?case
  proof (cases "magic_s32_again d ?s")
    case True
    then have low: "2 ^ ms_p ?s \<le> unat nc * sg_excess (unat d) (ms_p ?s)"
      using again by auto
    also have "unat nc * sg_excess (unat d) (ms_p ?s) \<le> 2 ^ 31 * 2 ^ 31"
      using less.prems by (intro mult_le_mono) (auto simp: sg_excess_def)
    also have "\<dots> < (2 :: nat) ^ 63"
      by simp
    finally have "ms_p ?s < 63"
      by (rule power_less_imp_less_exp [rotated]) simp
    with p have "63 - ms_p ?s < 63 - ms_p s"
      by simp
    from less.hyps [OF this inv less.prems(2-5) \<open>ms_p ?s < 63\<close>] low show ?thesis
      by (subst magic_s32_loop.simps) (use True p in \<open>auto simp: Let_def\<close>)
  next
    case False
    then show ?thesis
      by (subst magic_s32_loop.simps) (use False p inv again in \<open>auto simp: Let_def\<close>)
  qed
qed

lemma sg_multiplier:
  assumes "0 < d"
  shows "(2 ^ p div d + 1) * d = 2 ^ p + sg_excess d p"
proof -
  have "2 ^ p div d * d + 2 ^ p mod d = (2 :: nat) ^ p" "2 ^ p mod d < d"
    using assms by simp_all
  then show ?thesis
    unfolding sg_excess_def add_mult_distrib nat_mult_1 by linarith
qed

lemma sg_multiplier_bound:
  assumes d: "1 < d" "d \<le> 2 ^ 31" and N: "N = 2 ^ 31 \<or> N = 2 ^ 31 + 1"
    and p: "p = 32 \<or> 0 < p \<and> 2 ^ (p - 1) \<le> last_full N d * sg_excess d (p - 1)"
  shows "2 ^ p div d + 1 < 2 ^ 32"
proof (cases "p = 32")
  case True
  have "2 ^ 32 div d \<le> (2 :: nat) ^ 32 div 2"
    using d by (intro div_le_mono2) auto
  then show ?thesis
    using True by simp
next
  case False
  then have p0: "0 < p" and low: "2 ^ (p - 1) \<le> last_full N d * sg_excess d (p - 1)"
    using p by auto
  have d0: "0 < d"
    using d by simp
  have e: "sg_excess d q \<le> d" for q
    by (simp add: sg_excess_def)
  have b: "last_full N d + 1 = N div d * d" "last_full N d < N"
    using last_full_bounds [of d N] d N by auto
  have "last_full N d * sg_excess d (p - 1) \<le> 2 ^ 31 * d - d"
  proof (cases "last_full N d = 2 ^ 31")
    case True
    then have "d dvd 2 ^ 31 + 1"
      using b by (metis dvd_triv_right)
    moreover have "odd ((2 :: nat) ^ 31 + 1)"
      by simp
    ultimately have "odd d"
      using dvd_trans by blast
    then have "coprime d (2 ^ (p - 1))"
      by simp
    then have "\<not> d dvd 2 ^ (p - 1)"
      using coprime_absorb_left [of d "2 ^ (p - 1)"] d(1) by auto
    then have "2 ^ (p - 1) mod d \<noteq> 0"
      by (simp add: dvd_eq_mod_eq_0)
    then have "sg_excess d (p - 1) \<le> d - 1"
      by (simp add: sg_excess_def)
    then have "last_full N d * sg_excess d (p - 1) \<le> 2 ^ 31 * (d - 1)"
      unfolding True by (rule mult_le_mono2)
    then show ?thesis
      using d unfolding diff_mult_distrib2 pow2_vals by linarith
  next
    case False
    then have "last_full N d \<le> 2 ^ 31 - 1"
      using b(2) N by auto
    then have "last_full N d * sg_excess d (p - 1) \<le> (2 ^ 31 - 1) * d"
      using e by (intro mult_le_mono)
    then show ?thesis
      using d unfolding diff_mult_distrib pow2_vals by linarith
  qed
  moreover have "(2 :: nat) ^ p = 2 * 2 ^ (p - 1)"
    using p0 by (cases p) auto
  moreover define M where "M = 2 ^ p div d + 1"
  ultimately have "M * d < 2 ^ 32 * d"
    using sg_multiplier [OF d0, of p, folded M_def] e [of p] d low unfolding pow2_vals by linarith
  then show ?thesis
    unfolding M_def using mult_less_cancel2 by blast
qed

lemma neg_div_pos:
  fixes a k :: int
  assumes "0 < k"
  shows "(- a) div k = - ((a - 1) div k) - 1"
proof -
  define q r where "q = (a - 1) div k" and "r = (a - 1) mod k"
  have "- a = k * (- q - 1) + (k - 1 - r)" "0 \<le> k - 1 - r" "k - 1 - r < k"
    using assms mult_div_mod_eq [of k "a - 1"] pos_mod_bound [OF assms, of "a - 1"] pos_mod_sign [OF assms, of "a - 1"]
    by (auto simp: q_def r_def algebra_simps)
  then show ?thesis
    unfolding q_def [symmetric] by (rule int_div_pos_eq)
qed

lemma floor_of_product:
  fixes y m k q :: nat
  assumes "y * m div k = q"
  shows "(int y * int m) div int k = int q"
  using assms by (metis of_nat_mult zdiv_int)

lemma floor_of_negated_product:
  fixes y m k q :: nat
  assumes "(y * m - 1) div k = q" "0 < y * m" "0 < k"
  shows "(- (int y * int m)) div int k = - int q - 1"
proof -
  have "int y * int m - 1 = int (y * m - 1)"
    using assms(2) by (simp add: of_nat_diff)
  then have "(int y * int m - 1) div int k = int q"
    using assms(1) by (metis zdiv_int)
  then show ?thesis
    using assms(3) by (simp add: neg_div_pos)
qed

lemma magic_s32_start:
  assumes d: "1 < \<bar>sint d\<bar>" "- (2 ^ 31) \<le> sint d" "sint d < 2 ^ 31"
  defines "ad \<equiv> (if d <s 0 then - d else d)" and "N \<equiv> 2 ^ 31 + (if d <s 0 then 1 else 0)"
  defines "t \<equiv> 0x80000000 + (drop_bit 31 (d :: u64) AND 1)"
  shows "unat ad = nat \<bar>sint d\<bar>" "unat (t - 1 - t mod ad) = last_full N (unat ad)"
    "1 < unat (t - 1 - t mod ad)" "unat (t - 1 - t mod ad) \<le> 2 ^ 31"
proof -
  have neg: "d <s 0 \<longleftrightarrow> sint d < 0"
    by (simp add: word_sless_alt)
  have "sint d div 2 ^ 31 = (if sint d < 0 then - 1 else 0)"
    using d(2,3) int_div_pos_eq [of "sint d" "2 ^ 31" "- 1" "sint d + 2 ^ 31"] by auto
  then have bit: "bit d 31 \<longleftrightarrow> sint d < 0"
    using bit_sint_iff [of d 31] by (simp add: bit_iff_odd split: if_splits)
  then have "drop_bit 31 d AND 1 = (if sint d < 0 then 1 else 0)"
    by (simp add: and_one_eq flip: bit_iff_odd_drop_bit) (metis bit_iff_odd_drop_bit mod_2_eq_odd of_bool_def)
  then have t: "unat t = N"
    unfolding t_def N_def neg by simp
  have "ad = word_of_int \<bar>sint d\<bar>"
    unfolding ad_def neg by (simp add: abs_if)
  then show ad: "unat ad = nat \<bar>sint d\<bar>"
    using d by (simp add: unat_eq_nat_uint uint_word_of_int)
  have adN: "1 < unat ad" "unat ad \<le> 2 ^ 31" "unat ad \<le> N" and N: "2 ^ 31 \<le> N" "N \<le> 2 ^ 31 + 1"
    using d unfolding ad N_def neg by auto
  have md: "N mod unat ad < unat ad"
    using adN by simp
  have t1: "unat (t - 1) = N - 1"
    using N t by (simp add: unat_sub word_le_nat_alt)
  have "t mod ad \<le> t - 1"
    unfolding word_le_nat_alt t1 unat_mod t using md adN by linarith
  then show anc: "unat (t - 1 - t mod ad) = last_full N (unat ad)"
    by (simp add: unat_sub t1 unat_mod t last_full_def)
  have b: "last_full N (unat ad) + 1 = N div unat ad * unat ad" "unat ad \<le> last_full N (unat ad) + 1" "last_full N (unat ad) < N"
    using last_full_bounds [of "unat ad" N] adN by auto
  then obtain R where "N = last_full N (unat ad) + 1 + R" "R < unat ad"
    using md by (metis div_mult_mod_eq)
  then show "1 < unat (t - 1 - t mod ad)" "unat (t - 1 - t mod ad) \<le> 2 ^ 31"
    using b(2,3) N unfolding anc pow2_vals by linarith+
qed

lemma sg_excess_small:
  assumes "2 ^ 31 mod d + 1 = d" "31 \<le> p"
  shows "sg_excess d p \<le> 2 ^ (p - 31)"
proof -
  have "d dvd (2 ^ 31 mod d + 1)"
    using assms(1) by simp
  then have "d dvd 2 ^ 31 + 1"
    by (metis dvd_eq_mod_eq_0 mod_add_left_eq)
  then have "d dvd (2 ^ 31 + 1) * 2 ^ (p - 31)"
    by (rule dvd_mult2)
  also have "(2 ^ 31 + 1) * 2 ^ (p - 31) = (2 :: nat) ^ p + 2 ^ (p - 31)"
    using assms(2) by (simp only: add_mult_distrib nat_mult_1 flip: power_add) simp
  finally have "d dvd 2 ^ p mod d + 2 ^ (p - 31)"
    by (metis dvd_eq_mod_eq_0 mod_add_left_eq)
  then have "d \<le> 2 ^ p mod d + 2 ^ (p - 31)"
    by (rule dvd_imp_le) simp
  then show ?thesis
    by (simp add: sg_excess_def)
qed

lemma sg_quotients:
  fixes d p N :: nat
  assumes d: "1 < d" "d \<le> N" and N: "N = 2 ^ 31 \<or> N = 2 ^ 31 + 1" and p: "31 \<le> p"
    and stop: "last_full N d * sg_excess d p < 2 ^ p"
  defines "m \<equiv> 2 ^ p div d + 1"
  shows "y < N \<Longrightarrow> y * m div 2 ^ p = y div d"
    and "0 < y \<Longrightarrow> y \<le> 2 ^ 31 \<Longrightarrow> (y * m - 1) div 2 ^ p = y div d"
proof -
  have d0: "0 < d"
    using d by simp
  have md: "m * d = 2 ^ p + sg_excess d p"
    unfolding m_def by (rule sg_multiplier [OF d0])
  show "y * m div 2 ^ p = y div d" if "y < N"
    using magic_quotient [OF md d0 magic_bound [OF d0 d(2) stop]] that by simp
  show "(y * m - 1) div 2 ^ p = y div d" if y: "0 < y" "y \<le> 2 ^ 31"
  proof (rule magic_quotient_up [OF md d0 y(1)])
    show "0 < sg_excess d p"
      using d0 by (simp add: sg_excess_def)
    show "y * sg_excess d p \<le> (d - y mod d) * 2 ^ p"
    proof (cases "N = 2 ^ 31 \<and> y = 2 ^ 31 \<and> N mod d + 1 = d")
      case True
      then have "y * sg_excess d p \<le> 2 ^ 31 * 2 ^ (p - 31)"
        using sg_excess_small [OF _ p] by auto
      also have "\<dots> = 1 * 2 ^ p"
        using p by (simp only: nat_mult_1 flip: power_add) simp
      also have "1 = d - y mod d"
        using True by auto
      finally show ?thesis .
    next
      case False
      moreover have "N mod d < d"
        using d0 by simp
      ultimately have "y < N \<or> y = N \<and> N mod d + 1 < d"
        using y N by auto
      then show ?thesis
        using magic_bound [OF d0 d(2) stop] by (simp add: less_imp_le)
    qed
  qed
qed

lemma signed_quotient:
  fixes x D t :: int and m k :: nat
  assumes down: "\<And>y. y < 2 ^ 31 + (if D < 0 then 1 else 0) \<Longrightarrow> y * m div k = y div nat \<bar>D\<bar>"
    and up: "\<And>y. 0 < y \<Longrightarrow> y \<le> 2 ^ 31 \<Longrightarrow> (y * m - 1) div k = y div nat \<bar>D\<bar>"
    and x: "- (2 ^ 31) \<le> x" "x < 2 ^ 31" and pos: "0 < m" "0 < k" "D \<noteq> 0"
    and t: "t = (x * (if D < 0 then - int m else int m)) div int k"
  shows "t + (if t < 0 then 1 else 0) = x sdiv D"
proof -
  define y where "y = nat \<bar>x\<bar>"
  have y: "\<bar>x\<bar> = int y" "y \<le> 2 ^ 31" "0 \<le> x \<Longrightarrow> y < 2 ^ 31"
    using x by (auto simp: y_def)
  have q: "int (y div nat \<bar>D\<bar>) = \<bar>x\<bar> div \<bar>D\<bar>"
    using y(1) by (simp add: zdiv_int)
  show ?thesis
  proof (cases "x = 0 \<or> (0 < x \<longleftrightarrow> 0 < D)")
    case True
    then have "x * (if D < 0 then - int m else int m) = int y * int m"
      unfolding y(1) [symmetric] using pos(3) by (auto simp: abs_if)
    then have "t = \<bar>x\<bar> div \<bar>D\<bar>"
      using floor_of_product [OF down, of y] y True pos(3) unfolding t q [symmetric] by (auto split: if_splits)
    moreover have "0 \<le> \<bar>x\<bar> div \<bar>D\<bar>"
      by (simp add: div_int_pos_iff)
    ultimately show ?thesis
      using True pos(3) by (auto simp: signed_divide_int_def sgn_if)
  next
    case False
    then have "x * (if D < 0 then - int m else int m) = - (int y * int m)" and y0: "0 < y"
      unfolding y(1) [symmetric] using pos(3) by (auto simp: abs_if y_def)
    then have "t = - (\<bar>x\<bar> div \<bar>D\<bar>) - 1"
      using floor_of_negated_product [OF up [OF y0 y(2)]] pos y0 unfolding t q [symmetric] by simp
    moreover have "0 \<le> \<bar>x\<bar> div \<bar>D\<bar>"
      by (simp add: div_int_pos_iff)
    ultimately show ?thesis
      using False pos(3) by (auto simp: signed_divide_int_def sgn_if)
  qed
qed

lemma magic_s32_quotient:
  assumes d: "1 < \<bar>sint d\<bar>" "- (2 ^ 31) \<le> sint d" "sint d < 2 ^ 31"
  obtains m s where
    "magic_s32 d = Some \<lparr>sg_m = (if d <s 0 then - scast (of_nat m :: u32) else scast (of_nat m :: u32)), sg_s = s\<rparr>"
    "0 < m" "m < 2 ^ 32" "s \<le> 31"
    "\<And>x t. - (2 ^ 31) \<le> x \<Longrightarrow> x < 2 ^ 31 \<Longrightarrow>
      t = (x * (if sint d < 0 then - int m else int m)) div 2 ^ (32 + s) \<Longrightarrow>
      t + (if t < 0 then 1 else 0) = x sdiv sint d"
proof -
  define ad where "ad = (if d <s 0 then - d else d)"
  define N :: nat where "N = 2 ^ 31 + (if d <s 0 then 1 else 0)"
  define tt where "tt = 0x80000000 + (drop_bit 31 d AND 1)"
  define anc where "anc = tt - 1 - tt mod ad"
  note st = magic_s32_start [OF d, folded ad_def N_def, folded tt_def anc_def]
  have bounds: "1 < unat ad" "unat ad \<le> 2 ^ 31" "unat ad \<le> N" "N = 2 ^ 31 \<or> N = 2 ^ 31 + 1"
    using d unfolding st(1) N_def by auto
  have "sg_inv (unat ad) (unat anc) \<lparr>ms_p = 31, ms_q1 = 0x80000000 div anc, ms_r1 = 0x80000000 - 0x80000000 div anc * anc,
      ms_q2 = 0x80000000 div ad, ms_r2 = 0x80000000 - 0x80000000 div ad * ad, ms_add = False\<rparr>" (is "sg_inv _ _ ?s0")
    unfolding sg_inv_def minus_div_mult_eq_mod by (simp add: unat_div unat_mod)
  from magic_s32_loop_ends [OF this bounds(1,2) st(3,4)] obtain u where u: "magic_s32_loop ad anc ?s0 = Some u"
    and inv: "sg_inv (unat ad) (unat anc) u" and p: "31 < ms_p u" 
    and stop: "last_full N (unat ad) * sg_excess (unat ad) (ms_p u) < 2 ^ ms_p u"
    and low: "ms_p u = 32 \<or> 0 < ms_p u \<and> 2 ^ (ms_p u - 1) \<le> last_full N (unat ad) * sg_excess (unat ad) (ms_p u - 1)"
    unfolding st(2) by auto
  define m s where "m = 2 ^ ms_p u div unat ad + 1" and "s = ms_p u - 32"
  have m32: "m < 2 ^ 32"
    unfolding m_def by (rule sg_multiplier_bound [OF bounds(1,2,4) low])
  have ps: "ms_p u = 32 + s" "31 \<le> ms_p u"
    using p by (simp_all add: s_def)
  have "unat (ms_q2 u) = 2 ^ ms_p u div unat ad" "ms_p u \<le> 63"
    using inv unfolding sg_inv_def by auto
  then have "unat (ms_q2 u + 1) = m" and s31: "s \<le> 31"
    using m32 by (simp_all add: unat_add_ok m_def s_def)
  then have q: "ucast (ms_q2 u + 1) = (of_nat m :: u32)"
    by (metis of_nat_unat)
  note quo = sg_quotients [OF bounds(1,3,4) ps(2) stop, folded m_def]
  show thesis
  proof (rule that [of m s])
    show "magic_s32 d = Some \<lparr>sg_m = (if d <s 0 then - scast (of_nat m :: u32) else scast (of_nat m :: u32)), sg_s = s\<rparr>"
      using u unfolding magic_s32_def Let_def ad_def [symmetric] tt_def [symmetric] anc_def [symmetric] 
      by (simp add: q s_def)
    show "0 < m" "m < 2 ^ 32" "s \<le> 31"
      using m32 s31 by (simp_all add: m_def)
    fix x t :: int
    assume "- (2 ^ 31) \<le> x" "x < 2 ^ 31" "t = (x * (if sint d < 0 then - int m else int m)) div 2 ^ (32 + s)"
    moreover have "d <s 0 \<longleftrightarrow> sint d < 0"
      by (simp add: word_sless_alt)
    ultimately show "t + (if t < 0 then 1 else 0) = x sdiv sint d"
      using d quo unfolding ps(1) N_def st(1) by (intro signed_quotient [where m = m and k = "2 ^ (32 + s)"]) (auto simp: m_def)
  qed
qed

section \<open>A dividend that fits 16 bits\<close>

definition dm_narrow_at :: "u64 \<Rightarrow> u64 \<Rightarrow> nat \<Rightarrow> bool" where
  "dm_narrow_at D B s =
    (let two = push_bit s 1; m = (two + D - 1) div D; e = m * D - two
     in B * e < two \<and> B * m \<le> 0xffffffff)"

definition dm_narrow_magic :: "u64 \<Rightarrow> u64 \<Rightarrow> (u64 \<times> nat) option" where
  "dm_narrow_magic D B =
    (case find (dm_narrow_at D B) [0..<33] of
       None \<Rightarrow> None
     | Some s \<Rightarrow> Some ((push_bit s 1 + D - 1) div D, s))"

lemma dm_narrow_quotient:
  assumes D: "1 < D" "D \<le> 0xffff" and B: "B \<le> 0xffff" and M: "dm_narrow_magic D B = Some (M, s)" and x: "x \<le> unat B"
  shows "x * unat M < 2 ^ 32" "s \<le> 32" "x * unat M div 2 ^ s = x div unat D"
proof -
  let ?d = "unat D"
  have "find (dm_narrow_at D B) [0..<33] = Some s" and M': "M = (2 ^ s + D - 1) div D"
    using M by (auto simp: dm_narrow_magic_def split: option.splits)
  then have s: "s \<le> 32" and at: "dm_narrow_at D B s"
    by (auto simp: find_Some_iff)
  show "s \<le> 32"
    by (rule s)
  have d: "1 < ?d" "?d \<le> 0xffff" and b: "unat B \<le> 0xffff"
    using D B by (simp_all add: word_less_nat_alt word_le_nat_alt)
  have two: "(2 :: nat) ^ s \<le> 2 ^ 32"
    using s by (intro power_increasing) auto
  then have u2: "unat (2 ^ s :: u64) = 2 ^ s"
    using unat_push_bit_lt [of "1 :: u64" s] by simp
  have "unat (2 ^ s + D) = 2 ^ s + ?d"
    using two d by (simp add: unat_add_ok u2)
  then have "unat (2 ^ s + D - 1) = 2 ^ s + ?d - 1"
    using d by (subst unat_sub) (simp_all add: word_le_nat_alt)
  then have m: "unat M = (2 ^ s + ?d - 1) div ?d"
    by (simp add: M' unat_div)
  define e where "e = unat M * ?d - 2 ^ s"
  have r: "2 ^ s + ?d - 1 = unat M * ?d + (2 ^ s + ?d - 1) mod ?d" "(2 ^ s + ?d - 1) mod ?d < ?d"
    using d unfolding m by simp_all
  then have md: "unat M * ?d = 2 ^ s + e" and e: "e < ?d"
    using d unfolding e_def by linarith+
  have "unat (M * D) = unat M * ?d"
    using md e d two by (intro unat_mult_ok) (unfold pow2_vals, linarith)
  then have ue: "unat (M * D - 2 ^ s) = e"
    by (subst unat_sub) (simp_all add: word_le_nat_alt u2 md)
  have "unat B * e \<le> 0xffff * 0xffff"
    using b e d by (intro mult_le_mono) auto
  then have be: "unat B * e < 2 ^ s"
    using at unfolding dm_narrow_at_def Let_def push_bit_of_1 M' [symmetric] by (simp add: word_less_nat_alt unat_mult_ok ue u2)
  have "unat M \<le> unat M * ?d"
    using d by simp
  then have "unat M \<le> 2 ^ 33"
    using md e d two unfolding pow2_vals by linarith
  then have "unat B * unat M \<le> 0xffff * 2 ^ 33"
    using b by (intro mult_le_mono) auto
  then have bm: "unat B * unat M \<le> 0xffffffff"
    using at unfolding dm_narrow_at_def Let_def push_bit_of_1 M' [symmetric] by (simp add: word_le_nat_alt unat_mult_ok)
  have "x * unat M \<le> unat B * unat M"
    using x by (rule mult_le_mono1)
  then show "x * unat M < 2 ^ 32"
    using bm unfolding pow2_vals by linarith
  have "x * e < 2 ^ s"
    using x be by (meson le_less_trans mult_le_mono1)
  also have "2 ^ s \<le> (?d - x mod ?d) * 2 ^ s"
    using d by (simp add: Suc_leI)
  finally show "x * unat M div 2 ^ s = x div ?d"
    using d by (intro magic_quotient [OF md]) auto
qed


section \<open>Divisibility\<close>

lemma divides_by_rotation:
  fixes x lo hi a b d p z M :: int and K :: nat
  assumes inv: "(d * p) mod M = 1" and M: "M = 2 ^ 32" and K: "K \<le> 32" and d: "1 < d"
    and z: "z = (x * p + a * 2 ^ K) mod M"
    and x: "lo \<le> x" "x \<le> hi" "hi - lo < M"
    and ab: "0 \<le> a" "0 \<le> b" "d * 2 ^ K * (a + b) < M"
    and multiples: "\<And>q. lo \<le> d * 2 ^ K * q \<and> d * 2 ^ K * q \<le> hi \<longleftrightarrow> - a \<le> q \<and> q \<le> b"
  shows "d * 2 ^ K dvd x \<longleftrightarrow> z div 2 ^ K + z mod 2 ^ K * 2 ^ (32 - K) \<le> a + b"
proof -
  define T :: int where "T = 2 ^ K"
  have T: "0 < T" "M = T * 2 ^ (32 - K)"
    using K by (simp_all add: T_def M flip: power_add)
  obtain k where k: "d * p = 1 + M * k"
    using inv by (metis mod_mult_div_eq add.commute mult.commute)
  obtain j where j: "z = x * p + a * T - M * j"
    unfolding z T_def by (metis minus_mult_div_eq_mod)
  have zM: "0 \<le> z" "z < M"
    unfolding z M by simp_all
  have cT: "r * T < M" if "r \<le> a + b" "0 \<le> r" for r
  proof -
    have "r * T \<le> (a + b) * T"
      using that(1) T(1) by simp
    also have "\<dots> \<le> d * ((a + b) * T)"
      using mult_right_mono [of 1 d "(a + b) * T"] d ab T(1) by simp
    also have "\<dots> < M"
      using ab(3) unfolding T_def by (simp add: mult_ac)
    finally show ?thesis .
  qed
  show ?thesis
    unfolding T_def [symmetric]
  proof
    assume "d * T dvd x"
    then obtain q where q: "x = d * T * q"
      by (elim dvdE)
    then have qb: "- a \<le> q" "q \<le> b"
      using multiples x unfolding T_def by auto
    have "x * p = (1 + M * k) * (T * q)"
      unfolding q k [symmetric] by (simp only: mult_ac)
    then have "z = (q + a) * T + M * (k * q * T - j)"
      unfolding j by (simp add: algebra_simps)
    then have "z = ((q + a) * T) mod M"
      using zM by (metis mod_mult_self2 mod_pos_pos_trivial)
    moreover have "0 \<le> (q + a) * T" "(q + a) * T < M"
      using qb T(1) cT [of "q + a"] by auto
    ultimately have "z = (q + a) * T"
      by simp
    then show "z div T + z mod T * 2 ^ (32 - K) \<le> a + b"
      using qb T(1) by simp
  next
    define r where "r = z div T + z mod T * 2 ^ (32 - K)"
    assume "z div T + z mod T * 2 ^ (32 - K) \<le> a + b"
    then have ra: "r \<le> a + b"
      by (simp add: r_def)
    have r0: "0 \<le> r"
      using zM T(1) by (auto simp: r_def intro!: add_nonneg_nonneg pos_imp_zdiv_nonneg_iff [THEN iffD2])
    have "z mod T = 0"
    proof (rule ccontr)
      assume "z mod T \<noteq> 0"
      then have "1 \<le> z mod T"
        using T(1) pos_mod_sign [of T z] by linarith
      then have "2 ^ (32 - K) \<le> z mod T * 2 ^ (32 - K)"
        by simp
      also have "\<dots> \<le> r"
        using zM T(1) by (simp add: r_def pos_imp_zdiv_nonneg_iff)
      finally have "M \<le> r * T"
        using T by (simp add: mult.commute mult_left_mono)
      then show False
        using cT [OF ra r0] by simp
    qed
    then have zr: "z = r * T"
      using mult_div_mod_eq [of T z] unfolding r_def by (simp add: mult.commute)
    have "d * (x * p) = (1 + M * k) * x"
      unfolding k [symmetric] by (simp only: mult_ac)
    then have "d * z = x + d * T * a + M * (k * x - d * j)"
      unfolding j by (simp add: algebra_simps)
    then have "x - d * T * (r - a) = M * (d * j - k * x)"
      unfolding zr by (simp add: algebra_simps)
    moreover have "lo \<le> d * T * (r - a)" "d * T * (r - a) \<le> hi"
      using multiples [of "r - a"] ra r0 unfolding T_def by auto
    ultimately have "M dvd x - d * T * (r - a)" "\<bar>x - d * T * (r - a)\<bar> < M"
      using x by auto
    then have "x - d * T * (r - a) = 0"
      using dvd_imp_le_int [of "x - d * T * (r - a)" M] by linarith
    then have "x = d * T * (r - a)"
      by simp
    then show "d * T dvd x"
      by simp
  qed
qed

record divtest =
  dt_K :: nat
  dt_P :: u64
  dt_A :: u64
  dt_Q :: u64

definition low_zeros :: "u64 \<Rightarrow> nat option" where
  "low_zeros D = find (\<lambda>K. drop_bit K D AND 1 \<noteq> 0) [0..<64]"

definition dt_newton :: "u64 \<Rightarrow> u64 \<Rightarrow> u64" where
  "dt_newton D0 P = (P * (2 - D0 * P)) AND 0xffffffff"

definition divtest_consts :: "bool \<Rightarrow> u64 \<Rightarrow> divtest option" where
  "divtest_consts sign D =
    (case low_zeros D of
       None \<Rightarrow> None
     | Some K \<Rightarrow>
         (let D0 = drop_bit K D;
              P = (dt_newton D0 ^^ 5) D0;
              A = (if sign then (0x7fffffff div D0) AND NOT (push_bit K 1 - 1) else 0);
              Q = (if sign then drop_bit K (2 * A) else 0xffffffff div D)
          in Some \<lparr>dt_K = K, dt_P = P, dt_A = A, dt_Q = Q\<rparr>))"

lemma shifted_bit: "drop_bit K D AND 1 \<noteq> 0 \<longleftrightarrow> bit D K" for D :: u64
  by (simp add: bit_iff_odd_drop_bit odd_iff_mod_2_eq_one and_one_eq)

lemma low_zeros_Some:
  assumes "low_zeros D = Some K"
  shows "odd (unat (drop_bit K D))" "unat D = unat (drop_bit K D) * 2 ^ K"
proof -
  have K: "bit D K" "\<And>j. j < K \<Longrightarrow> \<not> bit D j"
    using assms unfolding low_zeros_def shifted_bit by (auto simp: find_Some_iff)
  then have "unat (drop_bit K D AND 1) \<noteq> 0"
    unfolding shifted_bit [symmetric] by (simp add: unat_gt_0 unat_eq_0)
  then show "odd (unat (drop_bit K D))"
    unfolding unat_and_1 by presburger
  have "take_bit K D = 0"
    using K(2) by (auto intro!: bit_eqI simp: bit_take_bit_iff)
  then have "take_bit K (unat D) = 0"
    by (metis unsigned_0 unsigned_take_bit_eq)
  then show "unat D = unat (drop_bit K D) * 2 ^ K"
    by (metis add.right_neutral div_mult_mod_eq take_bit_eq_mod unat_drop_bit)
qed

lemma low_zeros_exists:
  assumes "D \<noteq> 0"
  obtains K where "low_zeros D = Some K"
proof -
  have "low_zeros D \<noteq> None"
  proof
    assume "low_zeros D = None"
    then have "\<not> bit D j" if "j < 64" for j
      using that unfolding low_zeros_def shifted_bit by (auto simp: find_None_iff)
    then have "D = 0"
      by (intro bit_word_eqI) auto
    then show False
      using assms by simp
  qed
  then show thesis
    using that by auto
qed

lemma newton_inverse:
  fixes d :: u32
  assumes "odd d"
  shows "d * ((\<lambda>p. p * (2 - d * p)) ^^ 5) d = 1"
proof -
  define f where "f = (\<lambda>p. p * (2 - d * p))"
  have step: "1 - d * f p = (1 - d * p)\<^sup>2" for p
    by (simp add: f_def power2_eq_square algebra_simps)
  obtain c where c: "d = 2 * c + 1"
    using assms by (elim oddE)
  have "even (c * (c + 1))"
    by simp
  then obtain e where e: "c * (c + 1) = 2 * e"
    by (elim evenE)
  have "1 - d * d = - 4 * (c * (c + 1))"
    by (simp add: c algebra_simps)
  then have e0: "1 - d * d = - 8 * e"
    unfolding e by simp
  have "(f ^^ 5) d = f (f (f (f (f d))))"
    by (simp add: numeral_eq_Suc)
  then have "1 - d * (f ^^ 5) d = (((((- 8 * e)\<^sup>2)\<^sup>2)\<^sup>2)\<^sup>2)\<^sup>2"
    by (simp only: step e0)
  also have "\<dots> = 79228162514264337593543950336 * e ^ 32"
    by (simp only: power_mult_distrib) simp
  also have "(79228162514264337593543950336 :: u32) = 0"
    by (subst word_uint_eq_iff) simp
  finally show ?thesis
    unfolding f_def by simp
qed

lemma dt_newton_low: "(ucast (dt_newton D0 P) :: u32) = ucast P * (2 - ucast D0 * ucast P)"
proof -
  have "(ucast (0xffffffff :: u64) :: u32) = - 1"
    by (simp add: word_uint_eq_iff unsigned_minus_1_eq_mask mask_eq_exp_minus_1)
  then have "(ucast (dt_newton D0 P) :: u32) = ucast (P * (2 - D0 * P))"
    unfolding dt_newton_def low32_hom(4) by (simp only: and.right_neutral)
  then show ?thesis
    by (simp add: low32_hom)
qed

lemma dt_inverse:
  assumes "odd (unat D0)"
  shows "(unat D0 * unat ((dt_newton D0 ^^ 5) D0)) mod 2 ^ 32 = 1"
proof -
  let ?d = "ucast D0 :: u32" and ?P = "(dt_newton D0 ^^ 5) D0"
  have iter: "(ucast ((dt_newton D0 ^^ n) D0) :: u32) = ((\<lambda>p. p * (2 - ?d * p)) ^^ n) ?d" for n
    by (induction n) (simp_all add: dt_newton_low)
  have "odd ?d"
    using assms by (simp add: bit_simps flip: bit_0)
  from newton_inverse [OF this] have "ucast (D0 * ?P) = (1 :: u32)"
    unfolding low32_hom iter .
  then have "unat (ucast (D0 * ?P) :: u32) = 1"
    by simp
  then have "unat (D0 * ?P) mod 2 ^ 32 = 1"
    by (simp add: unsigned_ucast_eq take_bit_eq_mod)
  then show ?thesis
    by (simp add: unat_word_ariths mod_mod_cancel)
qed

lemma unat_double: "unat x < 2 ^ 63 \<Longrightarrow> unat (2 * x :: u64) = 2 * unat x"
  using unat_mult_ok [of 2 x] by simp

lemma and_not_mask: "x AND NOT (push_bit K 1 - 1) = push_bit K (drop_bit K x)" for x :: u64
  by (auto intro!: bit_word_eqI simp: bit_simps simp flip: mask_eq_exp_minus_1)

lemma not_pow2:
  fixes D :: u64
  assumes "D AND (D - 1) \<noteq> 0" "unat D = d * 2 ^ K" "odd d"
  shows "1 < d"
proof (rule ccontr)
  assume "\<not> 1 < d"
  then have "d = 1"
    using assms(3) by (cases d) auto
  then have "D = of_nat (2 ^ K)"
    using assms(2) by (metis nat_mult_1 of_nat_unat ucast_id)
  then have "D = 2 ^ K"
    by simp
  moreover have "(2 ^ K :: u64) AND mask K = 0"
    by (auto intro!: bit_word_eqI simp: bit_simps)
  ultimately show False
    using assms(1) by (simp flip: mask_eq_exp_minus_1)
qed

lemma divtest_consts_ok:
  assumes D: "unat D < 2 ^ 32" "D AND (D - 1) \<noteq> 0"
  obtains c d where "divtest_consts sign D = Some c" "unat D = d * 2 ^ dt_K c" "odd d" "1 < d" "dt_K c < 32"
    "(d * unat (dt_P c)) mod 2 ^ 32 = 1"
    "unat (dt_A c) = (if sign then (2 ^ 31 - 1) div unat D * 2 ^ dt_K c else 0)"
    "unat (dt_Q c) = (if sign then 2 * ((2 ^ 31 - 1) div unat D) else (2 ^ 32 - 1) div unat D)"
proof -
  have "D \<noteq> 0"
    using D(2) by auto
  then obtain K where K: "low_zeros D = Some K"
    by (rule low_zeros_exists)
  define D0 where "D0 = drop_bit K D"
  note z = low_zeros_Some [OF K, folded D0_def]
  have d1: "1 < unat D0"
    by (rule not_pow2 [OF D(2) z(2,1)])
  have "2 ^ K < unat D"
    unfolding z(2) using d1 by simp
  then have "(2 :: nat) ^ K < 2 ^ 32"
    using D(1) by (rule less_trans)
  then have K32: "K < 32"
    by (rule power_less_imp_less_exp [rotated]) simp
  let ?A = "(0x7fffffff div D0) AND NOT (push_bit K 1 - 1)"
  let ?a = "(2 ^ 31 - 1) div unat D"
  have a: "unat (drop_bit K (0x7fffffff div D0)) = ?a"
    unfolding z(2) by (simp add: unat_drop_bit unat_div div_mult2_eq)
  have "?a * 2 ^ K \<le> ?a * unat D"
    using \<open>2 ^ K < unat D\<close> by (intro mult_le_mono2) simp
  also have "\<dots> \<le> 2 ^ 31 - 1"
    by (rule div_times_less_eq_dividend)
  finally have lt: "?a * 2 ^ K < 2 ^ 63"
    by (rule le_less_trans) simp
  have A: "unat ?A = ?a * 2 ^ K"
    unfolding and_not_mask using lt by (subst unat_push_bit_lt) (simp_all only: a, simp)
  then have "unat ?A < 2 ^ 63"
    using lt by (simp only:)
  then have "unat (2 * ?A) = 2 * unat ?A"
    by (rule unat_double)
  then have Q: "unat (drop_bit K (2 * ?A)) = 2 * ?a"
    unfolding unat_drop_bit A by simp
  define c where "c = \<lparr>dt_K = K, dt_P = (dt_newton D0 ^^ 5) D0, dt_A = (if sign then ?A else 0),
    dt_Q = (if sign then drop_bit K (2 * ?A) else 0xffffffff div D)\<rparr>"
  show thesis
  proof (rule that)
    show "divtest_consts sign D = Some c"
      by (simp add: divtest_consts_def K Let_def c_def flip: D0_def)
    show "unat D = unat D0 * 2 ^ dt_K c" "odd (unat D0)" "1 < unat D0" "dt_K c < 32"
      using z d1 K32 by (simp_all add: c_def)
    show "(unat D0 * unat (dt_P c)) mod 2 ^ 32 = 1"
      using dt_inverse [OF z(1)] by (simp add: c_def)
    show "unat (dt_A c) = (if sign then ?a * 2 ^ dt_K c else 0)"
      using A by (simp add: c_def)
    show "unat (dt_Q c) = (if sign then 2 * ?a else (2 ^ 32 - 1) div unat D)"
      using Q by (simp add: c_def unat_div)
  qed
qed

text \<open>The test as the pass emits it, on the 32-bit operand.\<close>

definition dt_rotate :: "nat \<Rightarrow> u32 \<Rightarrow> u32" where
  "dt_rotate K t = (if K = 0 then t else drop_bit K t OR push_bit (32 - K) t)"

lemma uint_rotate:
  assumes "K < 32"
  shows "uint (dt_rotate K t) = uint t div 2 ^ K + uint t mod 2 ^ K * 2 ^ (32 - K)"
proof (cases "K = 0")
  case False
  have "drop_bit K t AND push_bit (32 - K) t = 0"
    using assms bit_imp_le_length [of t] by (force intro!: bit_word_eqI simp: bit_simps)
  then have "uint (drop_bit K t) AND uint (push_bit (32 - K) t) = 0"
    by (metis unsigned_0 unsigned_and_eq)
  then have "uint (dt_rotate K t) = uint (drop_bit K t) + uint (push_bit (32 - K) t)"
    using False by (simp add: dt_rotate_def unsigned_or_eq disjunctive_add_eq_or)
  also have "uint (drop_bit K t) = uint t div 2 ^ K"
    unfolding uint_nat unat_drop_bit by (simp add: zdiv_int)
  also have "uint (push_bit (32 - K) t) = uint t mod 2 ^ K * 2 ^ (32 - K)"
    unfolding unsigned_push_bit_eq unfolding take_bit_push_bit unfolding push_bit_eq_mult using assms
    by (simp add: take_bit_eq_mod)
  finally show ?thesis .
qed (simp add: dt_rotate_def)

lemma multiples_below:
  fixes c N q :: int
  assumes "0 < c"
  shows "c * q \<le> N \<longleftrightarrow> q \<le> N div c"
proof
  assume "c * q \<le> N"
  then have "c * q div c \<le> N div c"
    using assms by (rule zdiv_mono1)
  then show "q \<le> N div c"
    using assms by simp
next
  assume "q \<le> N div c"
  then have "c * q \<le> c * (N div c)"
    using assms by simp
  also have "\<dots> \<le> N"
    using mult_div_mod_eq [of c N] pos_mod_sign [OF assms, of N] by linarith
  finally show "c * q \<le> N" .
qed

lemma odd_multiple_not_dvd_power:
  fixes d :: nat
  assumes "odd d" "1 < d"
  shows "\<not> d * e dvd 2 ^ n"
proof
  assume "d * e dvd 2 ^ n"
  then have "d dvd 2 ^ n"
    by (rule dvd_mult_left)
  moreover have "coprime d (2 ^ n)"
    using assms(1) by simp
  ultimately show False
    using coprime_absorb_left [of d "2 ^ n"] assms(2) by auto
qed

lemma signed_multiples:
  fixes c q :: int
  assumes "0 < c" "\<not> c dvd 2 ^ 31"
  shows "- (2 ^ 31) \<le> c * q \<longleftrightarrow> - ((2 ^ 31 - 1) div c) \<le> q"
proof -
  have "2 ^ 31 mod c \<noteq> 0"
    using assms(2) by (simp only: dvd_eq_mod_eq_0 not_False_eq_True)
  then have "(2 ^ 31 - 1) div c = 2 ^ 31 div c"
    using assms(1) pos_mod_sign [of c "2 ^ 31"] pos_mod_bound [of c "2 ^ 31"] mult_div_mod_eq [of c "2 ^ 31"]
    by (intro int_div_pos_eq [where r = "2 ^ 31 mod c - 1"]) linarith+
  moreover have "- (2 ^ 31) \<le> c * q \<longleftrightarrow> c * (- q) \<le> 2 ^ 31"
    by auto
  ultimately show ?thesis
    unfolding multiples_below [OF assms(1)] by (simp only:) linarith
qed

lemma divtest_exact:
  assumes D: "unat D < 2 ^ 32" "D AND (D - 1) \<noteq> 0"
  obtains c where "divtest_consts sign D = Some c" "dt_K c < 32" "unat (dt_Q c) < 2 ^ 32"
    "\<And>x :: u32. dt_rotate (dt_K c) (x * ucast (dt_P c) + ucast (dt_A c)) \<le> ucast (dt_Q c) \<longleftrightarrow>
       int (unat D) dvd (if sign then sint x else uint x)"
proof -
  obtain c d where c: "divtest_consts sign D = Some c" and Dd: "unat D = d * 2 ^ dt_K c" and d: "odd d" "1 < d"
    and K: "dt_K c < 32" and inv: "(d * unat (dt_P c)) mod 2 ^ 32 = 1"
    and A: "unat (dt_A c) = (if sign then (2 ^ 31 - 1) div unat D * 2 ^ dt_K c else 0)"
    and Q: "unat (dt_Q c) = (if sign then 2 * ((2 ^ 31 - 1) div unat D) else (2 ^ 32 - 1) div unat D)"
    using D by (rule divtest_consts_ok)
  define C where "C = int (unat D)"
  have C: "C = int d * 2 ^ dt_K c" "0 < C"
    using d by (auto simp: C_def Dd)
  have "\<not> unat D dvd 2 ^ 31"
    unfolding Dd by (rule odd_multiple_not_dvd_power [OF d])
  then have C31: "\<not> C dvd 2 ^ 31"
    unfolding C_def by (metis of_nat_dvd_iff of_nat_numeral of_nat_power)
  define a b where "a = (if sign then (2 ^ 31 - 1) div C else 0)" and "b = (if sign then (2 ^ 31 - 1) div C else (2 ^ 32 - 1) div C)"
  have ab0: "0 \<le> a" "0 \<le> b"
    using C(2) by (auto simp: a_def b_def pos_imp_zdiv_nonneg_iff)
  have "C * a \<le> (if sign then 2 ^ 31 - 1 else 0)" "C * b \<le> (if sign then 2 ^ 31 - 1 else 2 ^ 32 - 1)"
    unfolding a_def b_def by (auto simp: multiples_below [OF C(2)])
  then have abM: "C * (a + b) < 2 ^ 32"
    unfolding distrib_left by (auto split: if_splits)
  have "0 \<le> C * q \<longleftrightarrow> 0 \<le> q" for q
    using C(2) by (simp add: zero_le_mult_iff)
  then have multiples: "(if sign then - (2 ^ 31) else 0) \<le> C * q \<and> C * q \<le> (if sign then 2 ^ 31 - 1 else 2 ^ 32 - 1) \<longleftrightarrow>
      - a \<le> q \<and> q \<le> b" for q
    unfolding a_def b_def multiples_below [OF C(2)] by (cases sign) (simp_all only: if_True if_False minus_zero signed_multiples [OF C(2) C31])
  have Aa: "int (unat (dt_A c)) = a * 2 ^ dt_K c" and Qab: "int (unat (dt_Q c)) = a + b"
    unfolding A Q a_def b_def C_def by (auto simp: zdiv_int)
  have "a + b \<le> C * (a + b)"
    using mult_right_mono [of 1 C "a + b"] C(2) ab0 by simp
  then have Q32: "int (unat (dt_Q c)) < 2 ^ 32"
    unfolding Qab using abM by simp
  show thesis
  proof (rule that [OF c K])
    show "unat (dt_Q c) < 2 ^ 32"
      using Q32 unfolding pow2_vals by linarith
    fix x :: u32
    define X where "X = (if sign then sint x else uint x)"
    let ?z = "x * ucast (dt_P c) + ucast (dt_A c)"
    have "x = word_of_int X" "(ucast (dt_P c) :: u32) = word_of_int (int (unat (dt_P c)))"
      "(ucast (dt_A c) :: u32) = word_of_int (a * 2 ^ dt_K c)"
      unfolding Aa [symmetric] by (simp_all add: X_def)
    then have "?z = word_of_int (X * int (unat (dt_P c)) + a * 2 ^ dt_K c)"
      by simp
    then have z: "uint ?z = (X * int (unat (dt_P c)) + a * 2 ^ dt_K c) mod 2 ^ 32"
      by (simp only: uint_word_of_int) simp
    have "int d * int (unat (dt_P c)) mod 2 ^ 32 = 1"
      using inv by (metis of_nat_1 of_nat_mult of_nat_numeral of_nat_power zmod_int)
    then have "C dvd X \<longleftrightarrow> uint ?z div 2 ^ dt_K c + uint ?z mod 2 ^ dt_K c * 2 ^ (32 - dt_K c) \<le> a + b"
      unfolding C(1)
    proof (rule divides_by_rotation [OF _ refl _ _ z])
      show "(if sign then - (2 ^ 31) else 0) \<le> X" "X \<le> (if sign then 2 ^ 31 - 1 else 2 ^ 32 - 1)"
        using sint_range_size [of x] uint_lt2p [of x] by (auto simp: X_def word_size)
      show "(if sign then - (2 ^ 31) else 0) \<le> int d * 2 ^ dt_K c * q \<and>
          int d * 2 ^ dt_K c * q \<le> (if sign then 2 ^ 31 - 1 else 2 ^ 32 - 1) \<longleftrightarrow> - a \<le> q \<and> q \<le> b" for q
        unfolding C(1) [symmetric] by (rule multiples)
    qed (use K d ab0 abM C(1) in auto)
    moreover have "uint (ucast (dt_Q c) :: u32) = a + b"
      using Q32 unfolding Qab [symmetric] by (simp add: unsigned_ucast_eq take_bit_int_eq_self)
    ultimately show "dt_rotate (dt_K c) ?z \<le> ucast (dt_Q c) \<longleftrightarrow> int (unat D) dvd (if sign then sint x else uint x)"
      unfolding word_le_def uint_rotate [OF K] by (simp add: C_def X_def)
  qed
qed

end
