(* ===== verification/Div_Pass.thy ===== *)
theory Div_Pass
  imports Ir_Rewrite Magic
begin

text \<open>
  The passes of \<open>src/opt/divmagic.c\<close> that make multiplications of divisions by a
  constant (\<open>pass_divmagic\<close>), one-instruction products of widening multiplications
  (\<open>pass_mulwiden\<close>), and multiplications of divisibility tests (\<open>pass_divtest\<close>).

  A pass rebuilds the instructions into a buffer and takes fresh registers from
  \<open>nvregs\<close>: both are the record \<open>ibuf\<close>.  What the target and the switches say is the
  record \<open>opt_target\<close>.  A C expression that nests the emission of a constant in the
  emission of an operation emits the constant first.
\<close>

section \<open>The buffer and the target\<close>

record ibuf =
  nb_p :: "ir_ins list"
  nb_nvregs :: int

record opt_target =
  t_ptr_size :: nat
  t_has_mulh :: bool
  t_div_calls :: "bool \<Rightarrow> bool"
  t_opt_size :: bool
  t_no_mulh :: bool
  t_no_mulw :: bool
  t_no_div16 :: bool
  t_no_divshift :: bool
  t_no_divtest :: bool

definition ib_push :: "ir_ins \<Rightarrow> ibuf \<Rightarrow> ibuf" where
  "ib_push i e = e\<lparr>nb_p := nb_p e @ [i]\<rparr>"

definition dm_const :: "u64 \<Rightarrow> nat \<Rightarrow> ir_ins \<Rightarrow> ibuf \<Rightarrow> int \<times> ibuf" where
  "dm_const v w src e =
    (nb_nvregs e,
     ib_push (ins_blank\<lparr>i_op := IR_CONST, i_dst := nb_nvregs e, i_w := w, i_imm := v,
       i_line := i_line src, i_col := i_col src, i_synth := True\<rparr>) (e\<lparr>nb_nvregs := nb_nvregs e + 1\<rparr>))"

definition dm_op :: "ir_op \<Rightarrow> int \<Rightarrow> int \<Rightarrow> nat \<Rightarrow> bool \<Rightarrow> nat \<Rightarrow> ir_ins \<Rightarrow> ibuf \<Rightarrow> int \<times> ibuf" where
  "dm_op p a b w sg sz src e =
    (nb_nvregs e,
     ib_push (ins_blank\<lparr>i_op := p, i_dst := nb_nvregs e, i_a := a, i_b := b, i_w := w, i_sign := sg, i_size := sz,
       i_line := i_line src, i_col := i_col src, i_synth := True\<rparr>) (e\<lparr>nb_nvregs := nb_nvregs e + 1\<rparr>))"

text \<open>\<open>dm_op(..., a, dm_const(v), ...)\<close>.\<close>

definition dm_op_const :: "ir_op \<Rightarrow> int \<Rightarrow> u64 \<Rightarrow> nat \<Rightarrow> bool \<Rightarrow> nat \<Rightarrow> ir_ins \<Rightarrow> ibuf \<Rightarrow> int \<times> ibuf" where
  "dm_op_const p a v w sg sz src e = (let (c, e) = dm_const v w src e in dm_op p a c w sg sz src e)"

function log2_loop :: "u64 \<Rightarrow> int \<Rightarrow> int" where
  "log2_loop v k = (if v > 1 then log2_loop (drop_bit 1 v) (k + 1) else k)"
  by auto
termination
  by (relation "measure (\<lambda>(v, k). unat v)") (auto simp: unat_drop_bit word_less_nat_alt)

declare log2_loop.simps [simp del]

definition log2_pow2_l :: "u64 \<Rightarrow> int" where
  "log2_pow2_l v = (if v = 0 \<or> v AND (v - 1) \<noteq> 0 then - 1 else log2_loop v 0)"

definition long_abs :: "u64 \<Rightarrow> u64" where
  "long_abs D = (if D <s 0 then - D else D)"

section \<open>A quotient on a machine with a high multiply\<close>

definition dm_udiv32 :: "int \<Rightarrow> u64 \<Rightarrow> ir_ins \<Rightarrow> ibuf \<Rightarrow> int \<times> ibuf" where
  "dm_udiv32 x D src e =
    (let ud = D AND 0xFFFFFFFF; k = log2_pow2_l ud
     in if k \<ge> 0 then dm_op_const IR_SHR x (word_of_int k) 4 False 0 src e
        else if ud \<ge> 0x80000000 then
          (let (c, e) = dm_const (scast (ucast ud :: u32)) 4 src e
           in (nb_nvregs e,
               ib_push (ins_blank\<lparr>i_op := IR_CMP, i_dst := nb_nvregs e, i_a := x, i_b := c, i_w := 4, i_sign := False,
                 i_pred := B_GE, i_line := i_line src, i_col := i_col src, i_synth := True\<rparr>)
                 (e\<lparr>nb_nvregs := nb_nvregs e + 1\<rparr>)))
        else
          (let mg = magic_u32 ud;
               (hi, e) = dm_op_const IR_MULH x (scast (ucast (mu_m mg) :: u32)) 4 False 0 src e
           in if \<not> mu_add mg then
                (if mu_s mg \<noteq> 0 then dm_op_const IR_SHR hi (of_nat (mu_s mg)) 4 False 0 src e else (hi, e))
              else
                (let (t4, e) = dm_op IR_SUB x hi 4 False 0 src e;
                     (t5, e) = dm_op_const IR_SHR t4 1 4 False 0 src e;
                     (t6, e) = dm_op IR_ADD t5 hi 4 False 0 src e
                 in if mu_s mg > 1 then dm_op_const IR_SHR t6 (of_nat (mu_s mg - 1)) 4 False 0 src e else (t6, e))))"

definition dm_sdiv32 :: "int \<Rightarrow> u64 \<Rightarrow> magics \<Rightarrow> ir_ins \<Rightarrow> ibuf \<Rightarrow> int \<times> ibuf" where
  "dm_sdiv32 x D mg src e =
    (let m = scast (ucast (sg_m mg) :: u32) :: u64;
         (t, e) = dm_op_const IR_MULH x m 4 True 0 src e;
         (t, e) = (if 0 <s D \<and> m <s 0 then dm_op IR_ADD t x 4 True 0 src e
                   else if D <s 0 \<and> 0 <s m then dm_op IR_SUB t x 4 True 0 src e
                   else (t, e));
         (t, e) = (if sg_s mg \<noteq> 0 then dm_op_const IR_SHR t (of_nat (sg_s mg)) 4 True 0 src e else (t, e));
         (sb, e) = dm_op_const IR_SHR t 31 4 False 0 src e
     in dm_op IR_ADD t sb 4 True 0 src e)"

definition dm_div32 :: "int \<Rightarrow> u64 \<Rightarrow> bool \<Rightarrow> ir_ins \<Rightarrow> ibuf \<Rightarrow> (int \<times> ibuf) option" where
  "dm_div32 x D sg src e =
    (if \<not> sg then Some (dm_udiv32 x D src e)
     else map_option (\<lambda>mg. dm_sdiv32 x D mg src e) (magic_s32 D))"

section \<open>Division by a constant\<close>

definition dm_narrow_bound :: "ir_func \<Rightarrow> defs \<Rightarrow> int \<Rightarrow> u64 option" where
  "dm_narrow_bound fn d x =
    (if x < 0 \<or> x \<ge> f_nvregs fn \<or> d_cnt d x \<noteq> 1 \<or> d_ins d x < 0 then None
     else
       (let i = f_ins fn ! nat (d_ins d x)
        in if (i_op i = IR_EXT \<or> i_op i = IR_LOAD \<or> i_op i = IR_LDVAR) \<and> \<not> i_sign i \<and> \<not> i_flt i \<and>
              (i_size i = 1 \<or> i_size i = 2) \<and> i_w i = 4
           then Some (if i_size i = 1 then 0xff else 0xffff)
           else if i_op i = IR_AND \<and> \<not> i_flt i \<and> i_w i = 4 then
             (case const_b fn d i of
                None \<Rightarrow> None
              | Some m \<Rightarrow> if 0 \<le>s m \<and> m \<le>s 0xffff then Some m else None)
           else None))"

text \<open>The signed power of two: \<open>(x + ((x >> 31) >>u (32 - sh))) >> sh\<close>.\<close>

definition dm_pow2 :: "int \<Rightarrow> u64 \<Rightarrow> ir_ins \<Rightarrow> ibuf \<Rightarrow> int \<times> ibuf" where
  "dm_pow2 x D src e =
    (let sh = log2_pow2_l (long_abs D);
         (t1, e) = dm_op_const IR_SHR x 31 4 True 0 src e;
         (t2, e) = (if sh = 0 then (t1, e) else dm_op_const IR_SHR t1 (word_of_int (32 - sh)) 4 False 0 src e);
         (t3, e) = dm_op IR_ADD x t2 4 True 0 src e;
         (q, e) = (if sh = 0 then (t3, e) else dm_op_const IR_SHR t3 (word_of_int sh) 4 True 0 src e)
     in if D <s 0 then (let (z, e) = dm_const 0 4 src e in dm_op IR_SUB z q 4 True 0 src e) else (q, e))"

definition dm_sdiv64 :: "bool \<Rightarrow> int \<Rightarrow> u64 \<Rightarrow> magics \<Rightarrow> ir_ins \<Rightarrow> ibuf \<Rightarrow> int \<times> ibuf" where
  "dm_sdiv64 no_divshift x D mg src e =
    (let (xe, e) = dm_op IR_EXT x (- 1) 8 True 4 src e;
         (hi, e) = dm_op_const IR_MUL xe (sg_m mg) 8 True 0 src e;
         fold = (\<not> (0 <s D \<and> sg_m mg <s 0) \<and> \<not> (D <s 0 \<and> 0 <s sg_m mg) \<and> sg_s mg > 0 \<and> \<not> no_divshift);
         (t3, e) = dm_op_const IR_SHR hi (of_nat (32 + (if fold then sg_s mg else 0))) 8 True 0 src e;
         s = (if fold then 0 else sg_s mg);
         (t3, e) = (if 0 <s D \<and> sg_m mg <s 0 then dm_op IR_ADD t3 x 4 True 0 src e
                    else if D <s 0 \<and> 0 <s sg_m mg then dm_op IR_SUB t3 x 4 True 0 src e
                    else (t3, e));
         (t4, e) = (if s \<noteq> 0 then dm_op_const IR_SHR t3 (of_nat s) 4 True 0 src e else (t3, e));
         (t5, e) = dm_op_const IR_SHR t4 31 4 False 0 src e
     in dm_op IR_ADD t4 t5 4 True 0 src e)"

definition dm_udiv64 :: "bool \<Rightarrow> int \<Rightarrow> u64 \<Rightarrow> ir_ins \<Rightarrow> ibuf \<Rightarrow> int \<times> ibuf" where
  "dm_udiv64 no_divshift x D src e =
    (let mg = magic_u32 (D AND 0xFFFFFFFF);
         (xe, e) = dm_op IR_EXT x (- 1) 8 False 4 src e;
         (hi, e) = dm_op_const IR_MUL xe (mu_m mg) 8 False 0 src e;
         fold = (\<not> mu_add mg \<and> mu_s mg > 0 \<and> \<not> no_divshift);
         (t3, e) = dm_op_const IR_SHR hi (of_nat (32 + (if fold then mu_s mg else 0))) 8 False 0 src e;
         s = (if fold then 0 else mu_s mg)
     in if \<not> mu_add mg then
          (if s \<noteq> 0 then dm_op_const IR_SHR t3 (of_nat s) 4 False 0 src e else (t3, e))
        else
          (let (t4, e) = dm_op IR_SUB x t3 4 False 0 src e;
               (t5, e) = dm_op_const IR_SHR t4 1 4 False 0 src e;
               (t6, e) = dm_op IR_ADD t5 t3 4 False 0 src e
           in if s > 1 then dm_op_const IR_SHR t6 (of_nat (s - 1)) 4 False 0 src e else (t6, e)))"

definition dm_mulh32 :: "opt_target \<Rightarrow> bool" where
  "dm_mulh32 T \<longleftrightarrow> t_ptr_size T < 8 \<and> t_has_mulh T \<and> \<not> t_no_mulh T"

definition dm_pow2_only :: "opt_target \<Rightarrow> bool" where
  "dm_pow2_only T \<longleftrightarrow> t_ptr_size T < 8 \<and> \<not> dm_mulh32 T"

definition dm_narrow16 :: "opt_target \<Rightarrow> bool" where
  "dm_narrow16 T \<longleftrightarrow> dm_pow2_only T \<and> \<not> t_opt_size T \<and> \<not> t_no_div16 T \<and> t_div_calls T False"

definition dm_quotient :: "opt_target \<Rightarrow> int \<Rightarrow> u64 \<Rightarrow> bool \<Rightarrow> ir_ins \<Rightarrow> ibuf \<Rightarrow> (int \<times> ibuf) option" where
  "dm_quotient T x D sg src e =
    (let pow2 = (sg \<and> log2_pow2_l (long_abs D) \<ge> 0)
     in if dm_mulh32 T \<and> \<not> pow2 then dm_div32 x (scast (ucast D :: u32)) sg src e
        else if pow2 then Some (dm_pow2 x D src e)
        else if sg then map_option (\<lambda>mg. dm_sdiv64 (t_no_divshift T) x D mg src e) (magic_s32 D)
        else Some (dm_udiv64 (t_no_divshift T) x D src e))"

text \<open>The quotient, or what it leaves of the dividend, into the register the division wrote.\<close>

definition dm_result :: "bool \<Rightarrow> int \<Rightarrow> int \<Rightarrow> u64 \<Rightarrow> bool \<Rightarrow> ir_ins \<Rightarrow> ibuf \<Rightarrow> ibuf" where
  "dm_result is_mod x q D sg src e =
    (let (mq, e) = (if is_mod then dm_op_const IR_MUL q D 4 sg 0 src e else (- 1, e));
         out = (if is_mod then ins_zero\<lparr>i_op := IR_SUB, i_a := x, i_b := mq\<rparr>
                else ins_zero\<lparr>i_op := IR_MOV, i_a := q, i_b := - 1\<rparr>)
     in ib_push (out\<lparr>i_dst := i_dst src, i_w := 4, i_sign := sg, i_line := i_line src, i_col := i_col src\<rparr>) e)"

definition dm_narrow :: "int \<Rightarrow> u64 \<Rightarrow> u64 \<Rightarrow> nat \<Rightarrow> ir_ins \<Rightarrow> ibuf \<Rightarrow> int \<times> ibuf" where
  "dm_narrow x D M sh src e =
    (let (t, e) = dm_op_const IR_MUL x M 4 False 0 src e
     in if sh \<noteq> 0 then dm_op_const IR_SHR t (of_nat sh) 4 False 0 src e else (t, e))"

definition dm_candidate :: "opt_target \<Rightarrow> ir_func \<Rightarrow> defs \<Rightarrow> ir_ins \<Rightarrow> u64 option" where
  "dm_candidate T fn d src =
    (if (i_op src \<noteq> IR_DIV \<and> i_op src \<noteq> IR_MOD) \<or> i_flt src \<or> i_w src \<noteq> 4 \<or> i_dst src < 0 then None
     else
       (case const_b fn d src of
          None \<Rightarrow> None
        | Some D \<Rightarrow>
            if D = 0 \<or> D = 1 \<or> (D = - 1 \<and> \<not> (dm_mulh32 T \<and> \<not> i_sign src)) then None else Some D))"

definition dm_narrow_consts :: "opt_target \<Rightarrow> ir_func \<Rightarrow> defs \<Rightarrow> ir_ins \<Rightarrow> u64 \<Rightarrow> (u64 \<times> nat) option" where
  "dm_narrow_consts T fn d src D =
    (if dm_narrow16 T \<and> 1 <s D \<and> D \<le>s 0xffff then
       Option.bind (dm_narrow_bound fn d (i_a src)) (dm_narrow_magic D)
     else None)"

text \<open>One turn of the loop of \<open>pass_divmagic\<close>: the buffer, and whether the instruction was replaced.\<close>

definition dm_ins :: "opt_target \<Rightarrow> ir_func \<Rightarrow> defs \<Rightarrow> ir_ins \<Rightarrow> ibuf \<Rightarrow> (ibuf \<times> bool) option" where
  "dm_ins T fn d src e =
    (case dm_candidate T fn d src of
       None \<Rightarrow> Some (ib_push src e, False)
     | Some D \<Rightarrow>
         (case dm_narrow_consts T fn d src D of
            Some (M, sh) \<Rightarrow>
              (let (q, e) = dm_narrow (i_a src) D M sh src e
               in Some (dm_result (i_op src = IR_MOD) (i_a src) q D False src e, True))
          | None \<Rightarrow>
              if dm_pow2_only T \<and> \<not> (i_sign src \<and> log2_pow2_l (long_abs D) \<ge> 0) then Some (ib_push src e, False)
              else map_option (\<lambda>(q, e). (dm_result (i_op src = IR_MOD) (i_a src) q D (i_sign src) src e, True))
                     (dm_quotient T (i_a src) D (i_sign src) src e)))"

text \<open>The loop of a pass over the instructions, with the position each one moves to.\<close>

primrec pass_loop :: "(ir_ins \<Rightarrow> ibuf \<Rightarrow> (ibuf \<times> bool) option) \<Rightarrow> ir_ins list \<Rightarrow> ibuf \<Rightarrow> (int list \<times> ibuf \<times> bool) option" where
  "pass_loop f [] e = Some ([int (length (nb_p e))], e, False)"
| "pass_loop f (i # is) e =
    Option.bind (f i e) (\<lambda>(e1, c1).
      Option.bind (pass_loop f is e1) (\<lambda>(newpos, e2, c2).
        Some (int (length (nb_p e)) # newpos, e2, c1 \<or> c2)))"

definition move_scope :: "int list \<Rightarrow> int \<Rightarrow> int \<Rightarrow> int" where
  "move_scope newpos nins p = (if p \<ge> 0 \<and> p \<le> nins then newpos ! nat p else p)"

definition pass_end :: "ir_func \<Rightarrow> int list \<times> ibuf \<times> bool \<Rightarrow> ir_func \<times> bool" where
  "pass_end fn = (\<lambda>(newpos, e, changed).
    if \<not> changed then (fn\<lparr>f_nvregs := nb_nvregs e\<rparr>, False)
    else
      (let mv = move_scope newpos (int (length (f_ins fn)))
       in (fn\<lparr>f_ins := nb_p e, f_nvregs := nb_nvregs e,
             f_scope_lo := map_option (map mv) (f_scope_lo fn),
             f_scope_hi := (if f_scope_lo fn = None then f_scope_hi fn else map mv (f_scope_hi fn))\<rparr>, True)))"

definition pass_divmagic :: "opt_target \<Rightarrow> ir_func \<Rightarrow> (ir_func \<times> bool) option" where
  "pass_divmagic T fn =
    (if f_ins fn = [] then Some (fn, False)
     else if t_ptr_size T < 8 \<and> t_opt_size T \<and> \<not> t_div_calls T True then Some (fn, False)
     else map_option (pass_end fn)
            (pass_loop (dm_ins T fn (compute_defs fn)) (f_ins fn) \<lparr>nb_p = [], nb_nvregs = f_nvregs fn\<rparr>))"

end
