(* ===== verification/Div_Num.thy ===== *)
theory Div_Num
  imports Ir_Fold Div_Pass
begin

text \<open>
  The multiplier sequences of \<open>src/opt/divmagic.c\<close> on 32-bit words: what the shifts
  and corrections around the high half of the product leave is the quotient.
\<close>

lemma unat_of_quotient:
  fixes x :: u32
  assumes "unat m < 2 ^ 32"
  shows "unat (word_of_int ((uint x * uint (lo m)) div 2 ^ 32) :: u32) = unat x * unat m div 2 ^ 32"
proof -
  have m: "uint (lo m) = int (unat m)"
    unfolding uint_nat using assms by (simp add: unsigned_ucast_eq take_bit_nat_eq_self)
  have "unat x * unat m \<le> unat x * 2 ^ 32"
    using assms by (intro mult_le_mono2) simp
  then have "unat x * unat m div 2 ^ 32 \<le> unat x"
    by (metis div_le_mono nonzero_mult_div_cancel_right power_eq_0_iff zero_neq_numeral)
  moreover have "unat x < 2 ^ 32"
    using unsigned_less [of x, where 'a = nat] by simp
  ultimately have "unat (of_nat (unat x * unat m div 2 ^ 32) :: u32) = unat x * unat m div 2 ^ 32"
    by (simp add: unat_of_nat)
  moreover have "(uint x * uint (lo m)) div 2 ^ 32 = int (unat x * unat m div 2 ^ 32)"
    unfolding m by (simp add: zdiv_int)
  ultimately show ?thesis
    by (simp only: of_int_of_nat_eq)
qed

lemma umagic_words:
  fixes x :: u32
  assumes d: "1 < unat d" "unat d < 2 ^ 32"
  defines "m \<equiv> mu_m (magic_u32 d)" and "s \<equiv> mu_s (magic_u32 d)"
  defines "hi \<equiv> (word_of_int ((uint x * uint (lo m)) div 2 ^ 32) :: u32)"
  shows "\<not> mu_add (magic_u32 d) \<Longrightarrow> s \<le> 31 \<and> drop_bit s hi = x div lo d"
    "mu_add (magic_u32 d) \<Longrightarrow> 0 < s \<and> s \<le> 32 \<and> drop_bit (s - 1) (drop_bit 1 (x - hi) + hi) = x div lo d"
proof -
  note q = magic_u32_quotient [OF d, folded m_def s_def]
  define M where "M = unat m + (if mu_add (magic_u32 d) then 2 ^ 32 else 0)"
  have x32: "unat x < 2 ^ 32"
    using unsigned_less [of x, where 'a = nat] by simp
  have dx: "unat (x div lo d) = unat x div unat d"
    using d by (simp add: unat_div unsigned_ucast_eq take_bit_nat_eq_self)
  have hi: "unat hi = unat x * unat m div 2 ^ 32"
    unfolding hi_def by (rule unat_of_quotient [OF q(1)])
  have quo: "unat x * M div 2 ^ 32 div 2 ^ s = unat x div unat d"
    using q(4) [OF x32] unfolding M_def power_add div_mult2_eq .
  show "s \<le> 31 \<and> drop_bit s hi = x div lo d" if no_add: "\<not> mu_add (magic_u32 d)"
  proof
    have "unat d * M div 2 ^ (32 + s) = 1"
      using q(4) [OF d(2)] d(1) unfolding M_def by simp
    then have "2 ^ (32 + s) \<le> unat d * M"
      by (metis div_less less_numeral_extra(3) not_less zero_neq_one)
    also have "\<dots> < 2 ^ 32 * 2 ^ 32"
      using d q(1) no_add unfolding M_def by (intro mult_strict_mono) auto
    finally have "2 ^ (32 + s) < (2 :: nat) ^ 64"
      by simp
    then have "32 + s < 64"
      by (rule power_less_imp_less_exp [rotated]) simp
    then show "s \<le> 31"
      by simp
    show "drop_bit s hi = x div lo d"
      using quo no_add by (simp add: word_unat_eq_iff dx unat_drop_bit hi M_def)
  qed
  show "0 < s \<and> s \<le> 32 \<and> drop_bit (s - 1) (drop_bit 1 (x - hi) + hi) = x div lo d" if add: "mu_add (magic_u32 d)"
  proof (intro conjI)
    show s: "0 < s" "s \<le> 32"
      using q(2,3) add by auto
    have "unat x * unat m \<le> unat x * 2 ^ 32"
      using q(1) by (intro mult_le_mono2) simp
    then have le: "unat hi \<le> unat x"
      unfolding hi by (metis div_le_mono nonzero_mult_div_cancel_right power_eq_0_iff zero_neq_numeral)
    then have "unat (x - hi) = unat x - unat hi"
      by (simp add: unat_sub word_le_nat_alt)
    then have h: "unat (drop_bit 1 (x - hi)) + unat hi = (unat x + unat hi) div 2"
      using le by (simp add: unat_drop_bit)
    then have sum: "unat (drop_bit 1 (x - hi) + hi) = (unat x + unat hi) div 2"
      using x32 le by (simp add: unat_word_ariths)
    have "unat x + unat hi = unat x * M div 2 ^ 32"
      unfolding hi M_def using add by (simp add: distrib_left)
    moreover have "(2 :: nat) ^ s = 2 * 2 ^ (s - 1)"
      using s(1) by (cases s) auto
    ultimately have "(unat x + unat hi) div 2 div 2 ^ (s - 1) = unat x div unat d"
      using quo by (simp add: div_mult2_eq)
    then show "drop_bit (s - 1) (drop_bit 1 (x - hi) + hi) = x div lo d"
      by (simp only: word_unat_eq_iff dx unat_drop_bit sum)
  qed
qed


text \<open>The signed sequence, from the high half of the product with the multiplier read as a signed word.\<close>

lemma sint_word32:
  fixes M :: int
  shows "sint (word_of_int M :: u32) = (M + 2 ^ 31) mod 2 ^ 32 - 2 ^ 31"
  by (simp add: int_word_sint)

lemma sint_word64: "- (2 ^ 63) \<le> k \<Longrightarrow> k < 2 ^ 63 \<Longrightarrow> sint (word_of_int k :: u64) = k"
  by (simp add: int_word_sint)

lemma signed_multiplier:
  fixes M :: int
  defines "m \<equiv> sint (word_of_int M :: u32)"
  shows "0 < M \<Longrightarrow> M < 2 ^ 32 \<Longrightarrow> M = (if m < 0 then m + 2 ^ 32 else m)"
    "- (2 ^ 32) < M \<Longrightarrow> M < 0 \<Longrightarrow> M = (if 0 < m then m - 2 ^ 32 else m)"
proof -
  have "m = M + 2 ^ 32 * (- ((M + 2 ^ 31) div 2 ^ 32))"
    unfolding m_def sint_word32 minus_mult_div_eq_mod [of "M + 2 ^ 31" "2 ^ 32", symmetric] by linarith
  then obtain k where k: "m = M + 2 ^ 32 * k" ..
  have r: "- (2 ^ 31) \<le> m" "m < 2 ^ 31"
    unfolding m_def sint_word32 by simp_all
  show "M = (if m < 0 then m + 2 ^ 32 else m)" if M: "0 < M" "M < 2 ^ 32"
  proof -
    have "k \<le> 0" "- 1 \<le> k"
      using M r k unfolding pow2_vals by linarith+
    then consider "k = 0" | "k = - 1"
      by linarith
    then show ?thesis
      using M k by cases auto
  qed
  show "M = (if 0 < m then m - 2 ^ 32 else m)" if M: "- (2 ^ 32) < M" "M < 0"
  proof -
    have "k \<le> 1" "0 \<le> k"
      using M r k unfolding pow2_vals by linarith+
    then consider "k = 0" | "k = 1"
      by linarith
    then show ?thesis
      using M k by cases auto
  qed
qed

lemma high_half_range:
  fixes x M :: int
  assumes "- (2 ^ 31) \<le> x" "x < 2 ^ 31" "\<bar>M\<bar> < 2 ^ 32"
  shows "- (2 ^ 31) \<le> (x * M) div 2 ^ 32" "(x * M) div 2 ^ 32 < 2 ^ 31"
proof -
  have "\<bar>x * M\<bar> \<le> 2 ^ 31 * (2 ^ 32 - 1)"
    unfolding abs_mult using assms by (intro mult_mono) auto
  then have "- (2 ^ 31 * 2 ^ 32) \<le> x * M" "x * M < 2 ^ 31 * 2 ^ 32"
    by auto
  then show "- (2 ^ 31) \<le> (x * M) div 2 ^ 32" "(x * M) div 2 ^ 32 < 2 ^ 31"
    by auto
qed

lemma add_one_if_negative:
  fixes r :: u32
  shows "r + drop_bit 31 r = word_of_int (sint r + (if sint r < 0 then 1 else 0))"
proof -
  have "bit r 31 \<longleftrightarrow> sint r < 0"
    using bit_last_iff [of r] by simp
  moreover have "drop_bit 31 r = (if bit r 31 then 1 else 0)"
    by (intro bit_word_eqI, rename_tac n, case_tac "n = 0") (auto simp: bit_simps dest: bit_imp_le_length)
  ultimately have "drop_bit 31 r = (if sint r < 0 then 1 else 0)"
    by simp
  then show ?thesis
    by simp
qed

text \<open>\<open>m\<close> is the multiplier, its word wrapped; \<open>corrects\<close> says that the wrap is undone by the correction.\<close>

definition corrects :: "int \<Rightarrow> int \<Rightarrow> int \<Rightarrow> bool" where
  "corrects D m M \<longleftrightarrow> M = (if 0 < D \<and> m < 0 then m + 2 ^ 32 else if D < 0 \<and> 0 < m then m - 2 ^ 32 else m)"

definition signed_magic :: "int \<Rightarrow> nat \<Rightarrow> int \<Rightarrow> bool" where
  "signed_magic D s M \<longleftrightarrow> (\<forall>x. - (2 ^ 31) \<le> x \<and> x < 2 ^ 31 \<longrightarrow>
    (let t = (x * M) div 2 ^ (32 + s) in t + (if t < 0 then 1 else 0) = x sdiv D))"

definition corrected :: "int \<Rightarrow> int \<Rightarrow> u32 \<Rightarrow> u32 \<Rightarrow> u32" where
  "corrected D m hi x = (if 0 < D \<and> m < 0 then hi + x else if D < 0 \<and> 0 < m then hi - x else hi)"

lemma smagic_multiplier:
  assumes d: "1 < \<bar>sint d\<bar>" "- (2 ^ 31) \<le> sint d" "sint d < 2 ^ 31" and mg: "magic_s32 d = Some mg"
  obtains M where "sg_s mg \<le> 31" "\<bar>M\<bar> < 2 ^ 32" "corrects (sint d) (sint (lo (sg_m mg))) M" "corrects (sint d) (sint (sg_m mg)) M"
    "\<bar>sint (sg_m mg)\<bar> \<le> 2 ^ 31" "signed_magic (sint d) (sg_s mg) M"
proof -
  obtain n s where n: "magic_s32 d = Some \<lparr>sg_m = (if d <s 0 then - scast (of_nat n :: u32) else scast (of_nat n :: u32)), sg_s = s\<rparr>"
    "0 < n" "n < 2 ^ 32" "s \<le> 31"
    and quo: "\<And>x t. - (2 ^ 31) \<le> x \<Longrightarrow> x < 2 ^ 31 \<Longrightarrow>
      t = (x * (if sint d < 0 then - int n else int n)) div 2 ^ (32 + s) \<Longrightarrow>
      t + (if t < 0 then 1 else 0) = x sdiv sint d"
    using magic_s32_quotient [OF d] by blast
  define M where "M = (if sint d < 0 then - int n else int n)"
  define w where "w = sint (word_of_int (int n) :: u32)"
  have neg: "d <s 0 \<longleftrightarrow> sint d < 0"
    by (simp add: word_sless_alt)
  have s: "sg_s mg = s" and sg: "sg_m mg = (if sint d < 0 then - sx (word_of_int (int n)) else sx (word_of_int (int n)))"
    using mg n(1) by (auto simp: neg)
  have w: "int n = (if w < 0 then w + 2 ^ 32 else w)" "- (2 ^ 31) \<le> w" "w < 2 ^ 31"
    using signed_multiplier(1) [of "int n"] n(2,3) sint_range_size [of "word_of_int (int n) :: u32"]
    by (auto simp: w_def word_size)
  have sm: "sint (sg_m mg) = (if sint d < 0 then - w else w)"
  proof -
    have "sg_m mg = word_of_int (if sint d < 0 then - w else w)"
      by (cases "sint d < 0") (simp_all only: sg w_def scast_eq of_int_minus if_True if_False)
    then show ?thesis
      using w(2,3) by (simp add: sint_word64)
  qed
  have "lo (sg_m mg) = word_of_int M"
    using low32_hom(2) [of 0] by (auto simp: sg M_def)
  then have lm: "sint (lo (sg_m mg)) = sint (word_of_int M :: u32)"
    by simp
  show thesis
  proof (rule that [of M])
    show "sg_s mg \<le> 31" "\<bar>M\<bar> < 2 ^ 32" "\<bar>sint (sg_m mg)\<bar> \<le> 2 ^ 31"
      using n w by (auto simp: s M_def sm)
    show "corrects (sint d) (sint (sg_m mg)) M"
      using w d(1) unfolding corrects_def sm M_def by auto
    show "corrects (sint d) (sint (lo (sg_m mg))) M"
      unfolding lm corrects_def using signed_multiplier [of M] n d(1) by (auto simp: M_def)
    show "signed_magic (sint d) (sg_s mg) M"
      using quo unfolding signed_magic_def Let_def s M_def by blast
  qed
qed

lemma smagic_words:
  fixes x :: u32
  assumes s: "s \<le> 31" and M: "\<bar>M\<bar> < 2 ^ 32" and c: "corrects D m M" and D: "D \<noteq> 0"
    and quo: "signed_magic D s M"
  defines "r \<equiv> signed_drop_bit s (corrected D m (word_of_int ((sint x * m) div 2 ^ 32)) x)"
  shows "r + drop_bit 31 r = word_of_int (sint x sdiv D)"
    "\<not> (0 < D \<and> m < 0) \<Longrightarrow> \<not> (D < 0 \<and> 0 < m) \<Longrightarrow> r = word_of_int ((sint x * m) div 2 ^ (32 + s))"
proof -
  have x: "- (2 ^ 31) \<le> sint x" "sint x < 2 ^ 31"
    using sint_range_size [of x] by (simp_all add: word_size)
  define T where "T = (sint x * M) div 2 ^ 32"
  have shifted: "(sint x * (m + 2 ^ 32 * c)) div 2 ^ 32 = (sint x * m) div 2 ^ 32 + sint x * c" for c
    by (simp add: distrib_left mult.left_commute)
  have "corrected D m (word_of_int ((sint x * m) div 2 ^ 32)) x = word_of_int T"
    using c shifted [of 1] shifted [of "- 1"] D by (auto simp: corrected_def corrects_def T_def)
  moreover have "sint (word_of_int T :: u32) = T"
    using high_half_range [OF x M] unfolding T_def [symmetric] by (simp add: sint_word32)
  ultimately have "sint r = T div 2 ^ s"
    by (simp add: r_def sint_signed_drop_bit_eq drop_bit_eq_div)
  also have "T div 2 ^ s = (sint x * M) div 2 ^ (32 + s)"
    unfolding T_def power_add by (simp add: zdiv_zmult2_eq)
  finally have r: "sint r = (sint x * M) div 2 ^ (32 + s)" .
  then have "sint r + (if sint r < 0 then 1 else 0) = sint x sdiv D"
    using quo x by (simp add: signed_magic_def Let_def)
  then show "r + drop_bit 31 r = word_of_int (sint x sdiv D)"
    unfolding add_one_if_negative by simp
  show "r = word_of_int ((sint x * m) div 2 ^ (32 + s))" if "\<not> (0 < D \<and> m < 0)" "\<not> (D < 0 \<and> 0 < m)"
  proof -
    have "M = m"
      using c that unfolding corrects_def by auto
    then have "word_of_int (sint r) = (word_of_int ((sint x * m) div 2 ^ (32 + s)) :: u32)"
      using r by simp
    then show ?thesis
      by simp
  qed
qed

section \<open>Products at 64 bits\<close>

lemma ucast_lo: "unat m < 2 ^ 32 \<Longrightarrow> ucast (lo m) = m" for m :: u64
proof -
  assume "unat m < 2 ^ 32"
  then have "unat (lo m) = unat m"
    by (simp add: unsigned_ucast_eq take_bit_nat_eq_self)
  then show ?thesis
    by (simp only: word_unat_eq_iff unat_ucast_up)
qed

lemma sint_small: "unat q < 2 ^ 31 \<Longrightarrow> sint q = uint q" for q :: u32
proof -
  assume "unat q < 2 ^ 31"
  then have "uint q < 2 ^ 31"
    unfolding uint_nat pow2_vals by linarith
  then have "sint (word_of_int (uint q) :: u32) = uint q"
    unfolding sint_word32 by (subst mod_pos_pos_trivial) simp_all
  then show ?thesis
    by simp
qed

lemma sx_small: "unat q < 2 ^ 31 \<Longrightarrow> sx q = ucast q"
  by (simp only: sint_small scast_eq ucast_eq)

lemma umagic_long:
  fixes x :: u32
  assumes d: "1 < unat d" "unat d < 2 ^ 32"
  defines "m \<equiv> mu_m (magic_u32 d)" and "s \<equiv> mu_s (magic_u32 d)"
  shows "lo (drop_bit 32 (ucast x * m)) = word_of_int ((uint x * uint (lo m)) div 2 ^ 32)"
    "\<not> mu_add (magic_u32 d) \<Longrightarrow> drop_bit (32 + s) (ucast x * m) = sx (x div lo d)"
proof -
  have m: "unat m < 2 ^ 32"
    unfolding m_def by (rule magic_u32_quotient(1) [OF d])
  then have um: "ucast (lo m) = m"
    by (rule ucast_lo)
  then have p: "uint (ucast x * m) = uint x * uint (lo m)"
    using product_exact(1) [of x "lo m"] by simp
  show "lo (drop_bit 32 (ucast x * m)) = word_of_int ((uint x * uint (lo m)) div 2 ^ 32)"
  proof -
    have "drop_bit 32 (ucast x * m) = word_of_int (uint (drop_bit 32 (ucast x * m)))"
      by simp
    then show ?thesis
      by (simp only: uint_drop_div p lo_word_of_int)
  qed
  assume no_add: "\<not> mu_add (magic_u32 d)"
  define q where "q = x div lo d"
  have q: "unat q = unat x div unat d"
    using d by (simp add: q_def unat_div unsigned_ucast_eq take_bit_nat_eq_self)
  have x32: "unat x < 2 ^ 32"
    using unsigned_less [of x, where 'a = nat] by simp
  have "unat q \<le> unat x div 2"
    unfolding q using d(1) by (intro div_le_mono2) auto
  then have q31: "unat q < 2 ^ 31"
    using x32 by simp
  have "unat x * unat m < 2 ^ 32 * 2 ^ 32"
    using m x32 by (intro mult_strict_mono) auto
  then have "unat (ucast x * m :: u64) = unat (ucast x :: u64) * unat m"
    by (intro unat_mult_ok) (simp add: unat_ucast_up)
  then have "unat (drop_bit (32 + s) (ucast x * m)) = unat q"
    using magic_u32_quotient(4) [OF d x32] no_add unfolding q by (simp add: unat_drop_bit unat_ucast_up m_def s_def)
  then show "drop_bit (32 + s) (ucast x * m) = sx (x div lo d)"
    unfolding q_def [symmetric] sx_small [OF q31] by (simp only: word_unat_eq_iff unat_ucast_up)
qed

lemma smagic_long:
  fixes x :: u32 and m :: u64
  assumes "\<bar>sint m\<bar> \<le> 2 ^ 31"
  shows "lo (signed_drop_bit k (sx x * m)) = word_of_int ((sint x * sint m) div 2 ^ k)"
proof -
  have "\<bar>sint x\<bar> \<le> 2 ^ 31"
    using sint_range_size [of x] by (simp add: word_size abs_le_iff)
  then have "\<bar>sint x * sint m\<bar> \<le> 2 ^ 31 * 2 ^ 31"
    unfolding abs_mult using assms by (intro mult_mono) auto
  then have "- (2 ^ 63) \<le> sint x * sint m" "sint x * sint m < 2 ^ 63"
    by simp_all
  moreover have "sx x * m = word_of_int (sint x * sint m)"
    by (simp add: sint_sx [symmetric] del: sint_sx)
  ultimately have "sint (sx x * m) = sint x * sint m"
    by (simp only: sint_word64)
  then show ?thesis
    by (simp only: lo_sint sint_signed_drop_bit_eq drop_bit_eq_div)
qed

section \<open>Powers of two\<close>

lemma and_pred_power_int: "0 < (a :: int) \<Longrightarrow> a AND (a - 1) = 0 \<Longrightarrow> \<exists>n. a = 2 ^ n"
proof (induction "nat a" arbitrary: a rule: less_induct)
  case less
  show ?case
  proof (cases "a = 1")
    case True
    then show ?thesis
      by (intro exI [of _ 0]) simp
  next
    case False
    have rec: "a AND (a - 1) = (a mod 2) * ((a - 1) mod 2) + 2 * ((a div 2) AND ((a - 1) div 2))"
      using less.prems False by (subst and_int_unfold) auto
    have ev: "even a"
    proof (rule ccontr)
      assume "odd a"
      then obtain b where b: "a = 2 * b + 1"
        by (auto elim: oddE)
      have "(a div 2) AND ((a - 1) div 2) = b"
        unfolding b by simp
      then show False
        using rec less.prems False b by simp
    qed
    then obtain b where b: "a = 2 * b"
      by (auto elim: evenE)
    have b1: "(a - 1) div 2 = b - 1" "a div 2 = b"
      using b by simp_all
    have "b AND (b - 1) = 0"
      using rec less.prems(2) ev unfolding b1 by auto
    moreover have "0 < b" "nat b < nat a"
      using b less.prems(1) by auto
    ultimately obtain n where "b = 2 ^ n"
      using less.hyps by blast
    then show ?thesis
      unfolding b by (intro exI [of _ "Suc n"]) simp
  qed
qed

lemma log2_loop_power: "n < 64 \<Longrightarrow> log2_loop (2 ^ n) k = k + int n"
proof (induction n arbitrary: k)
  case (Suc n)
  have "(2 :: nat) ^ Suc n < 2 ^ 64"
    using Suc.prems by (intro power_strict_increasing) auto
  then have "unat (2 ^ Suc n :: u64) = 2 ^ Suc n"
    using unat_push_bit_lt [of "1 :: u64" "Suc n"] by simp
  then have "drop_bit 1 (2 ^ Suc n :: u64) = 2 ^ n" "(1 :: u64) < 2 ^ Suc n"
    using Suc.prems one_less_power [of "2 :: nat" "Suc n"]
    by (simp_all add: drop_bit_exp_eq possible_bit_word word_less_nat_alt del: power_Suc)
  then show ?case
    using Suc by (subst log2_loop.simps) simp
qed (simp add: log2_loop.simps)

lemma log2_pow2_l_power:
  assumes "0 \<le> log2_pow2_l v"
  shows "v = 2 ^ nat (log2_pow2_l v)" "log2_pow2_l v < 64"
proof -
  have v: "v \<noteq> 0" "v AND (v - 1) = 0"
    using assms by (auto simp: log2_pow2_l_def split: if_splits)
  have "uint (v - 1) = uint v - 1"
    using v(1) uint_minus_simple_alt [of 1 v] by (simp add: word_le_nat_alt unat_gt_0 Suc_leI)
  then have "uint v AND (uint v - 1) = 0"
    using v(2) by (metis uint_and unsigned_0)
  moreover have "0 < uint v"
    using v(1) unfolding uint_nat by (simp only: of_nat_0_less_iff unat_gt_0 simp_thms)
  ultimately obtain n where n: "uint v = 2 ^ n"
    using and_pred_power_int by blast
  then have "n < 64"
    using uint_lt2p [of v] power_less_imp_less_exp [of "2 :: int" n 64] by simp
  moreover have vn: "v = 2 ^ n"
    using n by (metis of_int_numeral of_int_power word_of_int_uint)
  ultimately have "log2_pow2_l v = int n"
    using v log2_loop_power [of n 0] by (simp add: log2_pow2_l_def)
  then show "v = 2 ^ nat (log2_pow2_l v)" "log2_pow2_l v < 64"
    using vn \<open>n < 64\<close> by simp_all
qed

lemma long_abs_power:
  assumes "0 \<le> log2_pow2_l (long_abs D)" "- (2 ^ 31) \<le> sint D" "sint D < 2 ^ 31"
  shows "\<bar>sint D\<bar> = 2 ^ nat (log2_pow2_l (long_abs D))" "log2_pow2_l (long_abs D) \<le> 31"
proof -
  define k where "k = nat (log2_pow2_l (long_abs D))"
  have k: "long_abs D = 2 ^ k" "k < 64" "int k = log2_pow2_l (long_abs D)"
    using log2_pow2_l_power [OF assms(1)] assms(1) by (simp_all add: k_def)
  have "long_abs D = word_of_int \<bar>sint D\<bar>"
    by (simp add: long_abs_def word_sless_alt)
  then have "(word_of_int \<bar>sint D\<bar> :: u64) = word_of_int (2 ^ k)"
    using k(1) by simp
  then have "\<bar>sint D\<bar> mod 2 ^ 64 = 2 ^ k mod 2 ^ 64"
    unfolding word_of_int_eq_iff take_bit_eq_mod by simp
  moreover have "(2 :: int) ^ k < 2 ^ 64"
    using k(2) by (intro power_strict_increasing) auto
  ultimately have abs: "\<bar>sint D\<bar> = 2 ^ k"
    using assms(2,3) by simp
  then have "(2 :: int) ^ k < 2 ^ 32"
    using assms(2,3) by (simp add: abs_if split: if_splits)
  show "\<bar>sint D\<bar> = 2 ^ nat (log2_pow2_l (long_abs D))"
    using abs by (simp add: k_def)
  have "k < 32"
    using \<open>(2 :: int) ^ k < 2 ^ 32\<close> by (rule power_less_imp_less_exp [rotated]) simp
  then show "log2_pow2_l (long_abs D) \<le> 31"
    using k(3) by linarith
qed

lemma sdiv_pos_bias:
  fixes x P :: int
  assumes "0 < P"
  shows "(x + (if x < 0 then P - 1 else 0)) div P = x sdiv P"
proof (cases "x < 0")
  case True
  have "x + (P - 1) = P * (- ((- x) div P)) + (P - 1 - (- x) mod P)"
    using mult_div_mod_eq [of P "- x"] by linarith
  moreover have "0 \<le> P - 1 - (- x) mod P" "P - 1 - (- x) mod P < P"
    using assms pos_mod_bound [OF assms, of "- x"] pos_mod_sign [OF assms, of "- x"] by linarith+
  ultimately have "(x + (P - 1)) div P = - ((- x) div P)"
    by (rule int_div_pos_eq)
  then show ?thesis
    using True assms by (simp add: signed_divide_int_def)
next
  case False
  then show ?thesis
    using assms by (cases "x = 0") (simp_all add: signed_divide_int_def)
qed

lemma pow2_words:
  fixes x :: u32
  assumes k: "1 \<le> k" "k \<le> 31"
  shows "signed_drop_bit k (x + drop_bit (32 - k) (signed_drop_bit 31 x)) = word_of_int (sint x sdiv 2 ^ k)"
proof -
  define b :: int where "b = (if sint x < 0 then 2 ^ k - 1 else 0)"
  have x: "- (2 ^ 31) \<le> sint x" "sint x < 2 ^ 31"
    using sint_range_size [of x] by (simp_all add: word_size)
  have "bit x 31 \<longleftrightarrow> sint x < 0"
    using bit_last_iff [of x] by simp
  then have "drop_bit (32 - k) (signed_drop_bit 31 x) = word_of_int b"
    using k unfolding b_def
    by (intro bit_word_eqI) (auto simp: bit_simps mask_eq_exp_minus_1 [symmetric] dest: bit_imp_le_length)
  then have "sint (x + drop_bit (32 - k) (signed_drop_bit 31 x)) = sint (word_of_int (sint x + b) :: u32)"
    by simp
  also have "\<dots> = sint x + b"
  proof -
    have "(2 :: int) ^ k \<le> 2 ^ 31" "(0 :: int) < 2 ^ k"
      using k power_increasing [of k 31 "2 :: int"] by simp_all
    then have "- (2 ^ 31) \<le> sint x + b \<and> sint x + b < 2 ^ 31"
      using x unfolding b_def pow2_vals by (cases "sint x < 0") (simp_all only: if_True if_False, linarith+)
    then show ?thesis
      unfolding sint_word32 by (subst mod_pos_pos_trivial) simp_all
  qed
  finally have "sint (signed_drop_bit k (x + drop_bit (32 - k) (signed_drop_bit 31 x))) = (sint x + b) div 2 ^ k"
    by (simp only: sint_signed_drop_bit_eq drop_bit_eq_div)
  also have "\<dots> = sint x sdiv 2 ^ k"
    unfolding b_def by (simp add: sdiv_pos_bias)
  finally have "word_of_int (sint (signed_drop_bit k (x + drop_bit (32 - k) (signed_drop_bit 31 x)))) =
      (word_of_int (sint x sdiv 2 ^ k) :: u32)"
    by simp
  then show ?thesis
    by simp
qed

end
