(* ===== verification/Div_Emit.thy ===== *)
theory Div_Emit
  imports Div_Num
begin

text \<open>
  The sequences \<open>src/opt/divmagic.c\<close> emits compute the quotient.  \<open>holds \<rho> s e F\<close>: what was
  emitted between the buffers \<open>s\<close> and \<open>e\<close> runs from the registers \<open>\<rho>\<close>, keeps those below
  the first fresh one and leaves in each register of \<open>F\<close> its value; \<open>gives\<close> adds the register an
  emission returns.  One rule per emitter lets the proofs follow the code.
\<close>

section \<open>What an emission computes\<close>

definition holds :: "env \<Rightarrow> ibuf \<Rightarrow> ibuf \<Rightarrow> (int \<times> u64) list \<Rightarrow> bool" where
  "holds \<rho> s e F \<longleftrightarrow>
    (\<exists>blk \<rho>'. nb_p e = nb_p s @ blk \<and> nb_nvregs s \<le> nb_nvregs e \<and> (\<forall>i \<in> set blk. i_op i \<noteq> IR_LABEL) \<and>
       eval_block blk \<rho> = Some \<rho>' \<and> agree (nb_nvregs s) \<rho> \<rho>' \<and>
       (\<forall>(v, x) \<in> set F. v < nb_nvregs e \<and> \<rho>' v = x))"

definition gives :: "env \<Rightarrow> ibuf \<Rightarrow> (int \<times> u64) list \<Rightarrow> int \<times> ibuf \<Rightarrow> u64 \<Rightarrow> bool" where
  "gives \<rho> s F r y \<longleftrightarrow> holds \<rho> s (snd r) ((fst r, y) # F)"

lemma holds_start: "\<forall>(v, x) \<in> set F. v < nb_nvregs s \<and> \<rho> v = x \<Longrightarrow> holds \<rho> s s F"
  unfolding holds_def by (intro exI [of _ "[]"] exI [of _ \<rho>]) (simp add: agree_def)

lemma gives_have: "holds \<rho> s e F \<Longrightarrow> (t, y) \<in> set F \<Longrightarrow> gives \<rho> s F (t, e) y"
  by (auto simp: gives_def holds_def)

lemma gives_bind:
  assumes "gives \<rho> s F r y" "\<And>t e. holds \<rho> s e ((t, y) # F) \<Longrightarrow> gives \<rho> s ((t, y) # F) (k t e) z"
  shows "gives \<rho> s F (case r of (t, e) \<Rightarrow> k t e) z"
proof -
  have "gives \<rho> s ((fst r, y) # F) (k (fst r) (snd r)) z"
    using assms by (simp add: gives_def)
  then show ?thesis
    by (auto simp: gives_def holds_def split_beta)
qed

lemma gives_if:
  "(b \<Longrightarrow> gives \<rho> s F r y) \<Longrightarrow> (\<not> b \<Longrightarrow> gives \<rho> s F r' y') \<Longrightarrow>
    gives \<rho> s F (if b then r else r') (if b then y else y')"
  by simp

lemma gives_push:
  assumes h: "holds \<rho> s e F" and i: "i_op i \<noteq> IR_LABEL" "i_dst i = nb_nvregs e"
    and v: "\<And>\<rho>'. (\<forall>(v, x) \<in> set F. \<rho>' v = x) \<Longrightarrow> ir_value \<rho>' i = Some y"
  shows "gives \<rho> s F (nb_nvregs e, ib_push i (e\<lparr>nb_nvregs := nb_nvregs e + 1\<rparr>)) y"
proof -
  obtain blk \<rho>' where b: "nb_p e = nb_p s @ blk" "nb_nvregs s \<le> nb_nvregs e" "\<forall>i \<in> set blk. i_op i \<noteq> IR_LABEL"
    "eval_block blk \<rho> = Some \<rho>'" "agree (nb_nvregs s) \<rho> \<rho>'" "\<forall>(v, x) \<in> set F. v < nb_nvregs e \<and> \<rho>' v = x"
    using h unfolding holds_def by blast
  have "ir_value \<rho>' i = Some y"
    using b(6) by (intro v) auto
  then have "eval_block (blk @ [i]) \<rho> = Some (\<rho>'(nb_nvregs e := y))"
    using b(4) i by (simp add: eval_block_append)
  moreover have "agree (nb_nvregs s) \<rho> (\<rho>'(nb_nvregs e := y))"
    using b(2,5) by (simp add: agree_def)
  ultimately show ?thesis
    using b i unfolding gives_def holds_def
    by (intro exI [of _ "blk @ [i]"] exI [of _ "\<rho>'(nb_nvregs e := y)"]) (auto simp: ib_push_def)
qed

lemma gives_const:
  assumes "holds \<rho> s e F" "w = 4 \<or> w = 8"
  shows "gives \<rho> s F (dm_const v w src e) v"
  unfolding dm_const_def using assms by (intro gives_push) (auto simp: ir_value_def)

lemma blank_flags: "\<not> i_flt ins_blank" "\<not> i_imm_b ins_blank" "i_pred ins_blank = B_ADD"
  by (simp_all add: ins_blank_def ins_zero_def)

definition emit_op :: "ir_op \<Rightarrow> bool" where
  "emit_op p \<longleftrightarrow> p \<in> {IR_ADD, IR_SUB, IR_MUL, IR_MULH, IR_SHR, IR_CMP}"

lemma emit_op_value:
  assumes "emit_op (i_op i)" "\<not> i_flt i" "\<not> i_imm_b i" "i_w i = 4 \<or> i_w i = 8"
  shows "ir_value \<rho> i = fold_bin (i_op i) (\<rho> (i_a i)) (\<rho> (i_b i)) (i_w i) (i_sign i) (i_pred i)" "i_op i \<noteq> IR_LABEL"
proof -
  have "i_op i \<noteq> IR_LABEL \<and> ir_value \<rho> i = fold_bin (i_op i) (\<rho> (i_a i)) (\<rho> (i_b i)) (i_w i) (i_sign i) (i_pred i)"
    using assms unfolding emit_op_def insert_iff empty_iff
    by (elim disjE FalseE) (simp_all add: ir_value_def wide_mul_def bin_op_def opnd_b_def)
  then show "ir_value \<rho> i = fold_bin (i_op i) (\<rho> (i_a i)) (\<rho> (i_b i)) (i_w i) (i_sign i) (i_pred i)" "i_op i \<noteq> IR_LABEL"
    by blast+
qed

lemma gives_op:
  assumes "holds \<rho> s e F" "emit_op p" "w = 4 \<or> w = 8" "(a, x) \<in> set F" "(b, y) \<in> set F"
    "fold_bin p x y w sg B_ADD = Some z"
  shows "gives \<rho> s F (dm_op p a b w sg sz src e) z"
  unfolding dm_op_def
proof (rule gives_push [OF assms(1)])
  let ?i = "ins_blank\<lparr>i_op := p, i_dst := nb_nvregs e, i_a := a, i_b := b, i_w := w, i_sign := sg, i_size := sz,
       i_line := i_line src, i_col := i_col src, i_synth := True\<rparr>"
  have i: "emit_op (i_op ?i)" "\<not> i_flt ?i" "\<not> i_imm_b ?i" "i_w ?i = 4 \<or> i_w ?i = 8"
    using assms by (simp_all add: blank_flags)
  show "i_op ?i \<noteq> IR_LABEL" "i_dst ?i = nb_nvregs e"
    using emit_op_value(2) [OF i] by simp_all
  show "ir_value \<rho>' ?i = Some z" if "\<forall>(v, x) \<in> set F. \<rho>' v = x" for \<rho>'
  proof -
    have "\<rho>' a = x" "\<rho>' b = y"
      using that assms(4,5) by auto
    then show ?thesis
      using assms(6) unfolding emit_op_value(1) [OF i] by (simp add: blank_flags)
  qed
qed

lemma gives_ext:
  assumes "holds \<rho> s e F" "(a, x) \<in> set F"
  shows "gives \<rho> s F (dm_op IR_EXT a b 8 sg sz src e) (fold_ext x sz sg 8)"
  unfolding dm_op_def using assms by (intro gives_push) (auto simp: ir_value_def blank_flags)

lemma gives_op_const:
  assumes "holds \<rho> s e F" "emit_op p" "w = 4 \<or> w = 8" "(a, x) \<in> set F" "fold_bin p x v w sg B_ADD = Some z"
  shows "gives \<rho> s F (dm_op_const p a v w sg sz src e) z"
  unfolding dm_op_const_def Let_def
proof (rule gives_bind)
  show "gives \<rho> s F (dm_const v w src e) v"
    by (rule gives_const [OF assms(1,3)])
  show "gives \<rho> s ((t, v) # F) (dm_op p a t w sg sz src e) z" if "holds \<rho> s e ((t, v) # F)" for t e
    by (rule gives_op [OF that assms(2,3) _ _ assms(5)]) (simp_all add: assms(4))
qed

lemma emit_ops: "emit_op IR_ADD" "emit_op IR_SUB" "emit_op IR_MUL" "emit_op IR_MULH" "emit_op IR_SHR"
  by (simp_all add: emit_op_def)

lemma and_mask_small: "n < 2 ^ k \<Longrightarrow> k \<le> LENGTH('a) \<Longrightarrow> unat (of_nat n AND (mask k :: 'a :: len word)) = n"
  by (simp add: take_bit_eq_mask [symmetric] unsigned_take_bit_eq unsigned_of_nat min_def take_bit_nat_eq_self)

lemma shift_count_4: "n \<le> 31 \<Longrightarrow> unat (lo (of_nat n) AND 31) = n"
  using and_mask_small [of n 5, where 'a = 32] lo_word_of_int [of "int n"] by (simp add: mask_eq_exp_minus_1)

lemma shift_count_8: "n \<le> 63 \<Longrightarrow> unat (of_nat n AND (63 :: u64)) = n"
  using and_mask_small [of n 6, where 'a = 64] by (simp add: mask_eq_exp_minus_1)

lemma shr_4:
  assumes "n \<le> 31"
  shows "fold_bin IR_SHR A (of_nat n) 4 False p = Some (sx (drop_bit n (lo A)))"
    "fold_bin IR_SHR A (of_nat n) 4 True p = Some (sx (signed_drop_bit n (lo A)))"
  unfolding fold_bin_4 shift_count_4 [OF assms] by simp_all

lemma shr_8:
  assumes "n \<le> 63"
  shows "fold_bin IR_SHR A (of_nat n) 8 False p = Some (drop_bit n A)"
    "fold_bin IR_SHR A (of_nat n) 8 True p = Some (signed_drop_bit n A)"
  unfolding fold_bin_8 shift_count_8 [OF assms] by simp_all

lemmas gives_4 = gives_op [where w = 4, OF _ _ disjI1 [OF refl]] gives_op_const [where w = 4, OF _ _ disjI1 [OF refl]]

lemmas gives_8 = gives_op [where w = 8, OF _ _ disjI2 [OF refl]] gives_op_const [where w = 8, OF _ _ disjI2 [OF refl]]

lemma low_word: "unat (D AND 0xFFFFFFFF) = unat (lo D)" "lo (D AND 0xFFFFFFFF) = lo D" for D :: u64
proof -
  have m: "(0xFFFFFFFF :: u64) = mask 32"
    by (simp add: mask_eq_exp_minus_1)
  have low: "D AND mask 32 = ucast (lo D)"
    by (rule bit_word_eqI) (auto simp: bit_simps)
  show "unat (D AND 0xFFFFFFFF) = unat (lo D)" "lo (D AND 0xFFFFFFFF) = lo D"
    unfolding m low by (simp_all only: unat_ucast_up lo_sx)
qed

section \<open>The unsigned quotient\<close>

lemma gives_eq: "gives \<rho> s F r y \<Longrightarrow> y = z \<Longrightarrow> gives \<rho> s F r z"
  by simp

lemma shr_by_1: "fold_bin IR_SHR A 1 4 False p = Some (sx (drop_bit 1 (lo A)))"
  and shr_by_31: "fold_bin IR_SHR A 31 4 False p = Some (sx (drop_bit 31 (lo A)))" "fold_bin IR_SHR A 31 4 True p = Some (sx (signed_drop_bit 31 (lo A)))"
  using shr_4 [of 1] shr_4 [of 31] by simp_all

lemmas emission = gives_bind gives_if gives_4 gives_have list.set_intros emit_ops fold_bin_4(1-3) fold_mulh_4 shr_by_1 shr_by_31 shr_4

lemma unsigned_corrections:
  assumes h: "holds \<rho> s e F" and x: "(x, X) \<in> set F" and hi: "(t, y) \<in> set F" and s: "0 < n" "n \<le> 32"
  shows "gives \<rho> s F
    (case dm_op IR_SUB x t 4 False 0 src e of (t4, e) \<Rightarrow>
     case dm_op_const IR_SHR t4 1 4 False 0 src e of (t5, e) \<Rightarrow>
     case dm_op IR_ADD t5 t 4 False 0 src e of (t6, e) \<Rightarrow>
       if n > 1 then dm_op_const IR_SHR t6 (of_nat (n - 1)) 4 False 0 src e else (t6, e))
    (sx (drop_bit (n - 1) (drop_bit 1 (lo X - lo y) + lo y)))"
proof -
  have n: "n - 1 \<le> 31"
    using s by linarith
  show ?thesis
    by (rule gives_eq, (assumption | rule emission h x hi n)+) (use s in \<open>auto simp: not_less\<close>)
qed

lemma unsigned_power:
  assumes "0 \<le> log2_pow2_l (D AND 0xFFFFFFFF)"
  shows "nat (log2_pow2_l (D AND 0xFFFFFFFF)) \<le> 31" "lo X div lo D = drop_bit (nat (log2_pow2_l (D AND 0xFFFFFFFF))) (lo X)"
proof -
  define k where "k = nat (log2_pow2_l (D AND 0xFFFFFFFF))"
  have k: "D AND 0xFFFFFFFF = 2 ^ k" "k < 64"
    using log2_pow2_l_power [OF assms] assms by (simp_all add: k_def)
  have "(2 :: nat) ^ k < 2 ^ 64"
    using k(2) by (intro power_strict_increasing) auto
  then have "unat (2 ^ k :: u64) = 2 ^ k"
    using unat_push_bit_lt [of "1 :: u64" k] by simp
  then have u: "unat (lo D) = 2 ^ k"
    using low_word(1) [of D] k(1) by simp
  then have "(2 :: nat) ^ k < 2 ^ 32"
    using unsigned_less [of "lo D", where 'a = nat] by simp
  then have "k < 32"
    by (rule power_less_imp_less_exp [rotated]) simp
  then show "nat (log2_pow2_l (D AND 0xFFFFFFFF)) \<le> 31"
    by (simp add: k_def)
  show "lo X div lo D = drop_bit (nat (log2_pow2_l (D AND 0xFFFFFFFF))) (lo X)"
    unfolding k_def [symmetric] by (simp add: word_unat_eq_iff unat_div u unat_drop_bit)
qed

lemma quotient_by_large:
  fixes x d :: u32
  assumes "0x80000000 \<le> d"
  shows "sx (x div d) = (if d \<le> x then 1 else 0)"
proof -
  have "unat x < 2 * unat d"
    using assms unsigned_less [of x, where 'a = nat] by (simp add: word_le_nat_alt)
  then have "unat (x div d) = (if d \<le> x then 1 else 0)"
    unfolding unat_div word_le_nat_alt by (auto simp: div_if)
  then have "x div d = (if d \<le> x then 1 else 0)"
    by (simp add: word_unat_eq_iff)
  then show ?thesis
    by simp
qed

lemma large_compare:
  assumes h: "holds \<rho> s e F" and x: "(x, X) \<in> set F" and D: "0x80000000 \<le> lo D"
  shows "gives \<rho> s F
    (case dm_const (sx (lo D)) 4 src e of (c, e) \<Rightarrow>
       (nb_nvregs e,
        ib_push (ins_blank\<lparr>i_op := IR_CMP, i_dst := nb_nvregs e, i_a := x, i_b := c, i_w := 4, i_sign := False,
          i_pred := B_GE, i_line := i_line src, i_col := i_col src, i_synth := True\<rparr>)
          (e\<lparr>nb_nvregs := nb_nvregs e + 1\<rparr>)))
    (sx (lo X div lo D))"
proof (rule gives_bind [OF gives_const [OF h disjI1 [OF refl]]], rule gives_push)
  fix c :: int and e :: ibuf and \<rho>' :: env
  let ?F = "(c, sx (lo D)) # F"
  let ?i = "ins_blank\<lparr>i_op := IR_CMP, i_dst := nb_nvregs e, i_a := x, i_b := c, i_w := 4, i_sign := False,
          i_pred := B_GE, i_line := i_line src, i_col := i_col src, i_synth := True\<rparr>"
  assume "holds \<rho> s e ?F"
  then show "holds \<rho> s e ?F" .
  have i: "emit_op (i_op ?i)" "\<not> i_flt ?i" "\<not> i_imm_b ?i" "i_w ?i = 4 \<or> i_w ?i = 8"
    by (simp_all add: blank_flags emit_op_def)
  assume "\<forall>(v, x) \<in> set ?F. \<rho>' v = x"
  then have "\<rho>' x = X" "\<rho>' c = sx (lo D)"
    using x by auto
  then show "ir_value \<rho>' ?i = Some (sx (lo X div lo D))"
    unfolding emit_op_value(1) [OF i] by (simp add: fold_cmp_4 quotient_by_large [OF D])
qed simp_all

lemma dm_udiv32_quotient:
  assumes h: "holds \<rho> s e F" and x: "(x, X) \<in> set F" and D: "1 < unat (lo D)"
  shows "gives \<rho> s F (dm_udiv32 x D src e) (sx (lo X div lo D))"
proof -
  let ?ud = "D AND 0xFFFFFFFF"
  let ?k = "log2_pow2_l ?ud" and ?mg = "magic_u32 ?ud"
  have ud: "1 < unat ?ud" "unat ?ud < 2 ^ 32"
    using D unsigned_less [of "lo D", where 'a = nat] by (simp_all add: low_word)
  note words = umagic_words [OF ud, where x = "lo X", unfolded low_word(2)]
  consider "0 \<le> ?k" | "?k < 0" "0x80000000 \<le> ?ud" | "?k < 0" "\<not> 0x80000000 \<le> ?ud" "mu_add ?mg"
    | "?k < 0" "\<not> 0x80000000 \<le> ?ud" "\<not> mu_add ?mg" "mu_s ?mg = 0" | "?k < 0" "\<not> 0x80000000 \<le> ?ud" "\<not> mu_add ?mg" "mu_s ?mg \<noteq> 0"
    by linarith
  then show ?thesis
  proof cases
    case 1
    then have k: "word_of_int ?k = of_nat (nat ?k)"
      by simp
    show ?thesis
      unfolding dm_udiv32_def Let_def if_P [OF 1] k
      by (rule gives_eq, (assumption | rule emission h x unsigned_power(1) 1)+) (simp add: unsigned_power(2) [OF 1])
  next
    case 2
    then have "0x80000000 \<le> lo D"
      using low_word(1) [of D] by (simp add: word_le_nat_alt)
    then show ?thesis
      using 2 large_compare [OF h x] by (simp add: dm_udiv32_def Let_def low_word)
  next
    case 3
    note w = words(2) [OF 3(3)]
    have k: "\<not> 0 \<le> ?k"
      using 3(1) by simp
    show ?thesis
      unfolding dm_udiv32_def Let_def
      by (simp only: k 3 simp_thms if_True if_False, rule gives_eq, (assumption | rule unsigned_corrections emission h x conjunct1 [OF w] conjunct1 [OF conjunct2 [OF w]])+)
        (use w in simp)
  next
    case 4
    have k: "\<not> 0 \<le> ?k"
      using 4(1) by simp
    show ?thesis
      unfolding dm_udiv32_def Let_def
      by (simp only: k 4 simp_thms if_True if_False, rule gives_eq, (assumption | rule emission h x)+) (use words(1) [OF 4(3)] 4(4) in simp)
  next
    case 5
    note w = words(1) [OF 5(3)]
    have k: "\<not> 0 \<le> ?k"
      using 5(1) by simp
    show ?thesis
      unfolding dm_udiv32_def Let_def if_not_P [OF k] if_not_P [OF 5(2)] if_P [OF 5(3)] if_P [OF 5(4)]
      by (rule gives_eq, (assumption | rule emission h x conjunct1 [OF w])+) (use w in simp)
  qed
qed

lemma dm_udiv64_quotient:
  assumes h: "holds \<rho> s e F" and x: "(x, X) \<in> set F" and D: "1 < unat (lo D)"
  shows "gives \<rho> s F (dm_udiv64 no_divshift x D src e) (sx (lo X div lo D))"
proof -
  let ?ud = "D AND 0xFFFFFFFF"
  let ?mg = "magic_u32 ?ud"
  have ud: "1 < unat ?ud" "unat ?ud < 2 ^ 32"
    using D unsigned_less [of "lo D", where 'a = nat] by (simp_all add: low_word)
  note words = umagic_words [OF ud, where x = "lo X", unfolded low_word(2)]
  note long = umagic_long [OF ud, where x = "lo X", unfolded low_word(2)]
  define n where "n = 32 + (if \<not> mu_add ?mg \<and> mu_s ?mg > 0 \<and> \<not> no_divshift then mu_s ?mg else 0)"
  define k where "k = (if \<not> mu_add ?mg \<and> mu_s ?mg > 0 \<and> \<not> no_divshift then 0 else mu_s ?mg)"
  have n: "n \<le> 63"
    using words by (auto simp: n_def)
  show ?thesis
  proof (cases "mu_add ?mg")
    case True
    then have w: "0 < k" "k \<le> 32" "drop_bit (k - 1) (drop_bit 1 (lo X - lo (drop_bit 32 (ucast (lo X) * mu_m ?mg))) + lo (drop_bit 32 (ucast (lo X) * mu_m ?mg))) = lo X div lo D"
      using words(2) long(1) by (simp_all add: k_def)
    show ?thesis
      unfolding dm_udiv64_def Let_def n_def [symmetric] k_def [symmetric]
      by (simp only: True simp_thms if_False, rule gives_eq,
          (assumption | rule unsigned_corrections gives_ext emission gives_8 fold_bin_8(1) shr_8 h x w n)+)
        (use w True in \<open>simp add: fold_ext_48 n_def\<close>)
  next
    case False
    have k: "k \<le> 31"
      using words(1) [OF False] by (simp add: k_def)
    show ?thesis
      unfolding dm_udiv64_def Let_def n_def [symmetric] k_def [symmetric]
      by (simp only: False simp_thms if_True, rule gives_eq,
          (assumption | rule gives_ext emission gives_8 fold_bin_8(1) shr_8 h x k n)+)
        (use words(1) [OF False] long False in \<open>auto simp: fold_ext_48 n_def k_def\<close>)
  qed
qed

section \<open>The signed quotient\<close>

lemma normal_divisor:
  assumes "norm D 4 = D"
  shows "sint D = sint (lo D)" "- (2 ^ 31) \<le> sint D" "sint D < 2 ^ 31"
proof -
  have D: "D = sx (lo D)"
    using assms by (simp add: norm_4)
  show s: "sint D = sint (lo D)"
    by (subst D) (rule sint_sx)
  show "- (2 ^ 31) \<le> sint D" "sint D < 2 ^ 31"
    using sint_range_size [of "lo D"] unfolding s by (simp_all add: word_size)
qed

lemma lo_shifted: "lo (if n \<noteq> 0 then sx (signed_drop_bit n (lo y)) else y) = signed_drop_bit n (lo y)"
  by simp

lemma lo_corrected:
  "lo (if 0 <s D \<and> m <s 0 then sx (lo y + lo x) else if D <s 0 \<and> 0 <s m then sx (lo y - lo x) else y) =
    corrected (sint D) (sint m) (lo y) (lo x)"
  by (simp add: corrected_def word_sless_alt)

lemma dm_sdiv32_quotient:
  assumes h: "holds \<rho> s e F" and x: "(x, X) \<in> set F" and D: "norm D 4 = D" "1 < \<bar>sint D\<bar>" and mg: "magic_s32 D = Some mg"
  shows "gives \<rho> s F (dm_sdiv32 x D mg src e) (sx (word_of_int (sint (lo X) sdiv sint D)))"
proof -
  obtain M where M: "sg_s mg \<le> 31" "\<bar>M\<bar> < 2 ^ 32" "corrects (sint D) (sint (lo (sg_m mg))) M"
    and quo: "signed_magic (sint D) (sg_s mg) M"
    using smagic_multiplier [OF D(2) normal_divisor(2,3) [OF D(1)] mg] by blast
  have D0: "sint D \<noteq> 0"
    using D(2) by auto
  note words = smagic_words(1) [OF M D0 quo, where x = "lo X"]
  show ?thesis
    unfolding dm_sdiv32_def Let_def
    by (rule gives_eq, (assumption | rule emission h x M(1))+)
      (simp only: lo_shifted, simp only: lo_corrected, simp only: lo_sx sint_sx words)
qed

lemma dm_sdiv64_quotient:
  assumes h: "holds \<rho> s e F" and x: "(x, X) \<in> set F" and D: "norm D 4 = D" "1 < \<bar>sint D\<bar>" and mg: "magic_s32 D = Some mg"
  shows "gives \<rho> s F (dm_sdiv64 no_divshift x D mg src e) (sx (word_of_int (sint (lo X) sdiv sint D)))"
proof -
  obtain M where s: "sg_s mg \<le> 31" "\<bar>M\<bar> < 2 ^ 32" 
    and c: "corrects (sint D) (sint (sg_m mg)) M" and m: "\<bar>sint (sg_m mg)\<bar> \<le> 2 ^ 31"
    and quo: "signed_magic (sint D) (sg_s mg) M"
    using smagic_multiplier [OF D(2) normal_divisor(2,3) [OF D(1)] mg] by blast
  have D0: "sint D \<noteq> 0"
    using D(2) by auto
  note words = smagic_words [OF s c D0 quo, where x = "lo X"] and long = smagic_long [OF m, of _ "lo X"]
  let ?fold = "\<not> (0 <s D \<and> sg_m mg <s 0) \<and> \<not> (D <s 0 \<and> 0 <s sg_m mg) \<and> sg_s mg > 0 \<and> \<not> no_divshift"
  define n where "n = 32 + (if ?fold then sg_s mg else 0)"
  define k where "k = (if ?fold then 0 else sg_s mg)"
  have n: "n \<le> 63" "k \<le> 31"
    using s(1) by (auto simp: n_def k_def)
  define r where "r = signed_drop_bit k (corrected (sint D) (sint (sg_m mg)) (word_of_int ((sint (lo X) * sint (sg_m mg)) div 2 ^ n)) (lo X))"
  have "r = signed_drop_bit (sg_s mg) (corrected (sint D) (sint (sg_m mg)) (word_of_int ((sint (lo X) * sint (sg_m mg)) div 2 ^ 32)) (lo X))"
    using words(2) unfolding r_def n_def k_def by (auto simp: corrected_def word_sless_alt)
  then have "r + drop_bit 31 r = word_of_int (sint (lo X) sdiv sint D)"
    using words(1) by simp
  then show ?thesis
    unfolding dm_sdiv64_def Let_def n_def [symmetric] k_def [symmetric]
    by - (rule gives_eq, (assumption | rule emission gives_ext gives_8 fold_bin_8(1) shr_8 h x n)+,
      simp only: lo_shifted, simp only: lo_corrected, simp only: lo_sx fold_ext_48 long r_def)
qed

lemma dm_pow2_quotient:
  assumes h: "holds \<rho> s e F" and x: "(x, X) \<in> set F" and D: "norm D 4 = D" "1 < \<bar>sint D\<bar>"
    and pow2: "0 \<le> log2_pow2_l (long_abs D)"
  shows "gives \<rho> s F (dm_pow2 x D src e) (sx (word_of_int (sint (lo X) sdiv sint D)))"
proof -
  define k where "k = nat (log2_pow2_l (long_abs D))"
  have abs: "\<bar>sint D\<bar> = 2 ^ k" and k31: "k \<le> 31" and kl: "log2_pow2_l (long_abs D) = int k"
    using long_abs_power [OF pow2 normal_divisor(2,3) [OF D(1)]] pow2 by (simp_all add: k_def)
  have k: "1 \<le> k" "32 - k \<le> 31"
    using D(2) abs k31 by (cases k; simp)+
  have c: "word_of_int (32 - int k) = (of_nat (32 - k) :: u64)"
    using k31 by (simp add: of_nat_diff)
  have quo: "word_of_int (sint (lo X) sdiv sint D) = (if D <s 0 then - word_of_int (sint (lo X) sdiv 2 ^ k) else word_of_int (sint (lo X) sdiv 2 ^ k) :: u32)"
  proof (cases "sint D < 0")
    case True
    then have "sint D = - (2 ^ k)"
      using abs by simp
    then have "sint (lo X) sdiv sint D = - (sint (lo X) sdiv 2 ^ k)"
      by (simp add: signed_divide_int_def)
    then show ?thesis
      using True by (simp add: word_sless_alt)
  next
    case False
    then show ?thesis
      using abs by (simp add: word_sless_alt)
  qed
  have k0: "int k \<noteq> 0"
    using k by simp
  show ?thesis
    unfolding dm_pow2_def Let_def kl c of_int_of_nat_eq if_not_P [OF k0]
    by (rule gives_eq, (assumption | rule emission gives_const disjI1 refl h x k k31)+)
      (simp add: quo pow2_words [OF k(1) k31])
qed

section \<open>A narrow dividend\<close>

lemma dm_narrow_quotient_word:
  assumes h: "holds \<rho> s e F" and x: "(x, X) \<in> set F" and D: "1 < D" "D \<le> 0xffff"
    and M: "B \<le> 0xffff" "dm_narrow_magic D B = Some (M, sh)" "unat (lo X) \<le> unat B" "sh \<noteq> 32"
  shows "gives \<rho> s F (dm_narrow x D M sh src e) (sx (lo X div lo D))"
proof -
  note q = dm_narrow_quotient [OF D M(1,2,3)]
  have sh: "sh \<le> 31"
    using q(2) M(4) by simp
  have d: "unat (lo D) = unat D"
    using D(2) by (simp add: unsigned_ucast_eq take_bit_nat_eq_self word_le_nat_alt)
  have "unat (lo X * lo M) = unat (lo X) * unat M"
  proof (cases "unat (lo X) = 0")
    case False
    then have "1 * unat M \<le> unat (lo X) * unat M"
      by (intro mult_le_mono1) simp
    then have "unat M < 2 ^ 32"
      using q(1) by linarith
    then have "unat (lo M) = unat M"
      by (simp add: unsigned_ucast_eq take_bit_nat_eq_self)
    then show ?thesis
      using q(1) by (simp add: unat_word_ariths)
  qed (simp add: unat_eq_zero)
  then have v: "lo X div lo D = drop_bit sh (lo X * lo M)"
    using q(3) d by (simp add: word_unat_eq_iff unat_div unat_drop_bit)
  show ?thesis
    unfolding dm_narrow_def Let_def
    by (rule gives_eq, (assumption | rule emission h x sh)+) (simp add: v)
qed

section \<open>The quotient of a division, and its result\<close>

definition quot32 :: "bool \<Rightarrow> u32 \<Rightarrow> u32 \<Rightarrow> u32" where
  "quot32 sg x d = (if sg then word_of_int (sint x sdiv sint d) else x div d)"

lemma dm_quotient_value:
  assumes h: "holds \<rho> s e F" and x: "(x, X) \<in> set F" and D: "norm D 4 = D" "D \<noteq> 0" "D \<noteq> 1" "D = - 1 \<Longrightarrow> dm_mulh32 T \<and> \<not> sg"
    and wide: "dm_pow2_only T \<Longrightarrow> sg \<and> 0 \<le> log2_pow2_l (long_abs D)"
  shows "\<exists>r. dm_quotient T x D sg src e = Some r \<and> gives \<rho> s F r (sx (quot32 sg (lo X) (lo D)))"
proof (cases sg)
  case True
  have Ds: "D = sx (lo D)"
    using D(1) by (simp add: norm_4)
  have inj: "sint D = k \<Longrightarrow> D = word_of_int k" for k
    by auto
  have "sint D \<noteq> 0" "sint D \<noteq> 1" "sint D \<noteq> - 1"
    using D True inj [of 0] inj [of 1] inj [of "- 1"] by auto
  then have abs: "1 < \<bar>sint D\<bar>"
    by linarith
  have "\<exists>mg. magic_s32 D = Some mg"
    by (rule magic_s32_quotient [OF abs normal_divisor(2,3) [OF D(1)]]) (rule exI)
  then obtain mg where mg: "magic_s32 D = Some mg" ..
  show ?thesis
    using True mg dm_pow2_quotient [OF h x D(1) abs] dm_sdiv32_quotient [OF h x D(1) abs mg] dm_sdiv64_quotient [OF h x D(1) abs mg]
    by (simp add: dm_quotient_def dm_div32_def Let_def quot32_def Ds [symmetric] normal_divisor(1) [OF D(1), symmetric]
      del: split_paired_Ex)
next
  case False
  have Ds: "D = sx (lo D)"
    using D(1) by (simp add: norm_4)
  have "lo D \<noteq> 0" "lo D \<noteq> 1"
    using D(2,3) Ds [symmetric] by auto
  then have "1 < unat (lo D)"
    using unat_eq_zero [of "lo D"] word_unat_eq_iff [of "lo D" 1] by simp
  then show ?thesis
    using False wide dm_udiv32_quotient [OF h x] dm_udiv64_quotient [OF h x]
    by (simp add: dm_quotient_def dm_div32_def Let_def quot32_def Ds [symmetric] del: split_paired_Ex)
qed

end
