(* ===== verification/Div_Correct.thy ===== *)
theory Div_Correct
  imports Div_Emit
begin

text \<open>
  The pass \<open>pass_divmagic\<close> (\<open>src/opt/divmagic.c\<close>) is correct: each instruction is kept or
  replaced by a sequence that computes the same quotient or remainder, so every run of the
  rewritten function gives what the run of the function gave.
\<close>

section \<open>The result register\<close>

lemma dm_result_value:
  assumes h: "holds \<rho> s e F" and x: "(x, X) \<in> set F" and q: "(q, Q) \<in> set F"
  shows "\<exists>blk \<rho>'. nb_p (dm_result m x q D sg src e) = nb_p s @ blk \<and> blk \<noteq> [] \<and> (\<forall>i \<in> set blk. i_op i \<noteq> IR_LABEL) \<and>
    nb_nvregs s \<le> nb_nvregs (dm_result m x q D sg src e) \<and> eval_block blk \<rho> = Some \<rho>' \<and>
    agree (nb_nvregs s) (\<rho>(i_dst src := if m then sx (lo X - lo Q * lo D) else Q)) \<rho>'"
proof -
  define v where "v = (if m then sx (lo X - lo Q * lo D) else Q)"
  define r where "r = (if m then dm_op_const IR_MUL q D 4 sg 0 src e else (- 1, e))"
  define i where "i = (if m then ins_zero\<lparr>i_op := IR_SUB, i_a := x, i_b := fst r\<rparr>
      else ins_zero\<lparr>i_op := IR_MOV, i_a := q, i_b := - 1\<rparr>)
      \<lparr>i_dst := i_dst src, i_w := 4, i_sign := sg, i_line := i_line src, i_col := i_col src\<rparr>"
  have res: "dm_result m x q D sg src e = ib_push i (snd r)"
    by (simp add: dm_result_def Let_def r_def i_def split_beta)
  define G where "G = (if m then (fst r, sx (lo Q * lo D)) # F else F)"
  have "holds \<rho> s (snd r) G"
    using h gives_4(2) [OF h emit_ops(3) q fold_bin_4(3)] by (simp add: r_def gives_def G_def)
  then obtain blk \<rho>' where b: "nb_p (snd r) = nb_p s @ blk" "nb_nvregs s \<le> nb_nvregs (snd r)"
    "\<forall>i \<in> set blk. i_op i \<noteq> IR_LABEL" "eval_block blk \<rho> = Some \<rho>'" "agree (nb_nvregs s) \<rho> \<rho>'"
    "\<forall>(v, x) \<in> set G. v < nb_nvregs (snd r) \<and> \<rho>' v = x"
    unfolding holds_def by blast
  have "m \<Longrightarrow> \<rho>' (fst r) = sx (lo Q * lo D)" "\<rho>' x = X" "\<rho>' q = Q"
    using b(6) x q by (auto simp: G_def split: if_splits)
  then have "ir_value \<rho>' i = Some v"
    by (auto simp: i_def v_def ir_value_def wide_mul_def bin_op_def ins_zero_def opnd_b_def fold_bin_4)
  then have "eval_block (blk @ [i]) \<rho> = Some (\<rho>'(i_dst src := v))"
    using b(4) by (simp add: eval_block_append i_def)
  moreover have "i_op i \<noteq> IR_LABEL"
    by (simp add: i_def)
  ultimately show ?thesis
    using b unfolding res v_def [symmetric]
    by (intro exI [of _ "blk @ [i]"] exI [of _ "\<rho>'(i_dst src := v)"]) (auto simp: ib_push_def agree_def)
qed

section \<open>What the definitions say of a division\<close>

text \<open>A register that \<open>const_b\<close> finds to be a constant holds it.\<close>

definition const_widths :: "ir_func \<Rightarrow> bool" where
  "const_widths fn \<longleftrightarrow> (\<forall>i \<in> set (f_ins fn). i_op i = IR_CONST \<longrightarrow> i_w i = 4 \<or> i_w i = 8)"

lemma const_b_value:
  assumes c: "const_b fn (compute_defs fn) i = Some D" and w: "const_widths fn" and k: "known (Suc d) W fn n \<rho>"
    and i: "i = f_ins fn ! n" "bin_op (i_op i)"
  shows "opnd_b \<rho> i = D"
proof (cases "i_imm_b i")
  case True
  then show ?thesis
    using c by (simp add: const_b_def opnd_b_def)
next
  case False
  define m where "m = nat (d_ins (compute_defs fn) (i_b i))"
  have v: "0 \<le> i_b i" "i_b i < f_nvregs fn" "d_cnt (compute_defs fn) (i_b i) = 1" "0 \<le> d_ins (compute_defs fn) (i_b i)"
    "i_op (f_ins fn ! m) = IR_CONST" "i_imm (f_ins fn ! m) = D"
    using c False by (auto simp: const_b_def Let_def m_def split: if_splits)
  have "i_b i \<in> set (each_read i)"
    using i(2) False unfolding bin_op_def insert_iff empty_iff by (elim disjE FalseE) (simp_all add: each_read_def)
  then obtain \<rho>' where "made_from W \<rho>' (f_ins fn ! m) (\<rho> (i_b i))"
    using k v(1-4) unfolding i(1) m_def by auto
  moreover have "m < length (f_ins fn)"
    using sole_definition(1) [OF v(3,4)] by (simp add: m_def)
  then have "ir_value \<rho>' (f_ins fn ! m) = Some D"
    using v(5,6) w by (simp add: ir_value_def const_widths_def)
  ultimately show ?thesis
    using False by (simp add: made_from_def opnd_b_def)
qed

text \<open>A load of one or two bytes, unsigned, leaves no more than they hold (\<open>ir.h\<close>: ``size, sign, w: extend'').\<close>

definition loads_extend :: "'m world \<Rightarrow> bool" where
  "loads_extend W \<longleftrightarrow> (\<forall>i xs \<mu> vs l \<mu>'. (i_op i = IR_LOAD \<or> i_op i = IR_LDVAR) \<and> \<not> i_sign i \<and> \<not> i_flt i \<and>
     (i_size i = 1 \<or> i_size i = 2) \<and> i_w i = 4 \<and> W i xs \<mu> = Some (vs, l, \<mu>') \<longrightarrow>
     (\<forall>x \<in> set vs. unat (lo x) \<le> (if i_size i = 1 then 0xff else 0xffff)))"

lemma loads_extendD:
  "loads_extend W \<Longrightarrow> i_op i = IR_LOAD \<or> i_op i = IR_LDVAR \<Longrightarrow> \<not> i_sign i \<Longrightarrow> \<not> i_flt i \<Longrightarrow> i_size i = 1 \<or> i_size i = 2 \<Longrightarrow>
    i_w i = 4 \<Longrightarrow> W i xs \<mu> = Some (vs, l, \<mu>') \<Longrightarrow> x \<in> set vs \<Longrightarrow> unat (lo x) \<le> (if i_size i = 1 then 0xff else 0xffff)"
  unfolding loads_extend_def by blast

lemma ext_small: "n = 1 \<or> n = 2 \<Longrightarrow> unat (lo (fold_ext x n False 4)) \<le> (if n = 1 then 0xff else 0xffff)"
proof -
  have "unat (lo (x AND mask k)) \<le> 2 ^ k - 1" for k
  proof -
    have "lo (x AND mask k) = take_bit k (lo x)"
      by (rule bit_word_eqI) (auto simp: bit_simps)
    then have "unat (lo (x AND mask k)) < 2 ^ k"
      by (simp add: unsigned_take_bit_eq take_bit_nat_less_exp)
    then show ?thesis
      by linarith
  qed
  from this [of 8] this [of 16] show "n = 1 \<or> n = 2 \<Longrightarrow> unat (lo (fold_ext x n False 4)) \<le> (if n = 1 then 0xff else 0xffff)"
    by (auto simp: fold_ext_def Let_def norm_4 mask_eq_exp_minus_1)
qed

lemma small_word: "0 \<le>s m \<Longrightarrow> m \<le>s 0xffff \<Longrightarrow> uint m = sint m \<and> m \<le> 0xffff" for m :: u64
proof -
  assume "0 \<le>s m" "m \<le>s 0xffff"
  then have s: "0 \<le> sint m" "sint m \<le> 0xffff"
    by (simp_all add: word_sle_eq)
  then have "uint (word_of_int (sint m) :: u64) = sint m"
    by (simp only: uint_word_of_int take_bit_eq_mod) simp
  then show ?thesis
    using s by (simp add: word_le_def)
qed

lemma unat_lo_small: "m \<le> 0xffff \<Longrightarrow> unat (lo m) = unat m" for m :: u64
  by (simp add: word_le_nat_alt unsigned_ucast_eq take_bit_nat_eq_self)

lemma and_small: "m \<le> 0xffff \<Longrightarrow> unat (a AND lo m) \<le> unat m" for m :: u64
  using word_and_le1 [of a "lo m"] unat_lo_small [of m] by (simp add: word_le_nat_alt)

lemma narrow_bound_le: "dm_narrow_bound fn d x = Some B \<Longrightarrow> B \<le> 0xffff"
  by (auto simp: dm_narrow_bound_def Let_def small_word split: if_split_asm option.split_asm)

lemma narrow_bound_value:
  assumes b: "dm_narrow_bound fn (compute_defs fn) x = Some B" and w: "const_widths fn" "loads_extend W"
    and k: "known (Suc (Suc d)) W fn n \<rho>" and x: "x \<in> set (each_read (f_ins fn ! n))"
  shows "unat (lo (\<rho> x)) \<le> unat B"
proof -
  define m where "m = nat (d_ins (compute_defs fn) x)"
  let ?i = "f_ins fn ! m"
  have v: "0 \<le> x" "x < f_nvregs fn" "d_cnt (compute_defs fn) x = 1" "0 \<le> d_ins (compute_defs fn) x"
    using b by (auto simp: dm_narrow_bound_def split: if_splits)
  then obtain \<rho>' where k': "known (Suc d) W fn m \<rho>'" and made: "made_from W \<rho>' ?i (\<rho> x)"
    using k x unfolding known.simps(2) [of "Suc d"] m_def by blast
  consider (ext) "i_op ?i = IR_EXT \<or> i_op ?i = IR_LOAD \<or> i_op ?i = IR_LDVAR" "\<not> i_sign ?i" "\<not> i_flt ?i" "i_size ?i = 1 \<or> i_size ?i = 2"
      "i_w ?i = 4" "B = (if i_size ?i = 1 then 0xff else 0xffff)"
    | (mask) "i_op ?i = IR_AND" "\<not> i_flt ?i" "i_w ?i = 4" "const_b fn (compute_defs fn) ?i = Some B" "0 \<le>s B" "B \<le>s 0xffff"
    using b v unfolding dm_narrow_bound_def m_def [symmetric] by (auto simp: Let_def split: if_split_asm option.split_asm)
  then show ?thesis
  proof cases
    case ext
    have "unat (lo (\<rho> x)) \<le> (if i_size ?i = 1 then 0xff else 0xffff)"
      using ext(1)
    proof
      assume "i_op ?i = IR_EXT"
      then have "\<rho> x = fold_ext (\<rho>' (i_a ?i)) (i_size ?i) False 4"
        using made ext by (simp add: made_from_def ir_value_def)
      then show ?thesis
        using ext_small [OF ext(4)] by simp
    next
      assume op: "i_op ?i = IR_LOAD \<or> i_op ?i = IR_LDVAR"
      then have "ir_value \<rho>' ?i = None"
        by (auto simp: ir_value_def wide_mul_def bin_op_def)
      then obtain \<mu> vs l \<mu>' where "W ?i (map \<rho>' (each_read ?i)) \<mu> = Some (vs, l, \<mu>')" "\<rho> x \<in> set vs"
        using made by (auto simp: made_from_def)
      then show ?thesis
        by (rule loads_extendD [OF w(2) op ext(2-5)])
    qed
    then show ?thesis
      using ext(6) by auto
  next
    case mask
    have bin: "bin_op (i_op ?i)"
      using mask(1) by (simp add: bin_op_def)
    have "opnd_b \<rho>' ?i = B"
      by (rule const_b_value [OF mask(4) w(1) k' refl bin])
    then have "lo (\<rho> x) = lo (\<rho>' (i_a ?i)) AND lo B"
      using made mask by (simp add: made_from_def ir_value_def wide_mul_def bin_op_def fold_bin_4)
    then show ?thesis
      using and_small [OF narrow_bound_le [OF b]] by simp
  qed
qed

section \<open>Each instruction\<close>

definition dm_ready :: "opt_target \<Rightarrow> 'm world \<Rightarrow> ir_func \<Rightarrow> bool" where
  "dm_ready T W fn \<longleftrightarrow> well_numbered fn \<and> const_widths fn \<and> loads_extend W \<and>
    (\<forall>i \<in> set (f_ins fn). \<forall>D. dm_candidate T fn (compute_defs fn) i = Some D \<longrightarrow>
       norm D 4 = D \<and> (\<forall>M. dm_narrow_consts T fn (compute_defs fn) i D \<noteq> Some (M, 32)))"

definition div_result :: "ir_ins \<Rightarrow> u32 \<Rightarrow> u64 \<Rightarrow> u64 \<Rightarrow> u64" where
  "div_result src X Q D = (if i_op src = IR_MOD then sx (X - lo Q * lo D) else Q)"

lemma rem32:
  "x mod d = x - x div d * d" "word_of_int (sint x smod sint d) = x - word_of_int (sint x sdiv sint d) * d" for x d :: u32
proof -
  show "x mod d = x - x div d * d"
    by (simp add: minus_div_mult_eq_mod)
  have "sint x smod sint d = sint x - sint x sdiv sint d * sint d"
    using sdiv_mult_smod_eq [of "sint x" "sint d"] by linarith
  then show "word_of_int (sint x smod sint d) = x - word_of_int (sint x sdiv sint d) * d"
    by simp
qed

lemma div_value:
  assumes "i_op src = IR_DIV \<or> i_op src = IR_MOD" "\<not> i_flt src" "i_w src = 4" "opnd_b \<rho> src = D"
    "lo D \<noteq> 0" "i_sign src \<Longrightarrow> lo D \<noteq> - 1"
  shows "ir_value \<rho> src = Some (div_result src (lo (\<rho> (i_a src))) (sx (quot32 (i_sign src) (lo (\<rho> (i_a src))) (lo D))) D)"
proof -
  have "bin_op (i_op src)" "\<not> wide_mul (i_op src)" "i_op src \<notin> {IR_CONST, IR_MOV, IR_NEG, IR_BNOT, IR_EXT}"
    using assms(1) by (elim disjE; simp add: bin_op_def wide_mul_def)+
  then have "ir_value \<rho> src = fold_bin (i_op src) (\<rho> (i_a src)) D 4 (i_sign src) (i_pred src)"
    using assms(2-4) by (simp add: ir_value_def)
  then show ?thesis
    using assms(1,5,6) by (cases "i_sign src"; elim disjE) (simp_all add: div_result_def quot32_def fold_div_4 rem32)
qed

lemma quot32_nonneg:
  assumes "unat x < 2 ^ 31" "unat d < 2 ^ 31"
  shows "quot32 sg x d = x div d"
proof -
  have "word_of_int (sint x sdiv sint d) = (word_of_int (uint (x div d)) :: u32)"
    unfolding sint_small [OF assms(1)] sint_small [OF assms(2)] by (simp add: signed_divide_int_def uint_div)
  then show ?thesis
    by (simp add: quot32_def)
qed

lemma candidate_facts:
  assumes "dm_candidate T fn d src = Some D" "norm D 4 = D"
  shows "i_op src = IR_DIV \<or> i_op src = IR_MOD" "\<not> i_flt src" "i_w src = 4" "const_b fn d src = Some D"
    "D \<noteq> 0" "D \<noteq> 1" "D = - 1 \<Longrightarrow> dm_mulh32 T \<and> \<not> i_sign src" "lo D \<noteq> 0" "i_sign src \<Longrightarrow> lo D \<noteq> - 1"
proof -
  show c: "i_op src = IR_DIV \<or> i_op src = IR_MOD" "\<not> i_flt src" "i_w src = 4" "const_b fn d src = Some D"
    "D \<noteq> 0" "D \<noteq> 1" "D = - 1 \<Longrightarrow> dm_mulh32 T \<and> \<not> i_sign src"
    using assms(1) by (auto simp: dm_candidate_def split: if_split_asm option.split_asm)
  have "sx (lo D) = D"
    using assms(2) by (simp add: norm_4)
  then show "lo D \<noteq> 0" "i_sign src \<Longrightarrow> lo D \<noteq> - 1"
    using c by auto
qed

lemma agree_upd: "agree nv \<rho> \<rho>' \<Longrightarrow> agree nv (\<rho>(v := x)) (\<rho>'(v := x))"
  by (simp add: agree_def)

lemma agree_mono: "agree m \<rho> \<rho>' \<Longrightarrow> n \<le> m \<Longrightarrow> agree n \<rho> \<rho>'"
  by (auto simp: agree_def)

lemma agree_trans: "agree n \<rho> \<rho>' \<Longrightarrow> agree n \<rho>' \<rho>'' \<Longrightarrow> agree n \<rho> \<rho>''"
  by (simp add: agree_def)

lemma result_replaces:
  assumes nv: "f_nvregs fn \<le> nb_nvregs e" and src: "src = f_ins fn ! n" "i_op src \<noteq> IR_LABEL"
    and some: "gives \<rho>0 e [(i_a src, X0)] r Q0"
    and val: "\<And>\<rho> \<rho>'. known_at W fn n \<rho> \<Longrightarrow> agree (f_nvregs fn) \<rho> \<rho>' \<Longrightarrow>
      \<exists>X Q. gives \<rho>' e [(i_a src, X)] r Q \<and> ir_value \<rho> src = Some (div_result src (lo X) Q D)"
    and e': "e' = dm_result (i_op src = IR_MOD) (i_a src) (fst r) D sg src (snd r)"
  shows "\<exists>blk. nb_p e' = nb_p e @ blk \<and> nb_nvregs e \<le> nb_nvregs e' \<and> replaces W {} fn n blk"
proof -
  have res: "\<exists>blk \<rho>''. nb_p e' = nb_p e @ blk \<and> blk \<noteq> [] \<and> (\<forall>i \<in> set blk. i_op i \<noteq> IR_LABEL) \<and>
      nb_nvregs e \<le> nb_nvregs e' \<and> eval_block blk \<rho>' = Some \<rho>'' \<and>
      agree (nb_nvregs e) (\<rho>'(i_dst src := div_result src (lo X) Q D)) \<rho>''"
    if "gives \<rho>' e [(i_a src, X)] r Q" for \<rho>' X Q
    unfolding e' div_result_def by (rule dm_result_value [OF that [unfolded gives_def]]) simp_all
  obtain blk where blk: "nb_p e' = nb_p e @ blk" "blk \<noteq> []" "\<forall>i \<in> set blk. i_op i \<noteq> IR_LABEL" "nb_nvregs e \<le> nb_nvregs e'"
    using res [OF some] by blast
  have "\<exists>v \<rho>''. ir_value \<rho> src = Some v \<and> eval_block blk \<rho>' = Some \<rho>'' \<and> agree (f_nvregs fn) (\<rho>(i_dst src := v)) \<rho>''"
    if k: "known_at W fn n \<rho>" and a: "agree (f_nvregs fn) \<rho> \<rho>'" for \<rho> \<rho>'
  proof -
    obtain X Q where v: "gives \<rho>' e [(i_a src, X)] r Q" "ir_value \<rho> src = Some (div_result src (lo X) Q D)"
      using val [OF k a] by blast
    obtain \<rho>'' where e: "eval_block blk \<rho>' = Some \<rho>''" "agree (nb_nvregs e) (\<rho>'(i_dst src := div_result src (lo X) Q D)) \<rho>''"
      using res [OF v(1)] blk(1) by auto
    from agree_mono [OF e(2) nv] have "agree (f_nvregs fn) (\<rho>(i_dst src := div_result src (lo X) Q D)) \<rho>''"
      by (rule agree_trans [OF agree_upd [OF a]])
    then show ?thesis
      using v(2) e(1) by blast
  qed
  then have "replaces W {} fn n blk"
    using blk src unfolding replaces_def zagree_empty by blast
  then show ?thesis
    using blk by blast
qed

lemma reads_dividend: "i_op src = IR_DIV \<or> i_op src = IR_MOD \<Longrightarrow> i_a src \<in> set (each_read src)"
  by (elim disjE) (simp_all add: each_read_def)

lemma dividend_read:
  assumes "dm_ready T W fn" "n < length (f_ins fn)" "i_op (f_ins fn ! n) = IR_DIV \<or> i_op (f_ins fn ! n) = IR_MOD"
    "agree (f_nvregs fn) \<rho> \<rho>'" "f_nvregs fn \<le> nb_nvregs e"
  shows "holds \<rho>' e e [(i_a (f_ins fn ! n), \<rho> (i_a (f_ins fn ! n)))]"
proof -
  have "i_a (f_ins fn ! n) < f_nvregs fn"
    using assms(1) nth_mem [OF assms(2)] reads_dividend [OF assms(3)] unfolding dm_ready_def well_numbered_def by blast
  then show ?thesis
    using assms(4,5) by (intro holds_start) (simp add: agree_def)
qed

lemma ready_candidate:
  assumes "dm_ready T W fn" "n < length (f_ins fn)" "dm_candidate T fn (compute_defs fn) (f_ins fn ! n) = Some D"
  shows "norm D 4 = D" "dm_narrow_consts T fn (compute_defs fn) (f_ins fn ! n) D \<noteq> Some (M, 32)" "const_widths fn" "loads_extend W"
  using assms nth_mem [OF assms(2)] unfolding dm_ready_def by blast+

lemma candidate_value:
  assumes ready: "dm_ready T W fn" "n < length (f_ins fn)" "dm_candidate T fn (compute_defs fn) (f_ins fn ! n) = Some D"
    and known: "known_at W fn n \<rho>"
  defines "src \<equiv> f_ins fn ! n"
  shows "ir_value \<rho> src = Some (div_result src (lo (\<rho> (i_a src))) (sx (quot32 (i_sign src) (lo (\<rho> (i_a src))) (lo D))) D)"
proof -
  note c = candidate_facts [OF ready(3) ready_candidate(1) [OF ready], folded src_def]
  have "bin_op (i_op src)"
    using c(1) by (elim disjE) (simp_all add: bin_op_def)
  moreover have "known (Suc 0) W fn n \<rho>"
    using known unfolding known_at_def by blast
  ultimately have "opnd_b \<rho> src = D"
    using const_b_value [OF c(4) ready_candidate(3) [OF ready] _ src_def [THEN meta_eq_to_obj_eq]] by blast
  then show ?thesis
    using c by (intro div_value) auto
qed

lemma dm_wide_block:
  assumes ready: "dm_ready T W fn" "n < length (f_ins fn)" "dm_candidate T fn (compute_defs fn) (f_ins fn ! n) = Some D"
    and nv: "f_nvregs fn \<le> nb_nvregs e" and src: "src = f_ins fn ! n"
    and wide: "\<not> (dm_pow2_only T \<and> \<not> (i_sign src \<and> log2_pow2_l (long_abs D) \<ge> 0))"
  shows "\<exists>q e1 e' blk. dm_quotient T (i_a src) D (i_sign src) src e = Some (q, e1) \<and>
    e' = dm_result (i_op src = IR_MOD) (i_a src) q D (i_sign src) src e1 \<and>
    nb_p e' = nb_p e @ blk \<and> nb_nvregs e \<le> nb_nvregs e' \<and> replaces W {} fn n blk"
proof -
  note D = ready_candidate(1) [OF ready]
  note c = candidate_facts [OF ready(3) D, folded src]
  note start = dividend_read [OF ready(1,2) c(1) [unfolded src] _ nv, folded src]
  have quo: "\<exists>r. dm_quotient T (i_a src) D (i_sign src) src e = Some r \<and>
      gives \<rho>' e [(i_a src, X)] r (sx (quot32 (i_sign src) (lo X) (lo D)))"
    if "holds \<rho>' e e [(i_a src, X)]" for \<rho>' X
    using wide c(7) by (intro dm_quotient_value [OF that _ D c(5,6)]) auto
  have here: "agree (f_nvregs fn) \<rho> \<rho>" for \<rho>
    by (simp add: agree_def)
  obtain r where r: "dm_quotient T (i_a src) D (i_sign src) src e = Some r"
    using quo [OF start [OF here]] by blast
  have give: "gives \<rho>' e [(i_a src, \<rho> (i_a src))] r (sx (quot32 (i_sign src) (lo (\<rho> (i_a src))) (lo D)))"
    if "agree (f_nvregs fn) \<rho> \<rho>'" for \<rho> \<rho>'
    using quo [OF start [OF that]] r by simp
  have "\<exists>blk. nb_p (dm_result (i_op src = IR_MOD) (i_a src) (fst r) D (i_sign src) src (snd r)) = nb_p e @ blk \<and>
      nb_nvregs e \<le> nb_nvregs (dm_result (i_op src = IR_MOD) (i_a src) (fst r) D (i_sign src) src (snd r)) \<and> replaces W {} fn n blk"
  proof (rule result_replaces [OF nv src _ give [OF here]])
    show "i_op src \<noteq> IR_LABEL"
      using c(1) by auto
    show "\<exists>X Q. gives \<rho>' e [(i_a src, X)] r Q \<and> ir_value \<rho> src = Some (div_result src (lo X) Q D)"
      if "known_at W fn n \<rho>" "agree (f_nvregs fn) \<rho> \<rho>'" for \<rho> \<rho>'
      using candidate_value [OF ready that(1), folded src] give [OF that(2)] by blast
  qed (rule refl)
  then show ?thesis
    using r by (cases r) auto
qed

lemma dm_narrow_block:
  assumes ready: "dm_ready T W fn" "n < length (f_ins fn)" "dm_candidate T fn (compute_defs fn) (f_ins fn ! n) = Some D"
    and nv: "f_nvregs fn \<le> nb_nvregs e" and src: "src = f_ins fn ! n"
    and narrow: "dm_narrow_consts T fn (compute_defs fn) src D = Some (M, sh)"
  defines "r \<equiv> dm_narrow (i_a src) D M sh src e"
  defines "e' \<equiv> dm_result (i_op src = IR_MOD) (i_a src) (fst r) D False src (snd r)"
  shows "\<exists>blk. nb_p e' = nb_p e @ blk \<and> nb_nvregs e \<le> nb_nvregs e' \<and> replaces W {} fn n blk"
proof -
  note D = ready_candidate [OF ready, folded src]
  note c = candidate_facts [OF ready(3) D(1), folded src]
  note start = dividend_read [OF ready(1,2) c(1) [unfolded src] _ nv, folded src]
  obtain B where B: "dm_narrow_bound fn (compute_defs fn) (i_a src) = Some B" "dm_narrow_magic D B = Some (M, sh)" "1 <s D" "D \<le>s 0xffff"
    using narrow by (auto simp: dm_narrow_consts_def Option.bind_eq_Some_conv split: if_split_asm)
  have "0 \<le>s D"
    using B(3) by (simp add: word_sless_alt word_sle_eq)
  then have d: "1 < D" "D \<le> 0xffff"
    using small_word [OF _ B(4)] B(3) by (simp_all add: word_less_def word_sless_alt)
  have sh: "sh \<noteq> 32"
    using narrow D(2) by auto
  note bound = narrow_bound_le [OF B(1)]
  have give: "gives \<rho>' e [(i_a src, X)] r (sx (quot32 (i_sign src) (lo X) (lo D)))"
    if "holds \<rho>' e e [(i_a src, X)]" "unat (lo X) \<le> unat B" for \<rho>' X
  proof -
    have "quot32 (i_sign src) (lo X) (lo D) = lo X div lo D"
      using that(2) bound d(2) unat_lo_small [OF d(2)] by (intro quot32_nonneg) (simp_all add: word_le_nat_alt)
    then show ?thesis
      unfolding r_def using dm_narrow_quotient_word [OF that(1) _ d bound B(2) that(2) sh] by simp
  qed
  have some: "gives (\<lambda>_. 0) e [(i_a src, 0)] r (sx (quot32 (i_sign src) (lo 0) (lo D)))"
    using start [of "\<lambda>_. 0" "\<lambda>_. 0"] by (intro give) (simp_all add: agree_def)
  show ?thesis
  proof (rule result_replaces [OF nv src _ some])
    show "i_op src \<noteq> IR_LABEL"
      using c(1) by auto
    show "\<exists>X Q. gives \<rho>' e [(i_a src, X)] r Q \<and> ir_value \<rho> src = Some (div_result src (lo X) Q D)"
      if k: "known_at W fn n \<rho>" and a: "agree (f_nvregs fn) \<rho> \<rho>'" for \<rho> \<rho>'
    proof -
      have "known (Suc (Suc 0)) W fn n \<rho>"
        using k unfolding known_at_def by blast
      then have "unat (lo (\<rho> (i_a src))) \<le> unat B"
        using narrow_bound_value [OF B(1) D(3,4)] reads_dividend [OF c(1)] unfolding src by blast
      then show ?thesis
        using candidate_value [OF ready k, folded src] give [OF start [OF a]] by blast
    qed
  qed (simp add: e'_def)
qed

lemma dm_ins_block:
  assumes ready: "dm_ready T W fn" "n < length (f_ins fn)" and nv: "f_nvregs fn \<le> nb_nvregs e"
  shows "\<exists>e' c blk. dm_ins T fn (compute_defs fn) (f_ins fn ! n) e = Some (e', c) \<and> nb_p e' = nb_p e @ blk \<and>
    nb_nvregs e \<le> nb_nvregs e' \<and> (blk = [f_ins fn ! n] \<or> c \<and> replaces W {} fn n blk)"
proof -
  let ?src = "f_ins fn ! n" and ?d = "compute_defs fn"
  have keep: ?thesis if "dm_ins T fn ?d ?src e = Some (ib_push ?src e, False)"
    using that by (auto simp: ib_push_def)
  show ?thesis
  proof (cases "dm_candidate T fn ?d ?src")
    case None
    then show ?thesis
      by (intro keep) (simp add: dm_ins_def)
  next
    case D: (Some D)
    show ?thesis
    proof (cases "dm_narrow_consts T fn ?d ?src D")
      case (Some p)
      obtain M sh where p: "p = (M, sh)"
        by (cases p)
      show ?thesis
        using dm_narrow_block [OF ready D nv refl Some [unfolded p]] D Some p
        by (auto simp: dm_ins_def Let_def split_beta)
    next
      case None
      show ?thesis
      proof (cases "dm_pow2_only T \<and> \<not> (i_sign ?src \<and> log2_pow2_l (long_abs D) \<ge> 0)")
        case True
        then show ?thesis
          using None D by (intro keep) (simp add: dm_ins_def)
      next
        case False
        then show ?thesis
          using dm_wide_block [OF ready D nv refl False] D None by (auto simp: dm_ins_def)
      qed
    qed
  qed
qed

section \<open>The pass\<close>

lemma pass_loop_blocks:
  assumes step: "\<And>n e. n < length (f_ins fn) \<Longrightarrow> f_nvregs fn \<le> nb_nvregs e \<Longrightarrow>
      \<exists>e' c blk. f (f_ins fn ! n) e = Some (e', c) \<and> nb_p e' = nb_p e @ blk \<and>
        nb_nvregs e \<le> nb_nvregs e' \<and> (blk = [f_ins fn ! n] \<or> c \<and> replaces W {} fn n blk)"
    and code: "f_ins fn = pre @ is" and nv: "f_nvregs fn \<le> nb_nvregs e"
  shows "\<exists>np e' c bs. pass_loop f is e = Some (np, e', c) \<and> nb_p e' = nb_p e @ concat bs \<and> length bs = length is \<and>
    (\<forall>j < length is. bs ! j = [is ! j] \<or> c \<and> replaces W {} fn (length pre + j) (bs ! j))"
  using code nv
proof (induction "is" arbitrary: pre e)
  case (Cons i "is")
  obtain e1 c1 blk where e1: "f i e = Some (e1, c1)" "nb_p e1 = nb_p e @ blk" "nb_nvregs e \<le> nb_nvregs e1"
    "blk = [i] \<or> c1 \<and> replaces W {} fn (length pre) blk"
    using step [of "length pre" e] Cons.prems by auto
  have "f_ins fn = (pre @ [i]) @ is" "f_nvregs fn \<le> nb_nvregs e1"
    using Cons.prems e1(3) by simp_all
  from Cons.IH [OF this] obtain np e2 c2 bs where e2: "pass_loop f is e1 = Some (np, e2, c2)" "nb_p e2 = nb_p e1 @ concat bs"
    "length bs = length is" "\<forall>j < length is. bs ! j = [is ! j] \<or> c2 \<and> replaces W {} fn (Suc (length pre) + j) (bs ! j)"
    by auto
  have "\<forall>j < length (i # is). (blk # bs) ! j = [(i # is) ! j] \<or>
      (c1 \<or> c2) \<and> replaces W {} fn (length pre + j) ((blk # bs) ! j)"
    using e1(4) e2(4) by (auto simp: less_Suc_eq_0_disj)
  then show ?case
    using e1 e2 by (intro exI [of _ "int (length (nb_p e)) # np"] exI [of _ e2] exI [of _ "c1 \<or> c2"] exI [of _ "blk # bs"]) simp
qed auto

lemma block_rewrite_keep:
  "well_numbered fn \<Longrightarrow> f_ins fn' = f_ins fn \<Longrightarrow> f_jt fn' = f_jt fn \<Longrightarrow> \<exists>bs. block_rewrite W {} fn fn' bs"
  unfolding block_rewrite_def
  by (intro exI [of _ "map (\<lambda>i. [i]) (f_ins fn)"]) (simp add: concat_map_singleton keeps_untested)

lemma pass_divmagic_blocks:
  assumes "dm_ready T W fn" and wn: "well_numbered fn"
  shows "\<exists>fn' c bs. pass_divmagic T fn = Some (fn', c) \<and> block_rewrite W {} fn fn' bs"
proof (cases "f_ins fn = [] \<or> t_ptr_size T < 8 \<and> t_opt_size T \<and> \<not> t_div_calls T True")
  case True
  then show ?thesis
    using block_rewrite_keep [OF wn, of fn W] by (auto simp: pass_divmagic_def)
next
  case False
  let ?e = "\<lparr>nb_p = [], nb_nvregs = f_nvregs fn\<rparr>" and ?f = "dm_ins T fn (compute_defs fn)"
  obtain np e c bs where r: "pass_loop ?f (f_ins fn) ?e = Some (np, e, c)" "nb_p e = concat bs" "length bs = length (f_ins fn)"
    "\<forall>n < length (f_ins fn). bs ! n = [f_ins fn ! n] \<or> c \<and> replaces W {} fn n (bs ! n)"
    using pass_loop_blocks [OF dm_ins_block [OF assms(1)], of "[]" "f_ins fn" ?e] by auto
  have "\<exists>bs. block_rewrite W {} fn (fst (pass_end fn (np, e, c))) bs"
  proof (cases c)
    case True
    then have "block_rewrite W {} fn (fst (pass_end fn (np, e, c))) bs"
      using r(2-4) by (auto simp: block_rewrite_def pass_end_def Let_def keeps_untested [OF wn])
    then show ?thesis ..
  next
    case False
    then show ?thesis
      by (intro block_rewrite_keep [OF wn]) (simp_all add: pass_end_def)
  qed
  moreover have "pass_divmagic T fn = Some (fst (pass_end fn (np, e, c)), snd (pass_end fn (np, e, c)))"
    using False r(1) by (auto simp: pass_divmagic_def)
  ultimately show ?thesis
    by blast
qed

interpretation divmagic: block_pass "\<lambda>fn. map_option fst (pass_divmagic T fn)" "dm_ready T" for T
proof
  have wn: "dm_ready T W fn \<Longrightarrow> well_numbered fn" for W fn
    by (simp add: dm_ready_def)
  show "\<exists>fn'. map_option fst (pass_divmagic T fn) = Some fn'" if "dm_ready T W fn" for W fn
    using pass_divmagic_blocks [OF that wn [OF that]] by auto
  show "\<exists>Z bs. block_rewrite W Z fn fn' bs" if ready: "dm_ready T W fn" and res: "map_option fst (pass_divmagic T fn) = Some fn'" for W fn fn'
  proof -
    obtain bs where "block_rewrite W {} fn fn' bs"
      using pass_divmagic_blocks [OF ready wn [OF ready]] res by auto
    then show ?thesis
      by (intro exI)
  qed
qed

section \<open>The pass preserves every run\<close>

text \<open>C000: replacing divisions by constants preserves what a function does.  On a function whose registers are
  numbered below \<open>nvregs\<close>, whose constants have the widths the IR gives them and whose narrow dividends do not
  ask for a shift by 32, \<open>pass_divmagic\<close> returns, and the function it leaves ends every run that ended with the same
  returned values and state, and keeps running where the function ran forever.\<close>

theorem pass_divmagic_preserves:
  assumes "dm_ready T W fn" "defs_first W fn \<rho> \<mu>"
  shows "\<exists>fn' c. pass_divmagic T fn = Some (fn', c) \<and>
    (\<forall>k vs \<mu>'. ir_steps W fn k (Run 0 \<rho> \<mu>) = Some (Done vs \<mu>') \<longrightarrow>
       (\<exists>k'. ir_steps W fn' k' (Run 0 \<rho> \<mu>) = Some (Done vs \<mu>'))) \<and>
    ((\<forall>k. ir_steps W fn k (Run 0 \<rho> \<mu>) \<noteq> None) \<longrightarrow> (\<forall>k. ir_steps W fn' k (Run 0 \<rho> \<mu>) \<noteq> None))"
  using divmagic.pass_preserves [OF assms] by auto

definition target64 :: opt_target where
  "target64 = \<lparr>t_ptr_size = 8, t_has_mulh = False, t_div_calls = (\<lambda>_. False), t_opt_size = False, t_no_mulh = False,
     t_no_mulw = False, t_no_div16 = False, t_no_divshift = False, t_no_divtest = False\<rparr>"

definition div7_fn :: ir_func where
  "div7_fn = \<lparr>f_ins = [ins_blank\<lparr>i_op := IR_CONST, i_dst := 1, i_w := 4, i_imm := 7\<rparr>,
       ins_blank\<lparr>i_op := IR_DIV, i_dst := 2, i_a := 0, i_b := 1, i_w := 4\<rparr>,
       ins_blank\<lparr>i_op := IR_RET, i_a := 2, i_w := 4\<rparr>],
     f_nvregs = 3, f_nparams = 1, f_nvars = 1, f_locals = [], f_jt = [], f_scope_lo = None, f_scope_hi = []\<rparr>"

definition no_world :: "unit world" where
  "no_world = (\<lambda>i xs \<mu>. None)"

lemma div7_defs:
  "d_cnt (compute_defs div7_fn) = (\<lambda>v. if v = 0 \<or> v = 1 \<or> v = 2 then 1 else 0)"
  "d_ins (compute_defs div7_fn) = (\<lambda>v. if v = 1 then 0 else if v = 2 then 1 else - 1)"
  by (auto simp: fun_eq_iff compute_defs_def div7_fn_def count_ins_def count_def_def def_target_def writes_temp_def ins_blank_def ins_zero_def)

lemma div7_ready: "dm_ready target64 no_world div7_fn"
proof -
  have "well_numbered div7_fn" "const_widths div7_fn" "loads_extend no_world"
    by (simp_all add: well_numbered_def const_widths_def loads_extend_def no_world_def div7_fn_def each_read_def
        def_targets_def def_target_def writes_temp_def ins_blank_def ins_zero_def)
  moreover have "norm D 4 = D \<and> (\<forall>M. dm_narrow_consts target64 div7_fn (compute_defs div7_fn) i D \<noteq> Some (M, 32))"
    if "i \<in> set (f_ins div7_fn)" "dm_candidate target64 div7_fn (compute_defs div7_fn) i = Some D" for i D
  proof -
    have "D = 7"
      using that by (auto simp: dm_candidate_def const_b_def div7_defs Let_def split: if_split_asm)
        (auto simp: div7_fn_def ins_blank_def ins_zero_def split: if_split_asm)
    then show ?thesis
      by (simp add: norm_4 dm_narrow_consts_def dm_narrow16_def dm_pow2_only_def target64_def)
  qed
  ultimately show ?thesis
    by (simp add: dm_ready_def)
qed

lemma div7_code:
  "length (f_ins div7_fn) = 3"
  "ir_value \<rho> (f_ins div7_fn ! 0) = Some 7" "i_dst (f_ins div7_fn ! 0) = 1" "each_read (f_ins div7_fn ! 0) = []"
  "ir_value \<rho> (f_ins div7_fn ! 1) = fold_bin IR_DIV (\<rho> 0) (\<rho> 1) 4 False B_ADD" "i_dst (f_ins div7_fn ! 1) = 2"
  "each_read (f_ins div7_fn ! 1) = [0, 1]" "ir_value \<rho> (f_ins div7_fn ! 2) = None" "i_op (f_ins div7_fn ! 2) = IR_RET"
  "each_read (f_ins div7_fn ! 2) = [2]"
  by (simp_all add: div7_fn_def ins_blank_def ins_zero_def ir_value_def wide_mul_def bin_op_def opnd_b_def each_read_def)

lemma div7_steps:
  "ir_step no_world div7_fn (Run 0 \<rho> ()) = Some (Run 1 (\<rho>(1 := 7)) ())"
  "lo (\<rho> 0) = 100 \<Longrightarrow> lo (\<rho> 1) = 7 \<Longrightarrow> ir_step no_world div7_fn (Run 1 \<rho> ()) = Some (Run 2 (\<rho>(2 := 14)) ())"
  "ir_step no_world div7_fn (Run 2 \<rho> ()) = Some (Done [\<rho> 2] ())"
proof -
  show "ir_step no_world div7_fn (Run 0 \<rho> ()) = Some (Run 1 (\<rho>(1 := 7)) ())"
    using div7_code(2,3) by (simp add: div7_code(1))
  show "ir_step no_world div7_fn (Run 1 \<rho> ()) = Some (Run 2 (\<rho>(2 := 14)) ())" if "lo (\<rho> 0) = 100" "lo (\<rho> 1) = 7"
  proof -
    have "ir_value \<rho> (f_ins div7_fn ! 1) = Some 14"
      unfolding div7_code(5) fold_div_4(1) that by simp
    then show ?thesis
      using div7_code(6) by (simp add: div7_code(1))
  qed
  show "ir_step no_world div7_fn (Run 2 \<rho> ()) = Some (Done [\<rho> 2] ())"
    by (simp add: div7_code ir_effect_def)
qed

lemma div7_run:
  "ir_steps no_world div7_fn 0 (Run 0 (\<lambda>_. 100) ()) = Some (Run 0 (\<lambda>_. 100) ())"
  "ir_steps no_world div7_fn (Suc 0) (Run 0 (\<lambda>_. 100) ()) = Some (Run 1 ((\<lambda>_. 100)(1 := 7)) ())"
  "ir_steps no_world div7_fn (Suc (Suc 0)) (Run 0 (\<lambda>_. 100) ()) = Some (Run 2 ((\<lambda>_. 100)(1 := 7, 2 := 14)) ())"
  "ir_steps no_world div7_fn (Suc (Suc (Suc 0))) (Run 0 (\<lambda>_. 100) ()) = Some (Done [14] ())"
  "ir_steps no_world div7_fn (Suc (Suc (Suc (Suc k)))) (Run 0 (\<lambda>_. 100) ()) = None"
proof -
  let ?S = "\<lambda>k. ir_steps no_world div7_fn k (Run 0 (\<lambda>_. 100) ())"
  show "?S 0 = Some (Run 0 (\<lambda>_. 100) ())"
    by simp
  show s1: "?S (Suc 0) = Some (Run 1 ((\<lambda>_. 100)(1 := 7)) ())"
    by (simp only: ir_steps.simps bind.bind_lunit div7_steps(1))
  have s2: "?S (Suc (Suc 0)) = ir_step no_world div7_fn (Run 1 ((\<lambda>_. 100)(1 := 7)) ())"
    unfolding ir_steps.simps(2) [of _ _ "Suc 0"] s1 by simp
  show s2: "?S (Suc (Suc 0)) = Some (Run 2 ((\<lambda>_. 100)(1 := 7, 2 := 14)) ())"
    unfolding s2 by (rule div7_steps(2)) simp_all
  show s3: "?S (Suc (Suc (Suc 0))) = Some (Done [14] ())"
    unfolding ir_steps.simps(2) [of _ _ "Suc (Suc 0)"] s2 bind.bind_lunit div7_steps(3) by simp
  show "?S (Suc (Suc (Suc (Suc k)))) = None"
    using s3 by (induction k) simp_all
qed

lemma div7_first: "defs_first no_world div7_fn (\<lambda>_. 100) ()"
  unfolding defs_first_def
proof (intro allI impI, elim conjE)
  fix k n \<rho> \<mu> v
  assume run: "ir_steps no_world div7_fn k (Run 0 (\<lambda>_. 100) ()) = Some (Run n \<rho> \<mu>)"
    and v: "v \<in> set (each_read (f_ins div7_fn ! n))" "d_cnt (compute_defs div7_fn) v = 1" "0 \<le> d_ins (compute_defs div7_fn) v"
  consider "k = 0" | "k = Suc 0" | "k = Suc (Suc 0)" | "k = Suc (Suc (Suc 0))" | j where "k = Suc (Suc (Suc (Suc j)))"
    by (metis not0_implies_Suc)
  then have k: "n = k \<and> k < 3"
    using run div7_run by cases auto
  then consider "k = 0" | "k = 1" | "k = 2"
    by linarith
  then have "nat (d_ins (compute_defs div7_fn) v) < k"
    using v k div7_code(4,7,10) by cases (auto simp: div7_defs)
  moreover have "\<exists>\<rho>' \<mu>'. ir_steps no_world div7_fn j (Run 0 (\<lambda>_. 100) ()) = Some (Run j \<rho>' \<mu>')" if j3: "j < 3" for j
  proof -
    consider "j = 0" | "j = Suc 0" | "j = Suc (Suc 0)"
      using j3 by linarith
    then show ?thesis
      using div7_run(1-3) by cases (auto simp: numeral_2_eq_2)
  qed
  ultimately show "\<exists>j < k. \<exists>\<rho>' \<mu>'. ir_steps no_world div7_fn j (Run 0 (\<lambda>_. 100) ()) =
      Some (Run (nat (d_ins (compute_defs div7_fn) v)) \<rho>' \<mu>')"
    using k by (meson less_trans)
qed

theorem pass_divmagic_preserves_witness:
  "\<exists>fn' c k'. pass_divmagic target64 div7_fn = Some (fn', c) \<and>
    ir_steps no_world fn' k' (Run 0 (\<lambda>_. 100) ()) = Some (Done [14] ())"
  using pass_divmagic_preserves [OF div7_ready div7_first] div7_run(4) by blast

section \<open>A shift by the width\<close>

definition target_v6m :: opt_target where
  "target_v6m = \<lparr>t_ptr_size = 4, t_has_mulh = False, t_div_calls = (\<lambda>_. True), t_opt_size = False, t_no_mulh = False,
     t_no_mulw = False, t_no_div16 = False, t_no_divshift = False, t_no_divtest = False\<rparr>"

definition narrow_fn :: ir_func where
  "narrow_fn = \<lparr>f_ins = [ins_blank\<lparr>i_op := IR_AND, i_dst := 1, i_a := 0, i_w := 4, i_imm_b := True, i_imm := 65533\<rparr>,
       ins_blank\<lparr>i_op := IR_DIV, i_dst := 2, i_a := 1, i_w := 4, i_imm_b := True, i_imm := 65534\<rparr>,
       ins_blank\<lparr>i_op := IR_RET, i_a := 2, i_w := 4\<rparr>],
     f_nvregs = 3, f_nparams = 1, f_nvars = 1, f_locals = [], f_jt = [], f_scope_lo = None, f_scope_hi = []\<rparr>"

fun returned :: "'m ir_state option \<Rightarrow> u64 list option" where
  "returned (Some (Done vs \<mu>)) = Some vs"
| "returned s = None"

text \<open>C000: the shift of the narrow sequence may be 32, which the 32-bit shift of the IR does not do.  For
  \<open>(x & 65533) / 65534\<close>, whose quotient is 0, the multiplier is 65539 and the shift 32; the folder's shift reads its
  count modulo 32, so on a target where a divide is a call the rewritten function returns 65539 for \<open>x = 1\<close>.\<close>

theorem narrow_shift_by_32:
  "(case pass_divmagic target_v6m narrow_fn of
      None \<Rightarrow> False
    | Some (fn', c) \<Rightarrow> c \<and> returned (ir_steps no_world fn' 7 (Run 0 (\<lambda>_. 1) ())) = Some [65539]) \<and>
   returned (ir_steps no_world narrow_fn 3 (Run 0 (\<lambda>_. 1) ())) = Some [0]"
  by code_simp

end
