(* ===== verification/Spec2Isabelle.thy ===== *)
theory Spec2Isabelle
  imports W128 Rt_Int Rv_Compress Rv_Machine Div_Correct
begin

text \<open>EmbCC: verification library.\<close>

end
